(* ===== verification/Go_Prelude.thy ===== *)
theory Go_Prelude
  imports Main "HOL-Library.Word" "HOL-Library.AList" "HOL-Library.Multiset" "HOL-Library.Sublist"
begin

text \<open>
  The vocabulary every component shares: the Go values the services pass around (strings, times,
  UUIDs, \<open>error\<close> values), the parts of the Go standard library they call (\<open>strings\<close>, \<open>fmt\<close>,
  \<open>errors\<close>), Go maps as association lists, and the operations of the decimal package the code
  needs as text. Decimals themselves are values of a type variable of class
  \<open>linordered_idom\<close>: addition, subtraction, multiplication and comparison of
  \<^verbatim>\<open>shopspring/decimal\<close> are exact, and the ring and order laws of the class are all the
  development uses of them.
\<close>

named_theorems go_string \<open>facts about the string functions of the Go standard library\<close>
named_theorems go_map \<open>facts about Go maps, modelled as association lists\<close>

section \<open>Strings\<close>

text \<open>
  A Go string is a sequence of bytes, here a HOL \<open>string\<close>. \<open>TrimSpace\<close>, \<open>ToLower\<close> and
  \<open>ToUpper\<close> are written for the ASCII range; bytes above it are left as they are.
\<close>

definition isSpace :: "char \<Rightarrow> bool" where
  "isSpace c \<longleftrightarrow> c = CHR 0x20 \<or> c = CHR 0x09 \<or> c = CHR 0x0A \<or> c = CHR 0x0B \<or> c = CHR 0x0C \<or> c = CHR 0x0D"

definition TrimSpace :: "string \<Rightarrow> string" where
  "TrimSpace s = rev (dropWhile isSpace (rev (dropWhile isSpace s)))"

definition lower_char :: "char \<Rightarrow> char" where
  "lower_char c = (let n = (of_char c :: nat) in if 65 \<le> n \<and> n \<le> 90 then char_of (n + 32) else c)"

definition upper_char :: "char \<Rightarrow> char" where
  "upper_char c = (let n = (of_char c :: nat) in if 97 \<le> n \<and> n \<le> 122 then char_of (n - 32) else c)"

definition ToLower :: "string \<Rightarrow> string" where
  "ToLower s = map lower_char s"

definition ToUpper :: "string \<Rightarrow> string" where
  "ToUpper s = map upper_char s"

definition HasPrefix :: "string \<Rightarrow> string \<Rightarrow> bool" where
  "HasPrefix s p \<longleftrightarrow> take (length p) s = p"

definition TrimPrefix :: "string \<Rightarrow> string \<Rightarrow> string" where
  "TrimPrefix s p = (if HasPrefix s p then drop (length p) s else s)"

text \<open>\<open>strings.Contains\<close> and \<open>strings.Split\<close> are only ever called with a one-byte separator.\<close>

definition Contains :: "string \<Rightarrow> char \<Rightarrow> bool" where
  "Contains s c \<longleftrightarrow> List.member s c"

fun Split :: "string \<Rightarrow> char \<Rightarrow> string list" where
  "Split [] c = [[]]"
| "Split (x # xs) c =
     (if x = c then [] # Split xs c
      else case Split xs c of [] \<Rightarrow> [[x]] | w # ws \<Rightarrow> (x # w) # ws)"

fun Join :: "string list \<Rightarrow> string \<Rightarrow> string" where
  "Join [] sep = []"
| "Join [x] sep = x"
| "Join (x # y # xs) sep = x @ sep @ Join (y # xs) sep"

text \<open>\<open>fmt.Sprintf("%d", n)\<close> for the non-negative indices and offsets the code formats.\<close>

definition digit_char :: "nat \<Rightarrow> char" where
  "digit_char d = char_of (48 + d)"

fun nat_string :: "nat \<Rightarrow> string" where
  "nat_string n = (if n < 10 then [digit_char n] else nat_string (n div 10) @ [digit_char (n mod 10)])"

declare nat_string.simps [simp del]

subsection \<open>Facts about strings\<close>

lemma TrimSpace_Nil [simp]: "TrimSpace [] = []"
  by (simp add: TrimSpace_def)

lemma dropWhile_idem [simp]: "dropWhile P (dropWhile P xs) = dropWhile P xs"
  by (induction xs) auto

lemma dropWhile_hd: "dropWhile P xs = [] \<or> \<not> P (hd (dropWhile P xs))"
  by (induction xs) auto

lemma dropWhile_rev_dropWhile:
  "dropWhile P (rev (dropWhile P (rev (dropWhile P xs)))) = rev (dropWhile P (rev (dropWhile P xs)))"
proof (cases "dropWhile P xs")
  case Nil
  then show ?thesis by (simp only: rev.simps dropWhile.simps)
next
  case (Cons y ys)
  then have "\<not> P y" using dropWhile_hd [of P xs] by simp
  with Cons show ?thesis by (auto simp: dropWhile_append)
qed

lemma TrimSpace_idem [simp, go_string]: "TrimSpace (TrimSpace s) = TrimSpace s"
  by (simp add: TrimSpace_def dropWhile_rev_dropWhile)

lemma lower_char_idem [simp]: "lower_char (lower_char c) = lower_char c"
  by (auto simp: lower_char_def Let_def)

lemma upper_char_idem [simp]: "upper_char (upper_char c) = upper_char c"
  by (auto simp: upper_char_def Let_def)

lemma ToLower_idem [simp, go_string]: "ToLower (ToLower s) = ToLower s"
  by (simp add: ToLower_def)

lemma ToUpper_idem [simp, go_string]: "ToUpper (ToUpper s) = ToUpper s"
  by (simp add: ToUpper_def)

lemma ToUpper_Nil [simp]: "ToUpper [] = []"
  by (simp add: ToUpper_def)

lemma ToUpper_eq_Nil [simp]: "ToUpper s = [] \<longleftrightarrow> s = []"
  by (simp add: ToUpper_def)

lemma ToLower_Nil [simp]: "ToLower [] = []"
  by (simp add: ToLower_def)

lemma Split_not_Nil [simp]: "Split s c \<noteq> []"
  by (induction s) (auto split: list.splits)

lemma HasPrefix_append [simp]: "HasPrefix (p @ s) p"
  by (simp add: HasPrefix_def)

lemma digit_char_inject: "a < 10 \<Longrightarrow> b < 10 \<Longrightarrow> digit_char a = digit_char b \<longleftrightarrow> a = b"
proof -
  assume "a < 10" "b < 10"
  then have "(of_char (digit_char a) :: nat) = 48 + a" "(of_char (digit_char b) :: nat) = 48 + b"
    by (simp_all add: digit_char_def of_char_of)
  then show ?thesis by (metis add_left_cancel)
qed

lemma nat_string_not_Nil [simp]: "nat_string n \<noteq> []"
  by (subst nat_string.simps) simp

lemma Nil_not_nat_string [simp]: "[] \<noteq> nat_string n"
  by (rule not_sym) simp

text \<open>Different numbers print differently, so an index is recoverable from its text.\<close>

lemma nat_string_inject [simp, go_string]: "nat_string m = nat_string n \<longleftrightarrow> m = n"
proof (induction m arbitrary: n rule: nat_string.induct)
  case (1 m)
  show ?case
  proof (cases "m < 10")
    case True
    then show ?thesis
      by (cases "n < 10") (auto simp: nat_string.simps [of m] nat_string.simps [of n] digit_char_inject)
  next
    case m: False
    show ?thesis
    proof (cases "n < 10")
      case True
      with m show ?thesis
        by (auto simp: nat_string.simps [of m] nat_string.simps [of n])
    next
      case False
      with m have "nat_string m = nat_string n \<longleftrightarrow> m div 10 = n div 10 \<and> m mod 10 = n mod 10"
        by (simp add: nat_string.simps [of m] nat_string.simps [of n] "1.IH" digit_char_inject)
      then show ?thesis by (metis div_mult_mod_eq)
    qed
  qed
qed

section \<open>Times, UUIDs and errors\<close>

text \<open>A \<open>time.Time\<close> is the number of nanoseconds since Go's zero time.\<close>

type_synonym time = int
type_synonym duration = int

definition IsZeroTime :: "time \<Rightarrow> bool" where
  "IsZeroTime t \<longleftrightarrow> t = 0"

text \<open>
  \<open>t.UTC().Format(time.RFC3339)\<close>: the civil date from the number of days since 1 January of year 1,
  by cycles of 400, 100, 4 and 1 years. Parsing such a text back gives the time without its fraction of a
  second.
\<close>

definition nanos_per_second :: int where
  "nanos_per_second = 1000000000"

definition leap_year :: "int \<Rightarrow> bool" where
  "leap_year y \<longleftrightarrow> y mod 4 = 0 \<and> (y mod 100 \<noteq> 0 \<or> y mod 400 = 0)"

fun month_day :: "int \<Rightarrow> int list \<Rightarrow> int \<Rightarrow> int \<times> int" where
  "month_day m [] d = (m, d)"
| "month_day m (n # ns) d = (if d < n then (m, d + 1) else month_day (m + 1) ns (d - n))"

definition civil_date :: "int \<Rightarrow> int \<times> int \<times> int" where
  "civil_date days =
     (let n400 = days div 146097; r400 = days mod 146097;
          n100 = min 3 (r400 div 36524); r100 = r400 - n100 * 36524;
          n4 = r100 div 1461; r4 = r100 mod 1461;
          n1 = min 3 (r4 div 365); yday = r4 - n1 * 365;
          y = 400 * n400 + 100 * n100 + 4 * n4 + n1 + 1;
          (m, d) = month_day 1 [31, if leap_year y then 29 else 28, 31, 30, 31, 30, 31, 31, 30, 31, 30, 31] yday
      in (y, m, d))"

definition pad_nat :: "nat \<Rightarrow> int \<Rightarrow> string" where
  "pad_nat w i = (let t = nat_string (nat i) in replicate (w - length t) CHR ''0'' @ t)"

definition FormatRFC3339 :: "time \<Rightarrow> string" where
  "FormatRFC3339 t =
     (let secs = t div nanos_per_second; (y, m, d) = civil_date (secs div 86400); s = secs mod 86400 in
      pad_nat 4 y @ ''-'' @ pad_nat 2 m @ ''-'' @ pad_nat 2 d @ ''T'' @
      pad_nat 2 (s div 3600) @ '':'' @ pad_nat 2 (s mod 3600 div 60) @ '':'' @ pad_nat 2 (s mod 60) @ ''Z'')"

definition truncSecond :: "time \<Rightarrow> time" where
  "truncSecond t = t div nanos_per_second * nanos_per_second"

text \<open>A \<open>uuid.UUID\<close> is an array of 16 bytes; \<open>uuid.Nil\<close> is the all-zero value.\<close>

type_synonym uuid = "128 word"

definition uuid_Nil :: uuid where
  "uuid_Nil = 0"

text \<open>
  Error values. \<open>Errorf\<close> is \<open>fmt.Errorf\<close> with its format and arguments, \<open>Wrapf\<close> the form with a
  \<open>%w\<close> verb; the sentinels the packages compare against with \<open>errors.Is\<close> carry their name;
  \<open>DLQErr\<close> is \<open>*kafka.DLQError\<close>; \<open>StatusErr\<close> is a gRPC status. \<open>DBErr\<close> stands for any failure of
  the database driver that is neither \<open>pgx.ErrNoRows\<close> nor a unique violation.
\<close>

datatype grpc_code = InvalidArgument | NotFound | FailedPrecondition | Internal | Unavailable
  | DeadlineExceeded | OtherCode string

datatype go_arg = AStr string | AUuid uuid | AInt int

datatype go_error =
    Errorf string "go_arg list"
  | Wrapf string go_error
  | Sentinel string
  | NoRows
  | UniqueViolation
  | DBErr
  | CtxDeadline
  | StatusErr grpc_code string
  | DLQErr string go_error

text \<open>\<open>errors.Is\<close> walks the chain of wrapped errors.\<close>

fun errors_Is :: "go_error \<Rightarrow> go_error \<Rightarrow> bool" where
  "errors_Is (Wrapf m e) t \<longleftrightarrow> Wrapf m e = t \<or> errors_Is e t"
| "errors_Is (DLQErr r e) t \<longleftrightarrow> DLQErr r e = t \<or> errors_Is e t"
| "errors_Is e t \<longleftrightarrow> e = t"

text \<open>\<open>errors.As\<close> for a \<open>*DLQError\<close> target: the first one on the chain.\<close>

fun errors_As_DLQ :: "go_error \<Rightarrow> go_error option" where
  "errors_As_DLQ (DLQErr r e) = Some (DLQErr r e)"
| "errors_As_DLQ (Wrapf m e) = errors_As_DLQ e"
| "errors_As_DLQ e = None"

section \<open>Go maps\<close>

text \<open>
  A Go map is an association list with distinct keys, read with \<open>map_of\<close>, written with
  \<open>AList.update\<close> and \<open>AList.delete\<close>. Iteration visits the entries in list order; Go leaves the
  order open, and no property below depends on it.
\<close>

declare map_of_eq_Some_iff [simp del]

lemma map_of_update [simp, go_map]: "map_of (AList.update k v m) = (map_of m)(k \<mapsto> v)"
  by (simp add: update_conv')

lemma map_of_delete [simp, go_map]: "map_of (AList.delete k m) = (map_of m)(k := None)"
  by (simp add: delete_conv')

lemma keys_update [go_map]: "fst ` set (AList.update k v m) = insert k (fst ` set m)"
  by (simp add: dom_update)

lemma keys_delete [go_map]: "fst ` set (AList.delete k m) = fst ` set m - {k}"
  by (auto simp: AList.delete_eq)

lemma map_of_eq_None_keys [go_map]: "map_of m k = None \<longleftrightarrow> k \<notin> fst ` set m"
  by (rule map_of_eq_None_iff)

lemma distinct_keys_update [simp, go_map]:
  "distinct (map fst m) \<Longrightarrow> distinct (map fst (AList.update k v m))"
  by (rule distinct_update)

lemma distinct_keys_delete [simp, go_map]:
  "distinct (map fst m) \<Longrightarrow> distinct (map fst (AList.delete k m))"
  by (rule distinct_delete)

section \<open>Base64\<close>

text \<open>\<open>base64.StdEncoding.EncodeToString\<close>.\<close>

definition base64_digit :: "nat \<Rightarrow> char" where
  "base64_digit n =
     (if n < 26 then char_of (65 + n) else if n < 52 then char_of (71 + n)
      else if n < 62 then char_of (n - 4) else if n = 62 then CHR ''+'' else CHR ''/'')"

fun EncodeToString :: "string \<Rightarrow> string" where
  "EncodeToString [] = []"
| "EncodeToString [a] =
     (let x = (of_char a :: nat) in [base64_digit (x div 4), base64_digit (x mod 4 * 16), CHR ''='', CHR ''=''])"
| "EncodeToString [a, b] =
     (let x = (of_char a :: nat); y = (of_char b :: nat) in
      [base64_digit (x div 4), base64_digit (x mod 4 * 16 + y div 16), base64_digit (y mod 16 * 4), CHR ''=''])"
| "EncodeToString (a # b # c # rest) =
     (let x = (of_char a :: nat); y = (of_char b :: nat); z = (of_char c :: nat) in
      [base64_digit (x div 4), base64_digit (x mod 4 * 16 + y div 16),
       base64_digit (y mod 16 * 4 + z div 64), base64_digit (z mod 64)] @ EncodeToString rest)"

section \<open>Decimals as text\<close>

text \<open>
  What the services use of \<^verbatim>\<open>shopspring/decimal\<close> beyond exact arithmetic: parsing, printing and the
  rounding division. The package is not part of the repository, so these are parameters.
\<close>

definition decimal_error :: go_error where
  "decimal_error = Sentinel ''decimal: cannot convert string''"

record 'd decimal_ops =
  NewFromString :: "string \<Rightarrow> 'd option"
  DecString :: "'d \<Rightarrow> string"
  DecDiv :: "'d \<Rightarrow> 'd \<Rightarrow> 'd"

text \<open>
  Decimals with no fractional digits, as an instance: their text can be parsed back, so different
  numbers have different texts.
\<close>

definition digit_val :: "char \<Rightarrow> nat option" where
  "digit_val c = (let n = (of_char c :: nat) in if 48 \<le> n \<and> n \<le> 57 then Some (n - 48) else None)"

fun parse_digits :: "nat \<Rightarrow> string \<Rightarrow> nat option" where
  "parse_digits acc [] = Some acc"
| "parse_digits acc (c # cs) = (case digit_val c of None \<Rightarrow> None | Some d \<Rightarrow> parse_digits (10 * acc + d) cs)"

definition int_string :: "int \<Rightarrow> string" where
  "int_string i = (if i < 0 then CHR ''-'' # nat_string (nat (- i)) else nat_string (nat i))"

definition parse_int :: "string \<Rightarrow> int option" where
  "parse_int s = (case s of [] \<Rightarrow> None
     | c # cs \<Rightarrow> if c = CHR ''-'' then if cs = [] then None else map_option (\<lambda>n. - int n) (parse_digits 0 cs)
                else map_option int (parse_digits 0 s))"

definition int_decimal :: "int decimal_ops" where
  "int_decimal = \<lparr>NewFromString = parse_int, DecString = int_string, DecDiv = (\<lambda>a b. a div b)\<rparr>"

lemma digit_val_digit_char [simp]: "n < 10 \<Longrightarrow> digit_val (digit_char n) = Some n"
  by (simp add: digit_val_def digit_char_def Let_def)

lemma parse_digits_append:
  "parse_digits acc (xs @ ys) = (case parse_digits acc xs of None \<Rightarrow> None | Some n \<Rightarrow> parse_digits n ys)"
  by (induction xs arbitrary: acc) (auto split: option.splits)

lemma parse_digits_nat_string: "parse_digits 0 (nat_string n) = Some n"
proof (induction n rule: nat_string.induct)
  case (1 n)
  then show ?case
    by (cases "n < 10") (simp_all add: nat_string.simps [of n] parse_digits_append)
qed

lemma parse_int_string: "parse_int (int_string i) = Some i"
proof (cases "i < 0")
  case True then show ?thesis by (simp add: parse_int_def int_string_def parse_digits_nat_string)
next
  case False
  obtain c cs where c: "nat_string (nat i) = c # cs" by (cases "nat_string (nat i)") auto
  have "parse_digits 0 (c # cs) = Some (nat i)" using parse_digits_nat_string [of "nat i"] c by simp
  moreover from this have "digit_val c \<noteq> None" by (auto split: option.splits)
  then have "c \<noteq> CHR ''-''" by (auto simp: digit_val_def)
  ultimately show ?thesis using False c by (simp add: parse_int_def int_string_def)
qed

lemma inj_int_string [simp]: "inj int_string"
  by (rule inj_on_inverseI [where g = "\<lambda>s. the (parse_int s)"]) (simp add: parse_int_string)

lemma int_decimal_simps [simp]:
  "NewFromString int_decimal = parse_int" "DecString int_decimal = int_string"
  by (simp_all add: int_decimal_def)

end
