(* ===== verification/Go_Heap.thy ===== *)
theory Go_Heap
  imports Go_Prelude
begin

text \<open>
  The binary heap of Go's \<open>container/heap\<close>, written over the operations of \<open>heap.Interface\<close>, and
  the contract of that interface as a locale: whoever supplies \<open>Len\<close>, \<open>Less\<close>, \<open>Swap\<close>, \<open>Push\<close> and
  \<open>Pop\<close> on an array ordered by a total preorder gets a heap whose first element is the best one,
  kept by \<open>heap.Push\<close> and \<open>heap.Remove\<close>.
\<close>

section \<open>The library's loops\<close>

text \<open>\<open>up(h, j)\<close>: \<open>(0 - 1) / 2\<close> is 0 in Go as in \<open>nat\<close>, so the root is its own parent.\<close>

function heap_up :: "('s \<Rightarrow> nat \<Rightarrow> nat \<Rightarrow> bool) \<Rightarrow> ('s \<Rightarrow> nat \<Rightarrow> nat \<Rightarrow> 's) \<Rightarrow> 's \<Rightarrow> nat \<Rightarrow> 's" where
  "heap_up lt swp s j =
     (let i = (j - 1) div 2 in
      if i = j \<or> \<not> lt s j i then s else heap_up lt swp (swp s i j) i)"
  by pat_completeness auto
termination
  by (relation "measure (\<lambda>(lt, swp, s, j). j)") auto

text \<open>\<open>down(h, i0, n)\<close>, with the final index: Go returns whether it moved past \<open>i0\<close>.\<close>

function heap_down ::
  "('s \<Rightarrow> nat \<Rightarrow> nat \<Rightarrow> bool) \<Rightarrow> ('s \<Rightarrow> nat \<Rightarrow> nat \<Rightarrow> 's) \<Rightarrow> 's \<Rightarrow> nat \<Rightarrow> nat \<Rightarrow> 's \<times> nat" where
  "heap_down lt swp s i n =
     (let j1 = 2 * i + 1 in
      if n \<le> j1 then (s, i)
      else let j = (if j1 + 1 < n \<and> lt s (j1 + 1) j1 then j1 + 1 else j1) in
        if \<not> lt s j i then (s, i)
        else heap_down lt swp (swp s i j) j n)"
  by pat_completeness auto
termination
  by (relation "measure (\<lambda>(lt, swp, s, i, n). n - i)") (auto simp: Let_def split: if_splits)

declare heap_up.simps [simp del] heap_down.simps [simp del]

definition heap_Push ::
  "('s \<Rightarrow> nat) \<Rightarrow> ('s \<Rightarrow> nat \<Rightarrow> nat \<Rightarrow> bool) \<Rightarrow> ('s \<Rightarrow> nat \<Rightarrow> nat \<Rightarrow> 's) \<Rightarrow> ('s \<Rightarrow> 'x \<Rightarrow> 's) \<Rightarrow> 's \<Rightarrow> 'x \<Rightarrow> 's" where
  "heap_Push len lt swp push s x = (let s1 = push s x in heap_up lt swp s1 (len s1 - 1))"

definition heap_Remove ::
  "('s \<Rightarrow> nat) \<Rightarrow> ('s \<Rightarrow> nat \<Rightarrow> nat \<Rightarrow> bool) \<Rightarrow> ('s \<Rightarrow> nat \<Rightarrow> nat \<Rightarrow> 's) \<Rightarrow> ('s \<Rightarrow> 's) \<Rightarrow> 's \<Rightarrow> nat \<Rightarrow> 's" where
  "heap_Remove len lt swp pop s i =
     (let n = len s - 1;
          s1 = (if n \<noteq> i
                then (case heap_down lt swp (swp s i n) i n of
                        (s2, i2) \<Rightarrow> if i < i2 then s2 else heap_up lt swp s2 i)
                else s)
      in pop s1)"

text \<open>Whatever every \<open>Swap\<close> keeps, the loops keep.\<close>

lemma heap_up_keeps:
  assumes "\<And>s i j. P s \<Longrightarrow> P (swp s i j)" and "P s"
  shows "P (heap_up lt swp s j)"
  using assms(2)
proof (induction j arbitrary: s rule: less_induct)
  case (less j)
  have "P (heap_up lt swp (swp s ((j - 1) div 2) j) ((j - 1) div 2))" if "(j - 1) div 2 \<noteq> j"
    using less that by (simp add: assms(1))
  with less.prems show ?case by (subst heap_up.simps) (simp add: Let_def)
qed

lemma heap_down_keeps:
  assumes "\<And>s i j. P s \<Longrightarrow> P (swp s i j)" and "P s"
  shows "P (fst (heap_down lt swp s i n))"
  using assms(2)
proof (induction "n - i" arbitrary: s i rule: less_induct)
  case less
  have "P (fst (heap_down lt swp (swp s i j) j n))" if "i < j" "\<not> n \<le> 2 * i + 1" for j
    using less that by (simp add: assms(1))
  with less.prems show ?case by (subst heap_down.simps) (simp add: Let_def)
qed

section \<open>The contract of heap.Interface\<close>

definition parent :: "nat \<Rightarrow> nat" where
  "parent k = (k - 1) div 2"

definition swap_list :: "'a list \<Rightarrow> nat \<Rightarrow> nat \<Rightarrow> 'a list" where
  "swap_list a i j = a[i := a ! j, j := a ! i]"

lemma length_swap_list [simp]: "length (swap_list a i j) = length a"
  by (simp add: swap_list_def)

lemma nth_swap_list:
  "i < length a \<Longrightarrow> j < length a \<Longrightarrow>
   swap_list a i j ! k = (if k = j then a ! i else if k = i then a ! j else a ! k)"
  by (auto simp: swap_list_def nth_list_update)

lemma mset_swap_list: "i < length a \<Longrightarrow> j < length a \<Longrightarrow> mset (swap_list a i j) = mset a"
  by (simp add: swap_list_def mset_swap)

lemma parent_less: "0 < k \<Longrightarrow> parent k < k"
  unfolding parent_def by arith

lemma parent_eq_iff: "0 < k \<Longrightarrow> parent k = i \<longleftrightarrow> k = 2 * i + 1 \<or> k = 2 * i + 2"
  unfolding parent_def by arith

locale heap_interface =
  fixes Len :: "'s \<Rightarrow> nat"
    and Less :: "'s \<Rightarrow> nat \<Rightarrow> nat \<Rightarrow> bool"
    and Swap :: "'s \<Rightarrow> nat \<Rightarrow> nat \<Rightarrow> 's"
    and Push :: "'s \<Rightarrow> 'x \<Rightarrow> 's"
    and Pop :: "'s \<Rightarrow> 's"
    and arr :: "'s \<Rightarrow> 'a list"
    and le :: "'a \<Rightarrow> 'a \<Rightarrow> bool"
    and valid :: "'s \<Rightarrow> bool"
    and can_push :: "'s \<Rightarrow> 'x \<Rightarrow> 'a \<Rightarrow> bool"
  assumes Len_arr: "valid s \<Longrightarrow> Len s = length (arr s)"
    and Less_arr: "valid s \<Longrightarrow> i < length (arr s) \<Longrightarrow> j < length (arr s) \<Longrightarrow>
          Less s i j \<longleftrightarrow> \<not> le (arr s ! j) (arr s ! i)"
    and arr_Swap: "valid s \<Longrightarrow> i < length (arr s) \<Longrightarrow> j < length (arr s) \<Longrightarrow>
          arr (Swap s i j) = swap_list (arr s) i j"
    and valid_Swap: "valid s \<Longrightarrow> i < length (arr s) \<Longrightarrow> j < length (arr s) \<Longrightarrow> valid (Swap s i j)"
    and arr_Push: "valid s \<Longrightarrow> can_push s x v \<Longrightarrow> arr (Push s x) = arr s @ [v]"
    and valid_Push: "valid s \<Longrightarrow> can_push s x v \<Longrightarrow> valid (Push s x)"
    and arr_Pop: "valid s \<Longrightarrow> arr s \<noteq> [] \<Longrightarrow> arr (Pop s) = butlast (arr s)"
    and valid_Pop: "valid s \<Longrightarrow> arr s \<noteq> [] \<Longrightarrow> valid (Pop s)"
    and le_total: "le u v \<or> le v u"
    and le_trans: "le u v \<Longrightarrow> le v w \<Longrightarrow> le u w"
begin

definition edge :: "'a list \<Rightarrow> nat \<Rightarrow> bool" where
  "edge a k \<longleftrightarrow> le (a ! parent k) (a ! k)"

definition heap_upto :: "'a list \<Rightarrow> nat \<Rightarrow> bool" where
  "heap_upto a n \<longleftrightarrow> (\<forall>k. 0 < k \<and> k < n \<longrightarrow> edge a k)"

text \<open>Heap order but for the element at \<open>j\<close>, which may be too good for its place ...\<close>

definition up_ok :: "'a list \<Rightarrow> nat \<Rightarrow> nat \<Rightarrow> bool" where
  "up_ok a j n \<longleftrightarrow> (\<forall>k. 0 < k \<and> k < n \<and> k \<noteq> j \<longrightarrow> edge a k)
     \<and> (0 < j \<longrightarrow> (\<forall>k. 0 < k \<and> k < n \<and> parent k = j \<longrightarrow> le (a ! parent j) (a ! k)))"

text \<open>... or anything at all.\<close>

definition down_ok :: "'a list \<Rightarrow> nat \<Rightarrow> nat \<Rightarrow> bool" where
  "down_ok a i n \<longleftrightarrow> (\<forall>k. 0 < k \<and> k < n \<and> k \<noteq> i \<and> parent k \<noteq> i \<longrightarrow> edge a k)
     \<and> (0 < i \<longrightarrow> (\<forall>k. 0 < k \<and> k < n \<and> parent k = i \<longrightarrow> le (a ! parent i) (a ! k)))"

lemma le_refl: "le u u"
  using le_total by blast

lemma not_le_imp: "\<not> le u v \<Longrightarrow> le v u"
  using le_total by blast

lemma heap_root_le: "heap_upto a n \<Longrightarrow> k < n \<Longrightarrow> le (a ! 0) (a ! k)"
proof (induction k rule: less_induct)
  case (less k)
  show ?case
  proof (cases "k = 0")
    case True
    then show ?thesis by (simp add: le_refl)
  next
    case False
    then have p: "parent k < k" by (simp add: parent_less)
    with less have "le (a ! 0) (a ! parent k)" by simp
    moreover have "le (a ! parent k) (a ! k)"
      using less.prems False by (simp add: heap_upto_def edge_def)
    ultimately show ?thesis by (rule le_trans)
  qed
qed

lemma up_ok_step:
  assumes ok: "up_ok a j n" and j: "0 < j" "j < n" "n \<le> length a"
    and bad: "\<not> le (a ! parent j) (a ! j)"
  shows "up_ok (swap_list a (parent j) j) (parent j) n"
proof -
  let ?i = "parent j" and ?b = "swap_list a (parent j) j"
  have i: "?i < j" using j by (simp add: parent_less)
  have nth: "?b ! k = (if k = j then a ! ?i else if k = ?i then a ! j else a ! k)" for k
    using i j by (simp add: nth_swap_list)
  have ji: "le (a ! j) (a ! ?i)" using bad by (rule not_le_imp)
  have edges: "edge ?b k" if k: "0 < k" "k < n" "k \<noteq> ?i" for k
  proof (cases "k = j")
    case True
    with i ji show ?thesis by (simp add: edge_def nth)
  next
    case False
    with ok k have e: "le (a ! parent k) (a ! k)" by (simp add: up_ok_def edge_def)
    show ?thesis
    proof (cases "parent k = j")
      case True
      with ok j k have "le (a ! ?i) (a ! k)" by (simp add: up_ok_def)
      with False True k show ?thesis by (simp add: edge_def nth)
    next
      case pj: False
      from e ji have "parent k = ?i \<Longrightarrow> le (a ! j) (a ! k)" by (metis le_trans)
      with False pj k e show ?thesis by (simp add: edge_def nth)
    qed
  qed
  moreover have "le (?b ! parent ?i) (?b ! k)"
    if k: "0 < k" "k < n" "parent k = ?i" "0 < ?i" for k
  proof -
    have p: "parent ?i < ?i" using k by (simp add: parent_less)
    have up: "le (a ! parent ?i) (a ! ?i)" using ok i j k by (simp add: up_ok_def edge_def)
    have ne: "k \<noteq> ?i" using k parent_less [of k] by auto
    show ?thesis
    proof (cases "k = j")
      case True
      with up p i show ?thesis by (simp add: nth)
    next
      case False
      with ok k(1,2) have "le (a ! parent k) (a ! k)" by (simp add: up_ok_def edge_def)
      with up k(3) have "le (a ! parent ?i) (a ! k)" using le_trans by metis
      with False ne p i show ?thesis by (simp add: nth)
    qed
  qed
  ultimately show ?thesis by (simp add: up_ok_def)
qed

lemma heap_up_correct:
  assumes "valid s" "up_ok (arr s) j n" "j < n" "n \<le> length (arr s)"
  shows "valid (heap_up Less Swap s j) \<and> heap_upto (arr (heap_up Less Swap s j)) n
       \<and> mset (arr (heap_up Less Swap s j)) = mset (arr s)
       \<and> (\<forall>k \<ge> n. arr (heap_up Less Swap s j) ! k = arr s ! k)"
  using assms
proof (induction j arbitrary: s rule: less_induct)
  case (less j)
  let ?i = "parent j"
  show ?case
  proof (cases "?i = j \<or> \<not> Less s j ?i")
    case True
    then have "heap_up Less Swap s j = s"
      by (subst heap_up.simps) (simp add: parent_def Let_def)
    moreover have "heap_upto (arr s) n"
    proof (cases "j = 0")
      case True
      with less.prems show ?thesis by (simp add: up_ok_def heap_upto_def)
    next
      case False
      with True have "\<not> Less s j ?i" using parent_less [of j] by auto
      with False less.prems have "edge (arr s) j"
        using parent_less [of j] by (simp add: Less_arr edge_def)
      with less.prems show ?thesis by (auto simp: up_ok_def heap_upto_def)
    qed
    ultimately show ?thesis using less.prems by simp
  next
    case False
    then have j: "0 < j" by (cases j) (auto simp: parent_def)
    then have i: "?i < j" by (rule parent_less)
    let ?s = "Swap s ?i j"
    have eq: "heap_up Less Swap s j = heap_up Less Swap ?s ?i"
      using False by (subst heap_up.simps) (simp add: parent_def Let_def)
    have "\<not> le (arr s ! ?i) (arr s ! j)"
      using False less.prems i by (simp add: Less_arr)
    with less.prems j have "up_ok (swap_list (arr s) ?i j) ?i n" by (intro up_ok_step) auto
    with less.prems i have ok: "valid ?s" "up_ok (arr ?s) ?i n" "n \<le> length (arr ?s)"
      and ar: "arr ?s = swap_list (arr s) ?i j"
      by (auto simp: arr_Swap valid_Swap)
    from less.IH [OF i ok(1,2) _ ok(3)] less.prems i
    show ?thesis by (auto simp: eq ar mset_swap_list nth_swap_list)
  qed
qed

lemma down_ok_step:
  assumes ok: "down_ok a i n" and j: "parent j = i" "0 < j" "j < n" "n \<le> length a"
    and best: "\<And>k. 0 < k \<Longrightarrow> k < n \<Longrightarrow> parent k = i \<Longrightarrow> le (a ! j) (a ! k)"
  shows "down_ok (swap_list a i j) j n"
proof -
  let ?b = "swap_list a i j"
  have i: "i < j" using j parent_less by blast
  have nth: "?b ! k = (if k = j then a ! i else if k = i then a ! j else a ! k)" for k
    using i j by (simp add: nth_swap_list)
  have "edge ?b k" if k: "0 < k" "k < n" "k \<noteq> j" "parent k \<noteq> j" for k
  proof (cases "k = i")
    case True
    with ok j k have "le (a ! parent i) (a ! j)" by (auto simp: down_ok_def)
    with True k i show ?thesis using parent_less [of i] by (simp add: edge_def nth)
  next
    case ki: False
    show ?thesis
    proof (cases "parent k = i")
      case True
      with best k ki i show ?thesis by (simp add: edge_def nth)
    next
      case False
      with ok k ki have "le (a ! parent k) (a ! k)" by (simp add: down_ok_def edge_def)
      with False ki k show ?thesis by (simp add: edge_def nth)
    qed
  qed
  moreover have "le (?b ! parent j) (?b ! k)" if k: "0 < k" "k < n" "parent k = j" for k
  proof -
    have "j < k" using k parent_less by blast
    moreover from this k ok i have "le (a ! j) (a ! k)" by (auto simp: down_ok_def edge_def)
    ultimately show ?thesis using i j by (simp add: nth)
  qed
  ultimately show ?thesis by (simp add: down_ok_def)
qed

text \<open>What a call of \<open>down\<close> leaves: it did not move and only the edge above \<open>i\<close> is open, or it is a heap.\<close>

definition down_post :: "'s \<Rightarrow> nat \<Rightarrow> nat \<Rightarrow> 's \<times> nat \<Rightarrow> bool" where
  "down_post s i n r \<longleftrightarrow> valid (fst r) \<and> mset (arr (fst r)) = mset (arr s) \<and> i \<le> snd r
     \<and> (\<forall>k \<ge> n. arr (fst r) ! k = arr s ! k)
     \<and> (snd r = i \<longrightarrow> fst r = s \<and> (\<forall>k. 0 < k \<and> k < n \<and> k \<noteq> i \<longrightarrow> edge (arr s) k))
     \<and> (snd r \<noteq> i \<longrightarrow> heap_upto (arr (fst r)) n)"

lemma down_stop:
  assumes "valid s" "down_ok (arr s) i n"
    and "\<And>k. 0 < k \<Longrightarrow> k < n \<Longrightarrow> parent k = i \<Longrightarrow> le (arr s ! i) (arr s ! k)"
  shows "down_post s i n (s, i)"
proof -
  have "edge (arr s) k" if "0 < k" "k < n" "k \<noteq> i" for k
    using that assms(2,3) by (cases "parent k = i") (auto simp: down_ok_def edge_def)
  then show ?thesis using assms(1) by (simp add: down_post_def)
qed

lemma down_move:
  assumes v: "valid s" and i: "i < n" "n \<le> length (arr s)"
    and j: "parent j = i" "0 < j" "j < n" and lt: "le (arr s ! j) (arr s ! i)"
    and post: "down_post (Swap s i j) j n r"
  shows "down_post s i n r"
proof -
  have ij: "i < j" using j parent_less by blast
  have ar: "arr (Swap s i j) = swap_list (arr s) i j" using v i j by (simp add: arr_Swap)
  have nth: "arr (Swap s i j) ! k = (if k = j then arr s ! i else if k = i then arr s ! j else arr s ! k)" for k
    using i j by (simp add: ar nth_swap_list)
  have "heap_upto (arr (fst r)) n"
  proof (cases "snd r = j")
    case True
    with post have r: "fst r = Swap s i j" "\<forall>k. 0 < k \<and> k < n \<and> k \<noteq> j \<longrightarrow> edge (arr (Swap s i j)) k"
      by (auto simp: down_post_def)
    moreover have "edge (arr (Swap s i j)) j" using lt ij j by (simp add: edge_def nth)
    ultimately show ?thesis unfolding heap_upto_def by metis
  next
    case False
    with post show ?thesis by (simp add: down_post_def)
  qed
  moreover have "mset (arr (Swap s i j)) = mset (arr s)"
    using ij i j by (simp add: ar mset_swap_list)
  moreover have "\<forall>k \<ge> n. arr (Swap s i j) ! k = arr s ! k"
    using ij j by (simp add: nth)
  ultimately show ?thesis using post ij by (simp add: down_post_def)
qed

lemma heap_down_correct:
  assumes "valid s" "down_ok (arr s) i n" "i < n" "n \<le> length (arr s)"
  shows "down_post s i n (heap_down Less Swap s i n)"
  using assms
proof (induction "n - i" arbitrary: s i rule: less_induct)
  case less
  note v = less.prems(1) and ok = less.prems(2) and i = less.prems(3,4)
  define j where "j = (if 2 * i + 1 + 1 < n \<and> Less s (2 * i + 1 + 1) (2 * i + 1) then 2 * i + 1 + 1 else 2 * i + 1)"
  note unfold = heap_down.simps [of Less Swap s i n] Let_def j_def [symmetric] if_True if_False
  show ?case
  proof (cases "n \<le> 2 * i + 1")
    case True
    then have "heap_down Less Swap s i n = (s, i)" by (simp only: unfold)
    moreover have False if "0 < k" "k < n" "parent k = i" for k
      using True that parent_eq_iff [of k i] by linarith
    ultimately show ?thesis using down_stop [OF v ok] by metis
  next
    case False
    then have j: "parent j = i" "0 < j" "j < n" by (auto simp: parent_def j_def)
    have best: "le (arr s ! j) (arr s ! k)" if "0 < k" "k < n" "parent k = i" for k
    proof -
      from that have "k = 2 * i + 1 \<or> k = 2 * i + 2" by (simp add: parent_eq_iff)
      then show ?thesis using that v i le_refl not_le_imp by (auto simp: j_def Less_arr)
    qed
    show ?thesis
    proof (cases "Less s j i")
      case True
      have eq: "heap_down Less Swap s i n = heap_down Less Swap (Swap s i j) j n"
        using False True by (simp only: unfold not_True_eq_False)
      have "down_ok (swap_list (arr s) i j) j n" using ok j i best by (intro down_ok_step) auto
      then have "down_post (Swap s i j) j n (heap_down Less Swap (Swap s i j) j n)"
        using v i j parent_less [of j] by (intro less.hyps) (auto simp: arr_Swap valid_Swap)
      moreover have "le (arr s ! j) (arr s ! i)"
        using True v i j not_le_imp by (auto simp: Less_arr)
      ultimately show ?thesis unfolding eq using down_move [OF v i j] by blast
    next
      case stop: False
      have eq: "heap_down Less Swap s i n = (s, i)"
        using False stop by (simp only: unfold not_False_eq_True)
      have "le (arr s ! i) (arr s ! j)" using stop v i j by (simp add: Less_arr)
      then have "le (arr s ! i) (arr s ! k)" if "0 < k" "k < n" "parent k = i" for k
        using best [OF that] by (rule le_trans)
      then show ?thesis unfolding eq by (intro down_stop [OF v ok])
    qed
  qed
qed

text \<open>\<open>heap.Push\<close> adds its element and keeps the order.\<close>

lemma up_ok_append:
  assumes h: "heap_upto a (length a)"
  shows "up_ok (a @ [w]) (length a) (Suc (length a))"
proof -
  have "edge (a @ [w]) k" if "0 < k" "k < length a" for k
    using h that parent_less [of k] by (simp add: heap_upto_def edge_def nth_append)
  moreover have "parent k \<noteq> length a" if "0 < k" "k < Suc (length a)" for k
    using parent_less [of k] that by simp
  ultimately show ?thesis unfolding up_ok_def by (metis less_SucE)
qed

lemma heap_Push_correct:
  assumes v: "valid s" and h: "heap_upto (arr s) (length (arr s))" and p: "can_push s x w"
  defines "s' \<equiv> heap_Push Len Less Swap Push s x"
  shows "valid s'" and "heap_upto (arr s') (length (arr s'))" and "mset (arr s') = add_mset w (mset (arr s))"
proof -
  let ?s = "Push s x"
  have ar: "arr ?s = arr s @ [w]" and vp: "valid ?s" using v p by (auto simp: arr_Push valid_Push)
  have "up_ok (arr ?s) (length (arr s)) (Suc (length (arr s)))" by (simp add: ar up_ok_append h)
  note * = heap_up_correct [OF vp this]
  have eq: "s' = heap_up Less Swap ?s (length (arr s))"
    using vp by (simp add: s'_def heap_Push_def Let_def Len_arr ar)
  from * ar show "valid s'" and m: "mset (arr s') = add_mset w (mset (arr s))" by (simp_all add: eq)
  from m have "length (arr s') = Suc (length (arr s))" by (metis size_mset size_add_mset)
  with * ar show "heap_upto (arr s') (length (arr s'))" by (simp add: eq)
qed

text \<open>\<open>heap.Remove\<close> takes out the element at the given position and keeps the order.\<close>

lemma down_ok_swap_last:
  assumes h: "heap_upto a (Suc n)" and i: "i < n" "length a = Suc n"
  shows "down_ok (swap_list a i n) i n"
proof -
  have nth: "swap_list a i n ! k = (if k = i then a ! n else a ! k)" if "k < n" for k
    using that i by (simp add: nth_swap_list)
  have e: "le (a ! parent k) (a ! k)" if "0 < k" "k < Suc n" for k
    using h that by (simp add: heap_upto_def edge_def)
  have "edge (swap_list a i n) k" if k: "0 < k" "k < n" "k \<noteq> i" "parent k \<noteq> i" for k
    using e [of k] k parent_less [of k] by (simp add: edge_def nth)
  moreover have "le (swap_list a i n ! parent i) (swap_list a i n ! k)"
    if k: "0 < k" "k < n" "parent k = i" "0 < i" for k
  proof -
    have "le (a ! parent i) (a ! i)" "le (a ! i) (a ! k)" using e [of i] e [of k] k i by auto
    then have "le (a ! parent i) (a ! k)" by (rule le_trans)
    then show ?thesis using k i parent_less [of i] parent_less [of k] by (simp add: nth)
  qed
  ultimately show ?thesis by (simp add: down_ok_def)
qed

lemma heap_fix_correct:
  assumes v: "valid s" and h: "heap_upto (arr s) (Suc n)" and i: "i < n" "length (arr s) = Suc n"
  defines "s1 \<equiv> (case heap_down Less Swap (Swap s i n) i n of
                    (s2, i2) \<Rightarrow> if i < i2 then s2 else heap_up Less Swap s2 i)"
  shows "valid s1" and "heap_upto (arr s1) n" and "mset (arr s1) = mset (arr s)" and "arr s1 ! n = arr s ! i"
proof -
  let ?s = "Swap s i n"
  obtain s2 i2 where d: "heap_down Less Swap ?s i n = (s2, i2)" by fastforce
  have sw: "valid ?s" "arr ?s = swap_list (arr s) i n" using v i by (auto simp: valid_Swap arr_Swap)
  have ok: "down_ok (arr ?s) i n" using h i by (simp add: sw down_ok_swap_last)
  have len: "length (arr ?s) = Suc n" using i by (simp add: sw)
  have post: "down_post ?s i n (s2, i2)"
    using heap_down_correct [OF sw(1) ok i(1)] len by (simp add: d)
  have m: "mset (arr ?s) = mset (arr s)" and l: "arr ?s ! n = arr s ! i"
    using i by (simp_all add: sw mset_swap_list nth_swap_list)
  have up: "up_ok (arr ?s) i n" if "i2 = i"
    using post ok that by (simp add: down_post_def down_ok_def up_ok_def)
  show "valid s1" and "heap_upto (arr s1) n" and "mset (arr s1) = mset (arr s)" and "arr s1 ! n = arr s ! i"
    using post heap_up_correct [OF sw(1) up i(1)] len m l
    by (cases "i2 = i"; simp add: s1_def d down_post_def)+
qed

lemma heap_Remove_correct:
  assumes v: "valid s" and h: "heap_upto (arr s) (length (arr s))" and i: "i < length (arr s)"
  defines "s' \<equiv> heap_Remove Len Less Swap Pop s i"
  shows "valid s'" and "heap_upto (arr s') (length (arr s'))" and "mset (arr s') = mset (arr s) - {#arr s ! i#}"
proof -
  obtain n where n: "length (arr s) = Suc n" using i by (cases "length (arr s)") auto
  define s1 where "s1 = (if n \<noteq> i then (case heap_down Less Swap (Swap s i n) i n of
      (s2, i2) \<Rightarrow> if i < i2 then s2 else heap_up Less Swap s2 i) else s)"
  have s': "s' = Pop s1" using v n by (simp add: s'_def s1_def heap_Remove_def Len_arr Let_def)
  have s1: "valid s1" "heap_upto (arr s1) n" "mset (arr s1) = mset (arr s)" "arr s1 ! n = arr s ! i"
    using heap_fix_correct [OF v, of n i] h n i v
    by (auto simp: s1_def heap_upto_def less_Suc_eq)
  then have len: "length (arr s1) = Suc n" using n by (metis size_mset)
  then have "arr s1 \<noteq> []" by auto
  with s1 have pop: "arr s' = butlast (arr s1)" "valid s'" by (auto simp: s' arr_Pop valid_Pop)
  then show "valid s'" by simp
  have "arr s1 = arr s' @ [arr s ! i]"
    using pop s1(4) len by (metis append_butlast_last_id diff_Suc_1 last_conv_nth length_0_conv nat.simps(3))
  then have "mset (arr s) = add_mset (arr s ! i) (mset (arr s'))" using s1(3) by simp
  then show "mset (arr s') = mset (arr s) - {#arr s ! i#}" by simp
  have "edge (arr s') k" if "0 < k" "k < n" for k
    using s1(2) that pop len parent_less [of k] by (simp add: heap_upto_def edge_def nth_butlast)
  then show "heap_upto (arr s') (length (arr s'))" using pop len by (simp add: heap_upto_def)
qed

end

end
