(* ===== verification/Order_Book.thy ===== *)
theory Order_Book
  imports Go_Heap
begin

text \<open>
  The order book of \<^verbatim>\<open>services/matching/internal/engine/orderbook.go\<close>: orders, price levels, the
  two book sides with their price heaps, and the index of resting orders. An order object lives in
  the queue of its price level; the pointers of the Go structs (the heap's levels, an
  \<open>orderRef\<close>'s level and list element) are the level's key and the order's ID. The theory proves
  that \<open>add\<close> and \<open>remove\<close> keep the book consistent, what they do to the queues, and that the heap's
  first level is the best price.
\<close>

section \<open>Data\<close>

abbreviation "SideBuy \<equiv> ''buy''"
abbreviation "SideSell \<equiv> ''sell''"
abbreviation "TypeLimit \<equiv> ''limit''"
abbreviation "TypeMarket \<equiv> ''market''"
abbreviation "TIFGTC \<equiv> ''GTC''"
abbreviation "TIFIOC \<equiv> ''IOC''"
abbreviation "TIFFOK \<equiv> ''FOK''"

record 'd Order =
  ord_ID :: string
  ord_ClientOrderID :: string
  ord_AccountID :: string
  ord_Symbol :: string
  ord_Side :: string
  ord_Type :: string
  ord_Price :: 'd
  ord_Quantity :: 'd
  ord_Filled :: 'd
  ord_TimeInForce :: string
  ord_CreatedAt :: time

definition Remaining :: "'d::linordered_idom Order \<Rightarrow> 'd" where
  "Remaining o' = ord_Quantity o' - ord_Filled o'"

record 'd Trade =
  tr_TradeID :: string
  tr_Symbol :: string
  tr_MakerOrderID :: string
  tr_TakerOrderID :: string
  tr_Price :: 'd
  tr_Quantity :: 'd
  tr_MakerSide :: string
  tr_ExecutedAt :: time

record 'd priceLevel =
  pl_price :: 'd
  pl_key :: string
  pl_orders :: "'d Order list"
  pl_index :: int

record priceHeap =
  ph_levels :: "string list"
  ph_isMax :: bool

record 'd bookSide =
  bs_levels :: "(string \<times> 'd priceLevel) list"
  bs_heap :: priceHeap

text \<open>\<open>ref_element\<close> names the queue element by its order ID; \<open>ref_sideBook\<close> is true for the buy side.\<close>

record orderRef =
  ref_element :: string
  ref_level :: string
  ref_side :: string
  ref_sideBook :: bool

record 'd OrderBook =
  ob_symbol :: string
  ob_buys :: "'d bookSide"
  ob_sells :: "'d bookSide"
  ob_orders :: "(string \<times> orderRef) list"

section \<open>Normalisation of sides, types and times in force\<close>

definition normalizeSide :: "string \<Rightarrow> string" where
  "normalizeSide side =
     (let trimmed = ToLower (TrimSpace side) in
      if trimmed = SideBuy then SideBuy else if trimmed = SideSell then SideSell else '''')"

definition normalizeType :: "string \<Rightarrow> string" where
  "normalizeType orderType =
     (let trimmed = ToLower (TrimSpace orderType) in
      if trimmed = TypeLimit then TypeLimit else if trimmed = TypeMarket then TypeMarket else '''')"

definition normalizeTIF :: "string \<Rightarrow> string" where
  "normalizeTIF tif =
     (let trimmed = ToUpper (TrimSpace tif) in
      if trimmed = TIFIOC \<or> trimmed = TIFFOK \<or> trimmed = TIFGTC then trimmed
      else if trimmed = '''' then TIFGTC else trimmed)"

section \<open>The price heap\<close>

text \<open>The heap's slice holds pointers to levels: its operations read and write the levels through the side.\<close>

definition heap_level :: "'d bookSide \<Rightarrow> nat \<Rightarrow> 'd priceLevel option" where
  "heap_level s i = map_of (bs_levels s) (ph_levels (bs_heap s) ! i)"

definition setIndex :: "'d bookSide \<Rightarrow> string \<Rightarrow> int \<Rightarrow> 'd bookSide" where
  "setIndex s k v =
     (case map_of (bs_levels s) k of
        None \<Rightarrow> s
      | Some l \<Rightarrow> s\<lparr>bs_levels := AList.update k (l\<lparr>pl_index := v\<rparr>) (bs_levels s)\<rparr>)"

definition priceHeap_Len :: "'d bookSide \<Rightarrow> nat" where
  "priceHeap_Len s = length (ph_levels (bs_heap s))"

definition priceHeap_Less :: "'d::linordered_idom bookSide \<Rightarrow> nat \<Rightarrow> nat \<Rightarrow> bool" where
  "priceHeap_Less s i j =
     (case (heap_level s i, heap_level s j) of
        (Some a, Some b) \<Rightarrow> if ph_isMax (bs_heap s) then pl_price a > pl_price b else pl_price a < pl_price b
      | _ \<Rightarrow> False)"

definition priceHeap_Swap :: "'d bookSide \<Rightarrow> nat \<Rightarrow> nat \<Rightarrow> 'd bookSide" where
  "priceHeap_Swap s i j =
     (let ks = ph_levels (bs_heap s);
          ks' = ks[i := ks ! j, j := ks ! i];
          s1 = s\<lparr>bs_heap := (bs_heap s)\<lparr>ph_levels := ks'\<rparr>\<rparr>
      in setIndex (setIndex s1 (ks' ! i) (int i)) (ks' ! j) (int j))"

definition priceHeap_Push :: "'d bookSide \<Rightarrow> string \<Rightarrow> 'd bookSide" where
  "priceHeap_Push s k =
     (let ks = ph_levels (bs_heap s);
          s1 = setIndex s k (int (length ks))
      in s1\<lparr>bs_heap := (bs_heap s)\<lparr>ph_levels := ks @ [k]\<rparr>\<rparr>)"

definition priceHeap_Pop :: "'d bookSide \<Rightarrow> 'd bookSide" where
  "priceHeap_Pop s =
     (let ks = ph_levels (bs_heap s);
          s1 = setIndex s (last ks) (- 1)
      in s1\<lparr>bs_heap := (bs_heap s)\<lparr>ph_levels := butlast ks\<rparr>\<rparr>)"

section \<open>Book sides\<close>

text \<open>\<open>heap.Init\<close> of the empty heap does nothing.\<close>

definition newBookSide :: "bool \<Rightarrow> 'd bookSide" where
  "newBookSide isBuy = \<lparr>bs_levels = [], bs_heap = \<lparr>ph_levels = [], ph_isMax = isBuy\<rparr>\<rparr>"

text \<open>
  \<open>add\<close>. The new level is entered in the map before it is pushed on the heap, because the model
  reaches a level through the map; \<open>heap.Push\<close> does not read the map.
\<close>

definition bookSide_add ::
  "'d decimal_ops \<Rightarrow> 'd::linordered_idom bookSide \<Rightarrow> bool \<Rightarrow> 'd Order \<Rightarrow> 'd bookSide \<times> orderRef" where
  "bookSide_add D s isBuy order =
     (let key = DecString D (ord_Price order);
          s1 = (case map_of (bs_levels s) key of
                  Some level \<Rightarrow> s
                | None \<Rightarrow>
                    heap_Push priceHeap_Len priceHeap_Less priceHeap_Swap priceHeap_Push
                      (s\<lparr>bs_levels := AList.update key
                           \<lparr>pl_price = ord_Price order, pl_key = key, pl_orders = [], pl_index = 0\<rparr> (bs_levels s)\<rparr>)
                      key);
          s2 = (case map_of (bs_levels s1) key of
                  Some level \<Rightarrow> s1\<lparr>bs_levels := AList.update key (level\<lparr>pl_orders := pl_orders level @ [order]\<rparr>) (bs_levels s1)\<rparr>
                | None \<Rightarrow> s1)
      in (s2, \<lparr>ref_element = ord_ID order, ref_level = key,
               ref_side = normalizeSide (ord_Side order), ref_sideBook = isBuy\<rparr>))"

definition bookSide_remove :: "'d::linordered_idom bookSide \<Rightarrow> orderRef \<Rightarrow> 'd bookSide" where
  "bookSide_remove s ref =
     (case map_of (bs_levels s) (ref_level ref) of
        None \<Rightarrow> s
      | Some level \<Rightarrow>
          let left = filter (\<lambda>o'. ord_ID o' \<noteq> ref_element ref) (pl_orders level);
              s1 = s\<lparr>bs_levels := AList.update (ref_level ref) (level\<lparr>pl_orders := left\<rparr>) (bs_levels s)\<rparr>
          in if length left = 0
             then let s2 = heap_Remove priceHeap_Len priceHeap_Less priceHeap_Swap priceHeap_Pop s1 (nat (pl_index level))
                  in s2\<lparr>bs_levels := AList.delete (pl_key level) (bs_levels s2)\<rparr>
             else s1)"

definition bookSide_best :: "'d bookSide \<Rightarrow> 'd priceLevel option" where
  "bookSide_best s = (if priceHeap_Len s = 0 then None else heap_level s 0)"

section \<open>The order book\<close>

definition NewOrderBook :: "string \<Rightarrow> 'd OrderBook" where
  "NewOrderBook symbol =
     \<lparr>ob_symbol = symbol, ob_buys = newBookSide True, ob_sells = newBookSide False, ob_orders = []\<rparr>"

definition Depth :: "'d OrderBook \<Rightarrow> string \<Rightarrow> nat" where
  "Depth ob side = length (filter (\<lambda>(_, ref). ref_side ref = side) (ob_orders ob))"

definition BestBid :: "'d OrderBook \<Rightarrow> 'd priceLevel option" where
  "BestBid ob = bookSide_best (ob_buys ob)"

definition BestAsk :: "'d OrderBook \<Rightarrow> 'd priceLevel option" where
  "BestAsk ob = bookSide_best (ob_sells ob)"

definition addOrderLocked ::
  "'d decimal_ops \<Rightarrow> 'd::linordered_idom OrderBook \<Rightarrow> 'd Order option \<Rightarrow> go_error + 'd OrderBook" where
  "addOrderLocked D ob order =
     (case order of
        None \<Rightarrow> Inl (Errorf ''order required'' [])
      | Some o' \<Rightarrow>
          if TrimSpace (ord_ID o') = '''' then Inl (Errorf ''order id required'' [])
          else if map_of (ob_orders ob) (ord_ID o') \<noteq> None then Inr ob
          else if ord_Type o' = TypeMarket then Inr ob
          else if Remaining o' \<le> 0 then Inr ob
          else let side = normalizeSide (ord_Side o') in
            if side = SideBuy then
              (case bookSide_add D (ob_buys ob) True o' of
                 (s, ref) \<Rightarrow> Inr (ob\<lparr>ob_buys := s, ob_orders := AList.update (ord_ID o') ref (ob_orders ob)\<rparr>))
            else if side = SideSell then
              (case bookSide_add D (ob_sells ob) False o' of
                 (s, ref) \<Rightarrow> Inr (ob\<lparr>ob_sells := s, ob_orders := AList.update (ord_ID o') ref (ob_orders ob)\<rparr>))
            else Inl (Errorf ''invalid side'' []))"

definition AddOrder ::
  "'d decimal_ops \<Rightarrow> 'd::linordered_idom OrderBook \<Rightarrow> 'd Order option \<Rightarrow> go_error + 'd OrderBook" where
  "AddOrder D ob order = addOrderLocked D ob order"

definition removeOrderLocked :: "'d::linordered_idom OrderBook \<Rightarrow> string \<Rightarrow> bool \<times> 'd OrderBook" where
  "removeOrderLocked ob orderID =
     (if TrimSpace orderID = '''' then (False, ob)
      else case map_of (ob_orders ob) orderID of
        None \<Rightarrow> (False, ob)
      | Some ref \<Rightarrow>
          let ob1 = (if ref_sideBook ref
                     then ob\<lparr>ob_buys := bookSide_remove (ob_buys ob) ref\<rparr>
                     else ob\<lparr>ob_sells := bookSide_remove (ob_sells ob) ref\<rparr>)
          in (True, ob1\<lparr>ob_orders := AList.delete orderID (ob_orders ob1)\<rparr>))"

definition RemoveOrder :: "'d::linordered_idom OrderBook \<Rightarrow> string \<Rightarrow> bool \<times> 'd OrderBook" where
  "RemoveOrder ob orderID = removeOrderLocked ob orderID"

section \<open>The price heap implements heap.Interface\<close>

text \<open>The heap's array as prices with their level keys, and the order the heap keeps.\<close>

definition level_price :: "'d::linordered_idom bookSide \<Rightarrow> string \<Rightarrow> 'd" where
  "level_price s k = (case map_of (bs_levels s) k of Some l \<Rightarrow> pl_price l | None \<Rightarrow> 0)"

definition heap_array :: "'d::linordered_idom bookSide \<Rightarrow> ('d \<times> string) list" where
  "heap_array s = map (\<lambda>k. (level_price s k, k)) (ph_levels (bs_heap s))"

definition priority_le :: "bool \<Rightarrow> 'd::linordered_idom \<times> string \<Rightarrow> 'd \<times> string \<Rightarrow> bool" where
  "priority_le isMax u v \<longleftrightarrow> (if isMax then fst v \<le> fst u else fst u \<le> fst v)"

text \<open>The index field of every level on the heap is its position there.\<close>

definition heap_valid :: "bool \<Rightarrow> 'd::linordered_idom bookSide \<Rightarrow> bool" where
  "heap_valid b s \<longleftrightarrow> ph_isMax (bs_heap s) = b \<and> distinct (ph_levels (bs_heap s)) \<and> distinct (map fst (bs_levels s))
     \<and> (\<forall>i < length (ph_levels (bs_heap s)). \<exists>l. heap_level s i = Some l \<and> pl_index l = int i)"

definition pushable :: "'d::linordered_idom bookSide \<Rightarrow> string \<Rightarrow> 'd \<times> string \<Rightarrow> bool" where
  "pushable s k v \<longleftrightarrow> k \<notin> set (ph_levels (bs_heap s)) \<and> map_of (bs_levels s) k \<noteq> None \<and> v = (level_price s k, k)"

lemma map_of_setIndex:
  "map_of (bs_levels (setIndex s k v)) =
     (map_of (bs_levels s))(k := map_option (\<lambda>l. l\<lparr>pl_index := v\<rparr>) (map_of (bs_levels s) k))"
  by (auto simp: setIndex_def split: option.splits)

lemma setIndex_simps [simp]:
  "bs_heap (setIndex s k v) = bs_heap s"
  "level_price (setIndex s k v) = level_price s"
  "distinct (map fst (bs_levels s)) \<Longrightarrow> distinct (map fst (bs_levels (setIndex s k v)))"
  by (auto simp: setIndex_def level_price_def split: option.splits)

lemma level_price_heap [simp]: "level_price (s\<lparr>bs_heap := h\<rparr>) = level_price s"
  by (simp add: level_price_def fun_eq_iff)

lemma length_heap_array [simp]: "length (heap_array s) = length (ph_levels (bs_heap s))"
  by (simp add: heap_array_def)

lemma nth_heap_array:
  "i < length (ph_levels (bs_heap s)) \<Longrightarrow>
   heap_array s ! i = (level_price s (ph_levels (bs_heap s) ! i), ph_levels (bs_heap s) ! i)"
  by (simp add: heap_array_def)

lemma priceHeap_Swap_heap [simp]:
  "ph_levels (bs_heap (priceHeap_Swap s i j)) = swap_list (ph_levels (bs_heap s)) i j"
  "ph_isMax (bs_heap (priceHeap_Swap s i j)) = ph_isMax (bs_heap s)"
  "level_price (priceHeap_Swap s i j) = level_price s"
  by (simp_all add: priceHeap_Swap_def Let_def swap_list_def)

lemma heap_array_Swap:
  "i < length (heap_array s) \<Longrightarrow> j < length (heap_array s) \<Longrightarrow>
   heap_array (priceHeap_Swap s i j) = swap_list (heap_array s) i j"
  by (auto simp: heap_array_def nth_swap_list intro!: nth_equalityI)

lemma map_of_Swap:
  assumes ij: "i < length (ph_levels (bs_heap s))" "j < length (ph_levels (bs_heap s))"
    and d: "distinct (ph_levels (bs_heap s))"
  shows "map_of (bs_levels (priceHeap_Swap s i j)) k =
     (let ks = ph_levels (bs_heap s) in
      if k = ks ! i then map_option (\<lambda>l. l\<lparr>pl_index := int j\<rparr>) (map_of (bs_levels s) k)
      else if k = ks ! j then map_option (\<lambda>l. l\<lparr>pl_index := int i\<rparr>) (map_of (bs_levels s) k)
      else map_of (bs_levels s) k)"
proof -
  let ?ks = "ph_levels (bs_heap s)"
  have sw: "?ks[i := ?ks ! j, j := ?ks ! i] ! i = ?ks ! j" "?ks[i := ?ks ! j, j := ?ks ! i] ! j = ?ks ! i"
    using ij by (auto simp: nth_list_update)
  show ?thesis
    using ij d by (auto simp: priceHeap_Swap_def Let_def sw map_of_setIndex option.map_comp comp_def nth_eq_iff_index_eq)
qed

lemma heap_valid_Swap:
  assumes v: "heap_valid b s" and ij: "i < length (ph_levels (bs_heap s))" "j < length (ph_levels (bs_heap s))"
  shows "heap_valid b (priceHeap_Swap s i j)"
proof -
  let ?ks = "ph_levels (bs_heap s)"
  have d: "distinct ?ks" using v by (simp add: heap_valid_def)
  have lev: "\<exists>l. map_of (bs_levels s) (?ks ! m) = Some l \<and> pl_index l = int m" if "m < length ?ks" for m
    using v that by (simp add: heap_valid_def heap_level_def)
  have "\<exists>l. heap_level (priceHeap_Swap s i j) m = Some l \<and> pl_index l = int m" if m: "m < length ?ks" for m
    using m ij d lev [of m] lev [of i] lev [of j]
    by (auto simp: heap_level_def nth_swap_list map_of_Swap Let_def nth_eq_iff_index_eq)
  moreover have "distinct (swap_list ?ks i j)"
    using d ij by (metis mset_swap_list mset_eq_imp_distinct_iff)
  moreover have "distinct (map fst (bs_levels (priceHeap_Swap s i j)))"
    using v by (simp add: priceHeap_Swap_def Let_def heap_valid_def)
  ultimately show ?thesis using v by (simp add: heap_valid_def)
qed

lemma heap_valid_Push:
  assumes v: "heap_valid b s" and p: "pushable s k w"
  shows "heap_valid b (priceHeap_Push s k)"
proof -
  let ?ks = "ph_levels (bs_heap s)"
  have lev: "\<exists>l. map_of (bs_levels s) (?ks ! m) = Some l \<and> pl_index l = int m" if "m < length ?ks" for m
    using v that by (simp add: heap_valid_def heap_level_def)
  have ne: "?ks ! m \<noteq> k" if "m < length ?ks" for m using p that by (auto simp: pushable_def)
  have "\<exists>l. heap_level (priceHeap_Push s k) m = Some l \<and> pl_index l = int m" if "m < Suc (length ?ks)" for m
    using that p lev [of m] ne [of m]
    by (cases "m = length ?ks")
       (auto simp: heap_level_def priceHeap_Push_def Let_def map_of_setIndex nth_append pushable_def)
  moreover have "distinct (?ks @ [k])" using v p by (simp add: heap_valid_def pushable_def)
  moreover have "distinct (map fst (bs_levels (priceHeap_Push s k)))"
    using v by (simp add: heap_valid_def priceHeap_Push_def Let_def)
  ultimately show ?thesis using v by (simp add: heap_valid_def priceHeap_Push_def Let_def)
qed

lemma heap_valid_Pop:
  assumes v: "heap_valid b s" and ne: "ph_levels (bs_heap s) \<noteq> []"
  shows "heap_valid b (priceHeap_Pop s)"
proof -
  let ?ks = "ph_levels (bs_heap s)"
  have d: "distinct ?ks" using v by (simp add: heap_valid_def)
  have lev: "\<exists>l. map_of (bs_levels s) (?ks ! m) = Some l \<and> pl_index l = int m" if "m < length ?ks" for m
    using v that by (simp add: heap_valid_def heap_level_def)
  have ne': "?ks ! m \<noteq> last ?ks" if "m < length ?ks - 1" for m
    using d ne that by (simp add: last_conv_nth nth_eq_iff_index_eq)
  have "\<exists>l. heap_level (priceHeap_Pop s) m = Some l \<and> pl_index l = int m" if m: "m < length ?ks - 1" for m
    using m lev [of m] ne' [of m]
    by (auto simp: heap_level_def priceHeap_Pop_def Let_def map_of_setIndex nth_butlast)
  moreover have "distinct (butlast ?ks)" using d by (rule distinct_butlast)
  moreover have "distinct (map fst (bs_levels (priceHeap_Pop s)))"
    using v by (simp add: heap_valid_def priceHeap_Pop_def Let_def)
  ultimately show ?thesis using v by (simp add: heap_valid_def priceHeap_Pop_def Let_def)
qed

lemma priceHeap_Less_array:
  assumes "heap_valid b s" "i < length (ph_levels (bs_heap s))" "j < length (ph_levels (bs_heap s))"
  shows "priceHeap_Less s i j \<longleftrightarrow> \<not> priority_le b (heap_array s ! j) (heap_array s ! i)"
proof -
  obtain x y where "heap_level s i = Some x" "heap_level s j = Some y"
    using assms by (meson heap_valid_def)
  then show ?thesis using assms
    by (auto simp: priceHeap_Less_def heap_valid_def priority_le_def nth_heap_array level_price_def heap_level_def)
qed

lemma heap_array_Push: "pushable s k v \<Longrightarrow> heap_array (priceHeap_Push s k) = heap_array s @ [v]"
  by (simp add: heap_array_def priceHeap_Push_def Let_def pushable_def)

lemma heap_array_Pop: "heap_array (priceHeap_Pop s) = butlast (heap_array s)"
  by (simp add: heap_array_def priceHeap_Pop_def Let_def map_butlast)

interpretation price_heap: heap_interface priceHeap_Len priceHeap_Less priceHeap_Swap priceHeap_Push priceHeap_Pop
    heap_array "priority_le b" "heap_valid b" pushable for b
proof (unfold_locales, goal_cases)
  case 1 show ?case by (simp add: priceHeap_Len_def)
next
  case 2 then show ?case by (simp add: priceHeap_Less_array)
next
  case 3 then show ?case by (simp add: heap_array_Swap)
next
  case 4 then show ?case by (simp add: heap_valid_Swap)
next
  case 5 then show ?case by (simp add: heap_array_Push)
next
  case 6 then show ?case by (rule heap_valid_Push)
next
  case 7 then show ?case by (simp add: heap_array_Pop)
next
  case (8 s) then show ?case by (metis heap_valid_Pop length_heap_array length_0_conv)
next
  case 9 show ?case by (auto simp: priority_le_def)
next
  case 10 then show ?case by (auto simp: priority_le_def split: if_splits)
qed

section \<open>Consistency of a book side\<close>

text \<open>The levels without their heap positions: what the heap operations leave alone.\<close>

definition contents :: "'d bookSide \<Rightarrow> string \<Rightarrow> 'd priceLevel option" where
  "contents s k = map_option (\<lambda>l. l\<lparr>pl_index := 0\<rparr>) (map_of (bs_levels s) k)"

text \<open>The queue of resting orders under a level key, in time order.\<close>

definition queue :: "'d bookSide \<Rightarrow> string \<Rightarrow> 'd Order list" where
  "queue s k = (case map_of (bs_levels s) k of None \<Rightarrow> [] | Some l \<Rightarrow> pl_orders l)"

definition side_name :: "bool \<Rightarrow> string" where
  "side_name isBuy = (if isBuy then SideBuy else SideSell)"

definition order_ok :: "bool \<Rightarrow> 'd::linordered_idom \<Rightarrow> 'd Order \<Rightarrow> bool" where
  "order_ok b p o' \<longleftrightarrow> ord_Price o' = p \<and> normalizeSide (ord_Side o') = side_name b
     \<and> TrimSpace (ord_ID o') \<noteq> ''''"

definition level_ok :: "'d decimal_ops \<Rightarrow> bool \<Rightarrow> string \<Rightarrow> 'd::linordered_idom priceLevel \<Rightarrow> bool" where
  "level_ok D b k l \<longleftrightarrow> pl_key l = k \<and> DecString D (pl_price l) = k \<and> pl_orders l \<noteq> []
     \<and> distinct (map ord_ID (pl_orders l)) \<and> (\<forall>o' \<in> set (pl_orders l). order_ok b (pl_price l) o')"

definition heap_ordered :: "bool \<Rightarrow> 'd::linordered_idom bookSide \<Rightarrow> bool" where
  "heap_ordered b s \<longleftrightarrow> (\<forall>k. 0 < k \<and> k < length (heap_array s) \<longrightarrow>
     priority_le b (heap_array s ! parent k) (heap_array s ! k))"

definition side_inv :: "'d decimal_ops \<Rightarrow> bool \<Rightarrow> 'd::linordered_idom bookSide \<Rightarrow> bool" where
  "side_inv D b s \<longleftrightarrow> heap_valid b s \<and> heap_ordered b s \<and> set (ph_levels (bs_heap s)) = dom (contents s)
     \<and> (\<forall>k l. contents s k = Some l \<longrightarrow> level_ok D b k l)"

lemma heap_ordered_eq: "heap_ordered b s \<longleftrightarrow> price_heap.heap_upto b (heap_array s) (length (heap_array s))"
  by (simp add: heap_ordered_def price_heap.heap_upto_def price_heap.edge_def)

lemma dom_contents: "dom (contents s) = dom (map_of (bs_levels s))"
  by (auto simp: contents_def dom_def)

lemma queue_contents: "queue s k = (case contents s k of None \<Rightarrow> [] | Some l \<Rightarrow> pl_orders l)"
  by (simp add: queue_def contents_def split: option.splits)

lemma level_ok_index [simp]: "level_ok D b k (l\<lparr>pl_index := i\<rparr>) = level_ok D b k l"
  by (simp add: level_ok_def)

lemma side_inv_level: "side_inv D b s \<Longrightarrow> map_of (bs_levels s) k = Some l \<Longrightarrow> level_ok D b k l"
  unfolding side_inv_def contents_def by (metis level_ok_index option.simps(9))

lemma set_ph_levels: "set (ph_levels (bs_heap s)) = snd ` set (heap_array s)"
  by (auto simp: heap_array_def image_image)

subsection \<open>What the heap operations leave alone\<close>

lemma contents_setIndex [simp]: "contents (setIndex s k v) = contents s"
  by (auto simp: contents_def map_of_setIndex fun_eq_iff option.map_comp comp_def)

lemma contents_heap [simp]: "contents (s\<lparr>bs_heap := h\<rparr>) = contents s"
  by (simp add: contents_def fun_eq_iff)

lemma contents_Swap [simp]: "contents (priceHeap_Swap s i j) = contents s"
  by (simp add: priceHeap_Swap_def Let_def)

lemma contents_Push [simp]: "contents (priceHeap_Push s k) = contents s"
  by (simp add: priceHeap_Push_def Let_def)

lemma contents_Pop [simp]: "contents (priceHeap_Pop s) = contents s"
  by (simp add: priceHeap_Pop_def Let_def)

lemma contents_heap_Push [simp]:
  "contents (heap_Push priceHeap_Len priceHeap_Less priceHeap_Swap priceHeap_Push s k) = contents s"
  using heap_up_keeps [of "\<lambda>t. contents t = contents s" priceHeap_Swap "priceHeap_Push s k"]
  by (simp add: heap_Push_def Let_def)

lemma contents_heap_Remove [simp]:
  "contents (heap_Remove priceHeap_Len priceHeap_Less priceHeap_Swap priceHeap_Pop s i) = contents s"
proof -
  let ?P = "\<lambda>t. contents t = contents s" and ?n = "priceHeap_Len s - 1"
  obtain s2 i2 where d: "heap_down priceHeap_Less priceHeap_Swap (priceHeap_Swap s i ?n) i ?n = (s2, i2)"
    by fastforce
  have "?P (fst (heap_down priceHeap_Less priceHeap_Swap (priceHeap_Swap s i ?n) i ?n))"
    by (rule heap_down_keeps [where P = ?P]) simp_all
  then have "?P s2" by (simp only: d fst_conv)
  moreover from this have "?P (heap_up priceHeap_Less priceHeap_Swap s2 i)"
    by (rule heap_up_keeps [where P = ?P, rotated]) simp
  ultimately show ?thesis by (simp add: heap_Remove_def Let_def d [simplified])
qed

lemma level_price_contents: "level_price s k = (case contents s k of Some l \<Rightarrow> pl_price l | None \<Rightarrow> 0)"
  by (simp add: level_price_def contents_def split: option.splits)

text \<open>Rewriting the queue of a level does not touch the heap.\<close>

lemma update_orders_frame:
  fixes s :: "'d::linordered_idom bookSide" and os :: "'d Order list"
  assumes l: "map_of (bs_levels s) k = Some l"
  defines "s' \<equiv> s\<lparr>bs_levels := AList.update k (l\<lparr>pl_orders := os\<rparr>) (bs_levels s)\<rparr>"
  shows "heap_array s' = heap_array s" and "heap_ordered b s' = heap_ordered b s"
    and "heap_valid b s \<Longrightarrow> heap_valid b s'"
    and "contents s' = (contents s)(k \<mapsto> l\<lparr>pl_orders := os, pl_index := 0\<rparr>)"
    and "queue s' = (queue s)(k := os)"
proof -
  have m: "map_of (bs_levels s') = (map_of (bs_levels s))(k \<mapsto> l\<lparr>pl_orders := os\<rparr>)"
    and h: "bs_heap s' = bs_heap s"
    by (simp_all add: s'_def)
  show a: "heap_array s' = heap_array s"
    using l by (auto simp: heap_array_def h level_price_def m)
  then show "heap_ordered b s' = heap_ordered b s" by (simp add: heap_ordered_def)
  show "contents s' = (contents s)(k \<mapsto> l\<lparr>pl_orders := os, pl_index := 0\<rparr>)"
    by (auto simp: contents_def m fun_eq_iff)
  show "queue s' = (queue s)(k := os)"
    by (auto simp: queue_def m fun_eq_iff)
  assume v: "heap_valid b s"
  have "\<exists>l'. heap_level s' i = Some l' \<and> pl_index l' = int i" if "i < length (ph_levels (bs_heap s))" for i
  proof -
    from v that obtain l' where "heap_level s i = Some l'" "pl_index l' = int i"
      by (auto simp: heap_valid_def)
    then show ?thesis using l by (auto simp: heap_level_def h m)
  qed
  moreover have "distinct (map fst (bs_levels s'))" using v by (simp add: heap_valid_def s'_def)
  ultimately show "heap_valid b s'" using v by (simp add: heap_valid_def h)
qed

lemma side_inv_update_orders:
  assumes inv: "side_inv D b s" and l: "map_of (bs_levels s) k = Some l"
    and os: "os \<noteq> []" "distinct (map ord_ID os)" "\<forall>o' \<in> set os. order_ok b (pl_price l) o'"
  shows "side_inv D b (s\<lparr>bs_levels := AList.update k (l\<lparr>pl_orders := os\<rparr>) (bs_levels s)\<rparr>)"
proof -
  have c: "contents s k = Some (l\<lparr>pl_index := 0\<rparr>)" using l by (simp add: contents_def)
  have "level_ok D b k l" using inv l by (rule side_inv_level)
  then have "level_ok D b k (l\<lparr>pl_orders := os, pl_index := 0\<rparr>)" using os by (simp add: level_ok_def)
  then show ?thesis
    using inv update_orders_frame [OF l] c by (auto simp: side_inv_def)
qed

subsection \<open>Adding an order\<close>

lemma new_level_frame:
  fixes s :: "'d::linordered_idom bookSide" and l :: "'d priceLevel"
  assumes inv: "side_inv D b s" and k: "map_of (bs_levels s) k = None"
  defines "s0 \<equiv> s\<lparr>bs_levels := AList.update k l (bs_levels s)\<rparr>"
  shows "heap_valid b s0" and "heap_array s0 = heap_array s"
    and "contents s0 = (contents s)(k \<mapsto> l\<lparr>pl_index := 0\<rparr>)" and "pushable s0 k (pl_price l, k)"
proof -
  have nk: "k \<notin> set (ph_levels (bs_heap s))" using inv k by (auto simp: side_inv_def dom_contents)
  have m: "map_of (bs_levels s0) = (map_of (bs_levels s))(k \<mapsto> l)" and h: "bs_heap s0 = bs_heap s"
    by (simp_all add: s0_def)
  show "heap_array s0 = heap_array s"
    using nk by (auto simp: heap_array_def h level_price_def m)
  show "contents s0 = (contents s)(k \<mapsto> l\<lparr>pl_index := 0\<rparr>)"
    by (auto simp: contents_def m fun_eq_iff)
  show "pushable s0 k (pl_price l, k)" using nk by (simp add: pushable_def h m level_price_def)
  have "heap_level s0 i = heap_level s i" if "i < length (ph_levels (bs_heap s))" for i
    using nk that by (auto simp: heap_level_def h m)
  then show "heap_valid b s0" using inv by (auto simp: side_inv_def heap_valid_def h s0_def)
qed

lemma heap_Push_level:
  fixes s :: "'d::linordered_idom bookSide" and l :: "'d priceLevel"
  assumes inv: "side_inv D b s" and k: "map_of (bs_levels s) k = None"
  defines "s1 \<equiv> heap_Push priceHeap_Len priceHeap_Less priceHeap_Swap priceHeap_Push
                   (s\<lparr>bs_levels := AList.update k l (bs_levels s)\<rparr>) k"
  shows "heap_valid b s1" and "heap_ordered b s1" and "set (ph_levels (bs_heap s1)) = dom (contents s1)"
    and "contents s1 = (contents s)(k \<mapsto> l\<lparr>pl_index := 0\<rparr>)"
proof -
  note fr = new_level_frame [OF inv k, of l]
  have o: "price_heap.heap_upto b (heap_array s) (length (heap_array s))"
    using inv by (simp add: side_inv_def heap_ordered_eq)
  note push = price_heap.heap_Push_correct [OF fr(1) _ fr(4)]
  show v: "heap_valid b s1" and "heap_ordered b s1"
    using push o fr(2) by (simp_all add: s1_def heap_ordered_eq)
  show c: "contents s1 = (contents s)(k \<mapsto> l\<lparr>pl_index := 0\<rparr>)" by (simp add: s1_def fr(3))
  have "mset (heap_array s1) = add_mset (pl_price l, k) (mset (heap_array s))"
    using push o fr(2) by (simp add: s1_def)
  then have "set (heap_array s1) = insert (pl_price l, k) (set (heap_array s))"
    by (metis set_mset_add_mset_insert set_mset_mset)
  then show "set (ph_levels (bs_heap s1)) = dom (contents s1)"
    using inv by (auto simp: set_ph_levels c side_inv_def)
qed

lemma bookSide_add_correct:
  assumes inv: "side_inv D b s" and inj: "inj (DecString D)" and ok: "order_ok b (ord_Price o') o'"
    and fresh: "ord_ID o' \<notin> ord_ID ` set (queue s (DecString D (ord_Price o')))"
    and add: "bookSide_add D s b o' = (s', ref)"
  shows "side_inv D b s'"
    and "queue s' = (queue s)(DecString D (ord_Price o') := queue s (DecString D (ord_Price o')) @ [o'])"
    and "ref = \<lparr>ref_element = ord_ID o', ref_level = DecString D (ord_Price o'), ref_side = side_name b, ref_sideBook = b\<rparr>"
proof -
  let ?k = "DecString D (ord_Price o')"
  show "ref = \<lparr>ref_element = ord_ID o', ref_level = ?k, ref_side = side_name b, ref_sideBook = b\<rparr>"
    using add ok by (simp add: bookSide_add_def Let_def order_ok_def)
  have "side_inv D b s' \<and> queue s' = (queue s)(?k := queue s ?k @ [o'])"
  proof (cases "map_of (bs_levels s) ?k")
    case (Some l)
    then have s': "s' = s\<lparr>bs_levels := AList.update ?k (l\<lparr>pl_orders := pl_orders l @ [o']\<rparr>) (bs_levels s)\<rparr>"
      using add by (simp add: bookSide_add_def Let_def)
    have q: "queue s ?k = pl_orders l" using Some by (simp add: queue_def)
    have lok: "level_ok D b ?k l" using inv Some by (rule side_inv_level)
    then have "pl_price l = ord_Price o'" using inj by (simp add: level_ok_def inj_eq)
    then have "side_inv D b s'"
      unfolding s' using inv Some lok ok fresh q by (intro side_inv_update_orders) (auto simp: level_ok_def)
    then show ?thesis using update_orders_frame(5) [OF Some] by (simp add: s' q)
  next
    case None
    let ?l = "\<lparr>pl_price = ord_Price o', pl_key = ?k, pl_orders = [], pl_index = 0\<rparr>"
    define s1 where "s1 = heap_Push priceHeap_Len priceHeap_Less priceHeap_Swap priceHeap_Push
        (s\<lparr>bs_levels := AList.update ?k ?l (bs_levels s)\<rparr>) ?k"
    note p = heap_Push_level [OF inv None, of ?l, folded s1_def]
    have "contents s1 ?k = Some ?l" by (simp add: p(4))
    then obtain l where l: "map_of (bs_levels s1) ?k = Some l" "l\<lparr>pl_index := 0\<rparr> = ?l"
      by (auto simp: contents_def)
    have lo: "pl_orders l = []" using l(2) by (cases l) simp
    have s': "s' = s1\<lparr>bs_levels := AList.update ?k (l\<lparr>pl_orders := [o']\<rparr>) (bs_levels s1)\<rparr>"
      using add None l lo by (simp add: bookSide_add_def Let_def s1_def [symmetric])
    have l0: "l\<lparr>pl_orders := [o'], pl_index := 0\<rparr> = ?l\<lparr>pl_orders := [o']\<rparr>"
      using l(2) by (cases l) simp
    have c: "contents s ?k = None" using None by (simp add: contents_def)
    have q1: "queue s ?k = []" by (simp add: queue_contents c)
    have q2: "queue s1 = queue s"
      unfolding fun_eq_iff queue_contents p(4) by (simp add: c)
    note q = q1 q2
    note u = update_orders_frame [OF l(1), where os = "[o']", folded s']
    have "contents s' = (contents s)(?k \<mapsto> ?l\<lparr>pl_orders := [o']\<rparr>)"
      using u(4) by (simp add: p(4) l0)
    moreover have "heap_valid b s'" "heap_ordered b s'" using u p by auto
    moreover have "set (ph_levels (bs_heap s')) = dom (contents s')"
      using p(3) u(4) l0 by (simp add: set_ph_levels u(1) p(4))
    ultimately have "side_inv D b s'"
      using inv ok by (auto simp: side_inv_def level_ok_def)
    then show ?thesis using u(5) q by simp
  qed
  then show "side_inv D b s'" and "queue s' = (queue s)(?k := queue s ?k @ [o'])" by auto
qed

subsection \<open>Removing an order\<close>

lemma delete_level_frame:
  fixes s :: "'d::linordered_idom bookSide"
  assumes v: "heap_valid b s" and nk: "k \<notin> set (ph_levels (bs_heap s))"
  defines "s' \<equiv> s\<lparr>bs_levels := AList.delete k (bs_levels s)\<rparr>"
  shows "heap_valid b s'" and "heap_array s' = heap_array s" and "contents s' = (contents s)(k := None)"
proof -
  have m: "map_of (bs_levels s') = (map_of (bs_levels s))(k := None)" and h: "bs_heap s' = bs_heap s"
    by (simp_all add: s'_def)
  show "heap_array s' = heap_array s" using nk by (auto simp: heap_array_def h level_price_def m)
  show "contents s' = (contents s)(k := None)" by (auto simp: contents_def m fun_eq_iff)
  have "heap_level s' i = heap_level s i" if "i < length (ph_levels (bs_heap s))" for i
    using nk that by (auto simp: heap_level_def h m)
  then show "heap_valid b s'" using v by (auto simp: heap_valid_def h s'_def)
qed

lemma heap_valid_position:
  assumes v: "heap_valid b s" and k: "k \<in> set (ph_levels (bs_heap s))" and l: "map_of (bs_levels s) k = Some l"
  shows "nat (pl_index l) < length (ph_levels (bs_heap s))" and "ph_levels (bs_heap s) ! nat (pl_index l) = k"
proof -
  from k obtain i where i: "i < length (ph_levels (bs_heap s))" "ph_levels (bs_heap s) ! i = k"
    by (auto simp: in_set_conv_nth)
  with v l have "pl_index l = int i" by (auto simp: heap_valid_def heap_level_def)
  with i show "nat (pl_index l) < length (ph_levels (bs_heap s))" and "ph_levels (bs_heap s) ! nat (pl_index l) = k"
    by auto
qed

lemma heap_Remove_level:
  fixes s :: "'d::linordered_idom bookSide"
  assumes v: "heap_valid b s" and o: "heap_ordered b s" and k: "k \<in> set (ph_levels (bs_heap s))"
    and l: "map_of (bs_levels s) k = Some l"
  defines "s2 \<equiv> heap_Remove priceHeap_Len priceHeap_Less priceHeap_Swap priceHeap_Pop s (nat (pl_index l))"
  shows "heap_valid b s2" and "heap_ordered b s2"
    and "set (ph_levels (bs_heap s2)) = set (ph_levels (bs_heap s)) - {k}"
proof -
  let ?i = "nat (pl_index l)" and ?ks = "ph_levels (bs_heap s)"
  note pos = heap_valid_position [OF v k l]
  have h: "price_heap.heap_upto b (heap_array s) (length (heap_array s))" using o by (simp add: heap_ordered_eq)
  note rm = price_heap.heap_Remove_correct [OF v h, of ?i, folded s2_def]
  show "heap_valid b s2" and "heap_ordered b s2" using rm pos by (simp_all add: heap_ordered_eq)
  have ks: "ph_levels (bs_heap t) = map snd (heap_array t)" for t :: "'d bookSide"
    by (simp add: heap_array_def comp_def)
  have "mset (ph_levels (bs_heap s2)) = image_mset snd (mset (heap_array s) - {#heap_array s ! ?i#})"
    using rm(3) pos by (simp add: ks [of s2])
  also have "\<dots> = image_mset snd (mset (heap_array s)) - {#snd (heap_array s ! ?i)#}"
    using pos(1) by (subst image_mset_Diff) (simp_all add: nth_mem_mset)
  also have "image_mset snd (mset (heap_array s)) = mset ?ks" by (simp add: heap_array_def comp_def flip: mset_map)
  also have "snd (heap_array s ! ?i) = k" using pos by (simp add: nth_heap_array)
  finally have "mset (ph_levels (bs_heap s2)) = mset (remove1 k ?ks)" by simp
  then have "set (ph_levels (bs_heap s2)) = set (remove1 k ?ks)" by (rule mset_eq_setD)
  then show "set (ph_levels (bs_heap s2)) = set ?ks - {k}" using v by (simp add: heap_valid_def)
qed

lemma bookSide_remove_correct:
  assumes inv: "side_inv D b s" and l: "map_of (bs_levels s) (ref_level r) = Some l"
  shows "side_inv D b (bookSide_remove s r)"
    and "queue (bookSide_remove s r) =
           (queue s)(ref_level r := filter (\<lambda>o'. ord_ID o' \<noteq> ref_element r) (queue s (ref_level r)))"
proof -
  let ?k = "ref_level r" and ?left = "filter (\<lambda>o'. ord_ID o' \<noteq> ref_element r) (pl_orders l)"
  let ?s1 = "s\<lparr>bs_levels := AList.update ?k (l\<lparr>pl_orders := ?left\<rparr>) (bs_levels s)\<rparr>"
  have lok: "level_ok D b ?k l" using inv l by (rule side_inv_level)
  have q: "queue s ?k = pl_orders l" using l by (simp add: queue_def)
  note u = update_orders_frame [OF l, where os = ?left]
  have "side_inv D b (bookSide_remove s r) \<and> queue (bookSide_remove s r) = (queue s)(?k := ?left)"
  proof (cases "?left = []")
    case False
    then have eq: "bookSide_remove s r = ?s1" using l by (simp add: bookSide_remove_def Let_def)
    have "side_inv D b ?s1"
      using lok False by (intro side_inv_update_orders [OF inv l]) (auto simp: level_ok_def distinct_map_filter)
    then show ?thesis using eq u(5) by simp
  next
    case True
    define s2 where "s2 = heap_Remove priceHeap_Len priceHeap_Less priceHeap_Swap priceHeap_Pop ?s1 (nat (pl_index l))"
    let ?s3 = "s2\<lparr>bs_levels := AList.delete ?k (bs_levels s2)\<rparr>"
    have eq: "bookSide_remove s r = ?s3"
      using l True lok by (simp add: bookSide_remove_def Let_def s2_def level_ok_def)
    have v1: "heap_valid b ?s1" "heap_ordered b ?s1" using inv u by (simp_all add: side_inv_def)
    have k: "?k \<in> set (ph_levels (bs_heap s))" using inv l by (auto simp: side_inv_def dom_contents)
    have "nat (pl_index (l\<lparr>pl_orders := ?left\<rparr>)) = nat (pl_index l)" by simp
    then have rm: "heap_valid b s2" "heap_ordered b s2" "set (ph_levels (bs_heap s2)) = set (ph_levels (bs_heap s)) - {?k}"
      using heap_Remove_level [OF v1, of ?k "l\<lparr>pl_orders := ?left\<rparr>"] k by (simp_all add: s2_def)
    note d = delete_level_frame [OF rm(1), of ?k]
    have c2: "contents s2 = (contents s)(?k \<mapsto> l\<lparr>pl_orders := ?left, pl_index := 0\<rparr>)"
      using u(4) by (simp add: s2_def)
    have c3: "contents ?s3 = (contents s)(?k := None)" using d(3) rm(3) c2 by simp
    have h: "heap_valid b ?s3" "heap_array ?s3 = heap_array s2" using d rm(3) by auto
    then have "heap_ordered b ?s3" using rm(2) by (simp add: heap_ordered_def)
    with h(1) have "side_inv D b ?s3" using inv rm(3) c3 by (auto simp: side_inv_def)
    moreover have "queue ?s3 = (queue s)(?k := [])"
      by (auto simp: fun_eq_iff queue_contents c3)
    ultimately show ?thesis using eq True by simp
  qed
  then show "side_inv D b (bookSide_remove s r)"
    and "queue (bookSide_remove s r) = (queue s)(?k := filter (\<lambda>o'. ord_ID o' \<noteq> ref_element r) (queue s ?k))"
    by (auto simp: q)
qed

subsection \<open>The best level\<close>

lemma bookSide_best_correct:
  assumes inv: "side_inv D b s"
  shows "bookSide_best s = None \<longleftrightarrow> (\<forall>k. queue s k = [])"
    and "bookSide_best s = Some l \<Longrightarrow> queue s (pl_key l) = pl_orders l \<and> pl_orders l \<noteq> []"
    and "bookSide_best s = Some l \<Longrightarrow> o' \<in> set (queue s k) \<Longrightarrow>
           (if b then ord_Price o' \<le> pl_price l else pl_price l \<le> ord_Price o')"
proof -
  let ?ks = "ph_levels (bs_heap s)"
  have v: "heap_valid b s" and d: "set ?ks = dom (contents s)" and o: "heap_ordered b s"
    using inv by (simp_all add: side_inv_def)
  have q: "queue s k = [] \<longleftrightarrow> k \<notin> set ?ks" for k
    using inv by (force simp: queue_contents d side_inv_def level_ok_def split: option.splits)
  have ne: "?ks \<noteq> [] \<Longrightarrow> \<exists>l. heap_level s 0 = Some l" using v by (force simp: heap_valid_def)
  show "bookSide_best s = None \<longleftrightarrow> (\<forall>k. queue s k = [])"
    using ne by (auto simp: bookSide_best_def priceHeap_Len_def q)
  assume best: "bookSide_best s = Some l"
  then have ks: "?ks \<noteq> []" and l: "map_of (bs_levels s) (?ks ! 0) = Some l"
    by (auto simp: bookSide_best_def priceHeap_Len_def heap_level_def split: if_splits)
  have lok: "level_ok D b (?ks ! 0) l" using inv l by (rule side_inv_level)
  then show "queue s (pl_key l) = pl_orders l \<and> pl_orders l \<noteq> []"
    using l by (simp add: queue_def level_ok_def)
  assume o': "o' \<in> set (queue s k)"
  then obtain l' where l': "map_of (bs_levels s) k = Some l'" "o' \<in> set (pl_orders l')"
    by (cases "map_of (bs_levels s) k") (auto simp: queue_def)
  then have p: "ord_Price o' = pl_price l'"
    using side_inv_level [OF inv l'(1)] by (auto simp: level_ok_def order_ok_def)
  have "k \<in> set ?ks" using l' d by (auto simp: dom_contents)
  then obtain i where i: "i < length ?ks" "?ks ! i = k" by (auto simp: in_set_conv_nth)
  have "priority_le b (heap_array s ! 0) (heap_array s ! i)"
    using o i price_heap.heap_root_le [of b "heap_array s" "length (heap_array s)" i]
    by (simp add: heap_ordered_eq)
  then show "if b then ord_Price o' \<le> pl_price l else pl_price l \<le> ord_Price o'"
    using i ks l l' p by (cases b) (simp_all add: nth_heap_array priority_le_def level_price_def)
qed

section \<open>Consistency of the book\<close>

definition side_of :: "bool \<Rightarrow> 'd OrderBook \<Rightarrow> 'd bookSide" where
  "side_of b ob = (if b then ob_buys ob else ob_sells ob)"

definition put_side :: "bool \<Rightarrow> 'd bookSide \<Rightarrow> 'd OrderBook \<Rightarrow> 'd OrderBook" where
  "put_side b s ob = (if b then ob\<lparr>ob_buys := s\<rparr> else ob\<lparr>ob_sells := s\<rparr>)"

text \<open>The abstract view of a book: the queue of each side at each level key.\<close>

definition queues :: "'d OrderBook \<Rightarrow> bool \<Rightarrow> string \<Rightarrow> 'd Order list" where
  "queues ob b k = queue (side_of b ob) k"

definition mkref :: "bool \<Rightarrow> string \<Rightarrow> string \<Rightarrow> orderRef" where
  "mkref b k i = \<lparr>ref_element = i, ref_level = k, ref_side = side_name b, ref_sideBook = b\<rparr>"

text \<open>
  Both sides are consistent, and the index \<open>orders\<close> refers to exactly the orders in the queues, at
  the place where they are.
\<close>

definition ob_inv :: "'d decimal_ops \<Rightarrow> 'd::linordered_idom OrderBook \<Rightarrow> bool" where
  "ob_inv D ob \<longleftrightarrow> (\<forall>b. side_inv D b (side_of b ob)) \<and> distinct (map fst (ob_orders ob))
     \<and> (\<forall>i r. map_of (ob_orders ob) i = Some r \<longleftrightarrow> (\<exists>b k. r = mkref b k i \<and> i \<in> ord_ID ` set (queues ob b k)))"

definition ob_live :: "'d::linordered_idom OrderBook \<Rightarrow> bool" where
  "ob_live ob \<longleftrightarrow> (\<forall>b k. \<forall>o' \<in> set (queues ob b k). 0 < Remaining o')"

lemma side_of_put_side [simp]:
  "side_of b (put_side c s ob) = (if b = c then s else side_of b ob)"
  "ob_orders (put_side c s ob) = ob_orders ob"
  "ob_symbol (put_side c s ob) = ob_symbol ob"
  "side_of b (ob\<lparr>ob_orders := os\<rparr>) = side_of b ob"
  by (auto simp: side_of_def put_side_def)

lemma queues_put_side: "queues (put_side c s ob) = (queues ob)(c := queue s)"
  by (auto simp: queues_def fun_eq_iff)

lemma queues_orders [simp]: "queues (ob\<lparr>ob_orders := os\<rparr>) = queues ob"
  by (auto simp: queues_def fun_eq_iff)

lemma mkref_simps [simp]:
  "ref_element (mkref b k i) = i" "ref_level (mkref b k i) = k"
  "ref_side (mkref b k i) = side_name b" "ref_sideBook (mkref b k i) = b"
  "mkref b k i = mkref b' k' i' \<longleftrightarrow> b = b' \<and> k = k' \<and> i = i'"
  by (auto simp: mkref_def)

lemma ob_inv_sides: "ob_inv D ob \<Longrightarrow> side_inv D b (side_of b ob)"
  by (simp add: ob_inv_def)

lemma ob_inv_ref:
  "ob_inv D ob \<Longrightarrow> map_of (ob_orders ob) i = Some r \<longleftrightarrow> (\<exists>b k. r = mkref b k i \<and> i \<in> ord_ID ` set (queues ob b k))"
  by (simp add: ob_inv_def)

lemma ob_inv_no_ref:
  "ob_inv D ob \<Longrightarrow> map_of (ob_orders ob) i = None \<longleftrightarrow> (\<forall>b k. i \<notin> ord_ID ` set (queues ob b k))"
  using ob_inv_ref [of D ob i] by (metis not_None_eq)

lemma ob_inv_unique:
  assumes "ob_inv D ob" "i \<in> ord_ID ` set (queues ob b k)" "i \<in> ord_ID ` set (queues ob b' k')"
  shows "b' = b \<and> k' = k"
proof -
  have "map_of (ob_orders ob) i = Some (mkref b k i)" "map_of (ob_orders ob) i = Some (mkref b' k' i)"
    using assms ob_inv_ref by blast+
  then show ?thesis by simp
qed

lemma queue_memD:
  assumes "side_inv D b s" "o' \<in> set (queue s k)"
  shows "order_ok b (ord_Price o') o'" and "DecString D (ord_Price o') = k"
    and "\<exists>l. map_of (bs_levels s) k = Some l \<and> pl_price l = ord_Price o' \<and> pl_orders l = queue s k"
proof -
  obtain l where l: "map_of (bs_levels s) k = Some l" "o' \<in> set (pl_orders l)"
    using assms(2) by (cases "map_of (bs_levels s) k") (auto simp: queue_def)
  then have "level_ok D b k l" using assms(1) by (auto intro: side_inv_level)
  with l show "order_ok b (ord_Price o') o'" and "DecString D (ord_Price o') = k"
    and "\<exists>l. map_of (bs_levels s) k = Some l \<and> pl_price l = ord_Price o' \<and> pl_orders l = queue s k"
    by (auto simp: level_ok_def order_ok_def queue_def)
qed

lemma queue_distinct: "side_inv D b s \<Longrightarrow> distinct (map ord_ID (queue s k))"
  using side_inv_level [of D b s k] by (cases "map_of (bs_levels s) k") (auto simp: queue_def level_ok_def)

lemma side_inv_new: "side_inv D b (newBookSide b)"
  by (auto simp: side_inv_def newBookSide_def heap_valid_def heap_ordered_def heap_array_def contents_def)

lemma ob_inv_new: "ob_inv D (NewOrderBook symbol)" "ob_live (NewOrderBook symbol)"
  "queues (NewOrderBook symbol) b k = []"
proof -
  have s: "side_of b (NewOrderBook symbol) = newBookSide b" for b
    by (simp add: side_of_def NewOrderBook_def)
  have q: "queues (NewOrderBook symbol) b k = []" for b k
    by (simp add: queues_def s queue_def newBookSide_def)
  show "queues (NewOrderBook symbol) b k = []" by (rule q)
  show "ob_live (NewOrderBook symbol)" by (simp add: ob_live_def q)
  show "ob_inv D (NewOrderBook symbol)"
    unfolding ob_inv_def s q by (auto simp: side_inv_new) (simp_all add: NewOrderBook_def)
qed

subsection \<open>Adding an order to the book\<close>

definition enqueue :: "bool \<Rightarrow> string \<Rightarrow> 'd Order \<Rightarrow> (bool \<Rightarrow> string \<Rightarrow> 'd Order list) \<Rightarrow> bool \<Rightarrow> string \<Rightarrow> 'd Order list" where
  "enqueue b k o' q = (\<lambda>b' k'. if b' = b \<and> k' = k then q b k @ [o'] else q b' k')"

lemma enqueue_ids:
  "j \<in> ord_ID ` set (enqueue b k o' q b' k') \<longleftrightarrow> j \<in> ord_ID ` set (q b' k') \<or> b' = b \<and> k' = k \<and> j = ord_ID o'"
  by (auto simp: enqueue_def)

lemma addOrderLocked_side:
  assumes "TrimSpace (ord_ID o') \<noteq> ''''" "map_of (ob_orders ob) (ord_ID o') = None" "ord_Type o' \<noteq> TypeMarket"
    and "0 < Remaining o'" "normalizeSide (ord_Side o') = side_name b"
    and "bookSide_add D (side_of b ob) b o' = (s, r)"
  shows "addOrderLocked D ob (Some o') =
           Inr ((put_side b s ob)\<lparr>ob_orders := AList.update (ord_ID o') r (ob_orders ob)\<rparr>)"
  using assms by (cases b) (auto simp: addOrderLocked_def side_of_def put_side_def side_name_def)

lemma addOrderLocked_rests:
  assumes inv: "ob_inv D ob" and inj: "inj (DecString D)"
    and i: "TrimSpace (ord_ID o') \<noteq> ''''" and fresh: "map_of (ob_orders ob) (ord_ID o') = None"
    and t: "ord_Type o' \<noteq> TypeMarket" and r: "0 < Remaining o'" and b: "normalizeSide (ord_Side o') = side_name b"
  shows "\<exists>ob'. addOrderLocked D ob (Some o') = Inr ob' \<and> ob_inv D ob' \<and> ob_symbol ob' = ob_symbol ob
           \<and> queues ob' = enqueue b (DecString D (ord_Price o')) o' (queues ob)"
proof -
  let ?k = "DecString D (ord_Price o')" and ?i = "ord_ID o'"
  have nq: "?i \<notin> ord_ID ` set (queues ob b' k')" for b' k' using ob_inv_no_ref [OF inv] fresh by blast
  obtain s ref where add: "bookSide_add D (side_of b ob) b o' = (s, ref)" by fastforce
  have ok: "order_ok b (ord_Price o') o'" using i b by (simp add: order_ok_def)
  have nq': "?i \<notin> ord_ID ` set (queue (side_of b ob) ?k)" using nq [of b ?k] by (simp add: queues_def)
  note c = bookSide_add_correct [OF ob_inv_sides [OF inv] inj ok nq' add]
  let ?ob = "(put_side b s ob)\<lparr>ob_orders := AList.update ?i ref (ob_orders ob)\<rparr>"
  have q: "queues ?ob = enqueue b ?k o' (queues ob)"
    by (auto simp: queues_put_side c(2) enqueue_def fun_eq_iff queues_def)
  have ref: "ref = mkref b ?k ?i" using c(3) by (simp add: mkref_def)
  have "map_of (ob_orders ?ob) j = Some r' \<longleftrightarrow> (\<exists>b' k. r' = mkref b' k j \<and> j \<in> ord_ID ` set (queues ?ob b' k))" for j r'
    unfolding q enqueue_ids using nq ob_inv_ref [OF inv, of j r'] by (cases "j = ?i") (auto simp: ref)
  then have "ob_inv D ?ob"
    using inv c(1) unfolding ob_inv_def by (simp add: distinct_keys_update)
  then show ?thesis using addOrderLocked_side [OF i fresh t r b add] q by simp
qed

lemma addOrderLocked_cases:
  assumes inv: "ob_inv D ob" and inj: "inj (DecString D)" and add: "addOrderLocked D ob (Some o') = Inr ob'"
  shows "ob_inv D ob' \<and> ob_symbol ob' = ob_symbol ob \<and>
     (ob' = ob \<or> 0 < Remaining o' \<and> (\<exists>b. normalizeSide (ord_Side o') = side_name b \<and>
        queues ob' = enqueue b (DecString D (ord_Price o')) o' (queues ob)))"
proof (cases "map_of (ob_orders ob) (ord_ID o') \<noteq> None \<or> ord_Type o' = TypeMarket \<or> Remaining o' \<le> 0")
  case True
  then have "ob' = ob" using add by (auto simp: addOrderLocked_def split: if_splits)
  then show ?thesis using inv by simp
next
  case False
  moreover have "TrimSpace (ord_ID o') \<noteq> ''''" using add by (auto simp: addOrderLocked_def)
  moreover obtain b where "normalizeSide (ord_Side o') = side_name b"
    using add False by (force simp: addOrderLocked_def Let_def side_name_def split: if_splits)
  ultimately show ?thesis
    using addOrderLocked_rests [OF inv inj, of o' b] add by auto
qed

lemma addOrderLocked_live:
  assumes "ob_inv D ob" "inj (DecString D)" "addOrderLocked D ob (Some o') = Inr ob'" "ob_live ob"
  shows "ob_live ob'"
proof (cases "ob' = ob")
  case False
  then obtain b where "0 < Remaining o'" "queues ob' = enqueue b (DecString D (ord_Price o')) o' (queues ob)"
    using addOrderLocked_cases [OF assms(1-3)] by blast
  then show ?thesis using assms(4) by (auto simp: ob_live_def enqueue_def)
qed (use assms(4) in simp)

subsection \<open>Removing an order from the book\<close>

definition without :: "string \<Rightarrow> (bool \<Rightarrow> string \<Rightarrow> 'd Order list) \<Rightarrow> bool \<Rightarrow> string \<Rightarrow> 'd Order list" where
  "without i q = (\<lambda>b k. filter (\<lambda>o'. ord_ID o' \<noteq> i) (q b k))"

lemma filter_absent: "i \<notin> ord_ID ` set os \<Longrightarrow> filter (\<lambda>o'. ord_ID o' \<noteq> i) os = os"
  by (induction os) auto

lemma without_absent: "(\<And>b k. i \<notin> ord_ID ` set (q b k)) \<Longrightarrow> without i q = q"
  by (simp add: without_def filter_absent)

lemma removeOrderLocked_correct:
  assumes inv: "ob_inv D ob" and rm: "removeOrderLocked ob i = (ok, ob')"
  shows "ob_inv D ob'" and "queues ob' = without i (queues ob)" and "ob_symbol ob' = ob_symbol ob"
    and "ok \<longleftrightarrow> (\<exists>b k. i \<in> ord_ID ` set (queues ob b k))"
proof -
  have "ob_inv D ob' \<and> queues ob' = without i (queues ob) \<and> ob_symbol ob' = ob_symbol ob \<and>
     (ok \<longleftrightarrow> (\<exists>b k. i \<in> ord_ID ` set (queues ob b k)))"
  proof (cases "map_of (ob_orders ob) i")
    case None
    then have nq: "i \<notin> ord_ID ` set (queues ob b k)" for b k using ob_inv_no_ref [OF inv] by blast
    moreover have "ob' = ob \<and> \<not> ok" using rm None by (auto simp: removeOrderLocked_def split: if_splits)
    ultimately show ?thesis using inv without_absent [of i "queues ob"] by auto
  next
    case (Some r)
    then obtain b k where r: "r = mkref b k i" and i: "i \<in> ord_ID ` set (queues ob b k)"
      using ob_inv_ref [OF inv] by blast
    then obtain x where x: "x \<in> set (queue (side_of b ob) k)" "ord_ID x = i" by (auto simp: queues_def)
    note s = ob_inv_sides [OF inv, of b]
    have t: "TrimSpace i \<noteq> ''''" using queue_memD(1) [OF s x(1)] x(2) by (simp add: order_ok_def)
    obtain l where l: "map_of (bs_levels (side_of b ob)) k = Some l" using queue_memD(3) [OF s x(1)] by blast
    let ?s = "bookSide_remove (side_of b ob) r"
    have c: "side_inv D b ?s" "queue ?s = (queue (side_of b ob))(k := filter (\<lambda>o'. ord_ID o' \<noteq> i) (queue (side_of b ob) k))"
      using bookSide_remove_correct [OF s, of r l] l r by simp_all
    have ob': "ob' = (put_side b ?s ob)\<lparr>ob_orders := AList.delete i (ob_orders ob)\<rparr>" and ok
      using rm t Some r by (cases b; simp add: removeOrderLocked_def Let_def side_of_def put_side_def)+
    have nq: "filter (\<lambda>o'. ord_ID o' \<noteq> i) (queues ob b' k') = queues ob b' k'" if "\<not> (b' = b \<and> k' = k)" for b' k'
      using ob_inv_unique [OF inv i, of b' k'] that by (intro filter_absent) blast
    have q: "queues ob' = without i (queues ob)"
      unfolding fun_eq_iff without_def ob' using nq by (simp add: queues_put_side c(2) queues_def)
    have "map_of (ob_orders ob') j = Some r' \<longleftrightarrow> (\<exists>b k. r' = mkref b k j \<and> j \<in> ord_ID ` set (queues ob' b k))" for j r'
    proof -
      have "map_of (ob_orders ob') = (map_of (ob_orders ob))(i := None)" by (simp add: ob')
      then show ?thesis using ob_inv_ref [OF inv, of j r'] unfolding q without_def by (cases "j = i") auto
    qed
    then have "ob_inv D ob'"
      using inv c(1) unfolding ob_inv_def ob' by (simp add: distinct_keys_delete)
    then show ?thesis using q i \<open>ok\<close> by (auto simp: ob')
  qed
  then show "ob_inv D ob'" and "queues ob' = without i (queues ob)" and "ob_symbol ob' = ob_symbol ob"
    and "ok \<longleftrightarrow> (\<exists>b k. i \<in> ord_ID ` set (queues ob b k))" by blast+
qed

subsection \<open>Writing to a resting order\<close>

text \<open>
  \<open>maker.Filled = maker.Filled.Add(q)\<close> through the pointer held by the queue of level \<open>k\<close>.
\<close>

definition addFilled :: "'d \<Rightarrow> 'd::linordered_idom Order \<Rightarrow> 'd Order" where
  "addFilled q o' = o'\<lparr>ord_Filled := ord_Filled o' + q\<rparr>"

definition fillMaker :: "bool \<Rightarrow> string \<Rightarrow> string \<Rightarrow> 'd::linordered_idom \<Rightarrow> 'd OrderBook \<Rightarrow> 'd OrderBook" where
  "fillMaker b k i q ob =
     (case map_of (bs_levels (side_of b ob)) k of
        None \<Rightarrow> ob
      | Some l \<Rightarrow>
          let os = map (\<lambda>o'. if ord_ID o' = i then addFilled q o' else o') (pl_orders l);
              s = side_of b ob
          in put_side b (s\<lparr>bs_levels := AList.update k (l\<lparr>pl_orders := os\<rparr>) (bs_levels s)\<rparr>) ob)"

lemma addFilled_simps [simp]:
  "ord_ID (addFilled q o') = ord_ID o'" "ord_Price (addFilled q o') = ord_Price o'"
  "ord_Side (addFilled q o') = ord_Side o'" "ord_AccountID (addFilled q o') = ord_AccountID o'"
  "Remaining (addFilled q o') = Remaining o' - q" "order_ok b p (addFilled q o') = order_ok b p o'"
  by (simp_all add: addFilled_def Remaining_def order_ok_def)

lemma fillMaker_correct:
  assumes inv: "ob_inv D ob"
  shows "ob_inv D (fillMaker b k i q ob)"
    and "queues (fillMaker b k i q ob) = (queues ob)(b := (queues ob b)(k :=
           map (\<lambda>o'. if ord_ID o' = i then addFilled q o' else o') (queues ob b k)))"
    and "ob_symbol (fillMaker b k i q ob) = ob_symbol ob"
proof -
  let ?f = "\<lambda>o'. if ord_ID o' = i then addFilled q o' else o'" and ?s = "side_of b ob"
  let ?ob = "fillMaker b k i q ob"
  have "ob_inv D ?ob \<and> queues ?ob = (queues ob)(b := (queues ob b)(k := map ?f (queues ob b k))) \<and> ob_symbol ?ob = ob_symbol ob"
  proof (cases "map_of (bs_levels ?s) k")
    case None
    then have "?ob = ob" by (simp add: fillMaker_def)
    moreover have "map ?f (queues ob b k) = queues ob b k" using None by (simp add: queues_def queue_def)
    ultimately show ?thesis using inv by simp
  next
    case (Some l)
    let ?s' = "?s\<lparr>bs_levels := AList.update k (l\<lparr>pl_orders := map ?f (pl_orders l)\<rparr>) (bs_levels ?s)\<rparr>"
    have ob: "?ob = put_side b ?s' ob" using Some by (simp add: fillMaker_def Let_def)
    have l: "level_ok D b k l" using ob_inv_sides [OF inv] Some by (rule side_inv_level)
    have i: "map ord_ID (map ?f os) = map ord_ID os" for os :: "'a Order list" by simp
    have s': "side_inv D b ?s'"
      using l by (intro side_inv_update_orders [OF ob_inv_sides [OF inv] Some]) (auto simp: level_ok_def i simp del: map_map)
    have pl: "queues ob b k = pl_orders l" using Some by (simp add: queues_def queue_def)
    have q: "queues ?ob = (queues ob)(b := (queues ob b)(k := map ?f (queues ob b k)))"
      unfolding ob queues_put_side update_orders_frame(5) [OF Some] pl by (simp add: queues_def fun_eq_iff)
    have ids: "ord_ID ` set (queues ?ob b' k') = ord_ID ` set (queues ob b' k')" for b' k'
    proof -
      have "ord_ID ` set (map ?f os) = ord_ID ` set os" for os :: "'a Order list"
        unfolding set_map image_image by (rule image_cong) simp_all
      then show ?thesis by (simp add: q del: set_map)
    qed
    show ?thesis using inv s' q ids unfolding ob_inv_def by (simp add: ob)
  qed
  then show "ob_inv D ?ob" and "queues ?ob = (queues ob)(b := (queues ob b)(k := map ?f (queues ob b k)))"
    and "ob_symbol ?ob = ob_symbol ob" by blast+
qed

section \<open>The contract the matcher and the engine rely on\<close>

text \<open>
  A store of resting orders, seen through its queues: adding enqueues at the back of one queue,
  removing takes an order out of whatever queue it is in.
\<close>

locale order_store =
  fixes inv :: "'b \<Rightarrow> bool"
    and view :: "'b \<Rightarrow> bool \<Rightarrow> string \<Rightarrow> 'd Order list"
    and add :: "'b \<Rightarrow> 'd Order option \<Rightarrow> go_error + 'b"
    and remove :: "'b \<Rightarrow> string \<Rightarrow> bool \<times> 'b"
    and key :: "'d Order \<Rightarrow> string"
    and accepts :: "bool \<Rightarrow> 'd Order \<Rightarrow> bool"
  assumes inv_remove: "inv s \<Longrightarrow> inv (snd (remove s i))"
    and view_remove: "inv s \<Longrightarrow> view (snd (remove s i)) = without i (view s)"
    and found_remove: "inv s \<Longrightarrow> fst (remove s i) \<longleftrightarrow> (\<exists>b k. i \<in> ord_ID ` set (view s b k))"
    and add_accepted: "inv s \<Longrightarrow> accepts b x \<Longrightarrow> (\<And>b k. ord_ID x \<notin> ord_ID ` set (view s b k)) \<Longrightarrow>
          \<exists>s'. add s (Some x) = Inr s' \<and> inv s' \<and> view s' = enqueue b (key x) x (view s)"
begin

lemma remove_all:
  assumes "inv s"
  shows "inv (fold (\<lambda>i s. snd (remove s i)) js s)"
    and "view (fold (\<lambda>i s. snd (remove s i)) js s) = (\<lambda>b k. filter (\<lambda>x. ord_ID x \<notin> set js) (view s b k))"
  using assms
proof (induction js arbitrary: s)
  case (Cons i js)
  { case 1 then show ?case using Cons.IH(1) inv_remove by simp }
  { case 2 then show ?case
      using Cons.IH(2) [of "snd (remove s i)"] inv_remove view_remove
      by (auto simp: without_def fun_eq_iff intro!: filter_cong) }
qed simp_all

lemma remove_gone: "inv s \<Longrightarrow> \<not> fst (remove (snd (remove s i)) i)"
  by (auto simp: found_remove inv_remove view_remove without_def)

lemma add_remove:
  assumes "inv s" "accepts b x" "\<And>b k. ord_ID x \<notin> ord_ID ` set (view s b k)"
  shows "\<exists>s' s''. add s (Some x) = Inr s' \<and> remove s' (ord_ID x) = (True, s'') \<and> inv s'' \<and> view s'' = view s"
proof -
  obtain s' where s': "add s (Some x) = Inr s'" "inv s'" "view s' = enqueue b (key x) x (view s)"
    using add_accepted assms by blast
  have "ord_ID x \<in> ord_ID ` set (view s' b (key x))" by (simp add: s'(3) enqueue_def)
  then have "fst (remove s' (ord_ID x))" using found_remove [OF s'(2)] by blast
  moreover have "without (ord_ID x) (enqueue b (key x) x (view s)) = view s"
  proof -
    have "without (ord_ID x) (view s) = view s" by (rule without_absent) (rule assms(3))
    then have "filter (\<lambda>y. ord_ID y \<noteq> ord_ID x) (view s b k) = view s b k" for b k
      unfolding without_def fun_eq_iff by simp
    then show ?thesis by (auto simp: fun_eq_iff without_def enqueue_def)
  qed
  ultimately show ?thesis
    using s' inv_remove [OF s'(2)] view_remove [OF s'(2)] by (metis prod.collapse)
qed

end

text \<open>Which orders \<open>addOrderLocked\<close> lets rest, and on which side.\<close>

definition restable :: "bool \<Rightarrow> 'd::linordered_idom Order \<Rightarrow> bool" where
  "restable b o' \<longleftrightarrow> TrimSpace (ord_ID o') \<noteq> '''' \<and> ord_Type o' \<noteq> TypeMarket \<and> 0 < Remaining o'
     \<and> normalizeSide (ord_Side o') = side_name b"

interpretation book: order_store "\<lambda>ob. ob_inv D ob \<and> inj (DecString D)" queues "addOrderLocked D" removeOrderLocked
    "\<lambda>o'. DecString D (ord_Price o')" restable for D
proof (unfold_locales, goal_cases)
  case 1 then show ?case using removeOrderLocked_correct by (metis prod.collapse)
next
  case 2 then show ?case using removeOrderLocked_correct by (metis prod.collapse)
next
  case 3 then show ?case using removeOrderLocked_correct by (metis prod.collapse)
next
  case 4 then show ?case
    using ob_inv_no_ref addOrderLocked_rests unfolding restable_def by metis
qed

text \<open>Orders in whole units, to apply the theorems to.\<close>

definition sample_order :: "string \<Rightarrow> string \<Rightarrow> string \<Rightarrow> int \<Rightarrow> int \<Rightarrow> int Order" where
  "sample_order i acct side price qty =
     \<lparr>ord_ID = i, ord_ClientOrderID = '''', ord_AccountID = acct, ord_Symbol = ''BTC-USD'', ord_Side = side,
      ord_Type = TypeLimit, ord_Price = price, ord_Quantity = qty, ord_Filled = 0, ord_TimeInForce = TIFGTC,
      ord_CreatedAt = 0\<rparr>"

lemma sample_order_simps [simp]:
  "ord_ID (sample_order i a s p q) = i" "ord_AccountID (sample_order i a s p q) = a"
  "ord_Side (sample_order i a s p q) = s" "ord_Price (sample_order i a s p q) = p"
  "ord_Type (sample_order i a s p q) = TypeLimit" "ord_TimeInForce (sample_order i a s p q) = TIFGTC"
  "ord_Symbol (sample_order i a s p q) = ''BTC-USD''" "Remaining (sample_order i a s p q) = q"
  "ord_Quantity (sample_order i a s p q) = q"
  by (simp_all add: sample_order_def Remaining_def)

lemma normalize_consts [simp]:
  "normalizeSide SideBuy = SideBuy" "normalizeSide SideSell = SideSell"
  "normalizeType TypeLimit = TypeLimit" "normalizeType TypeMarket = TypeMarket"
  "normalizeTIF TIFGTC = TIFGTC" "normalizeTIF TIFIOC = TIFIOC" "normalizeTIF TIFFOK = TIFFOK"
  by code_simp+

lemma sample_order_restable [simp]:
  "TrimSpace i \<noteq> '''' \<Longrightarrow> 0 < q \<Longrightarrow> restable b (sample_order i a (side_name b) p q)"
  by (auto simp: restable_def side_name_def)

text \<open>A book with one bid, one ask and a second order behind the bid.\<close>

definition sample_book :: "int OrderBook" where
  "sample_book =
     fold (\<lambda>o' ob. case AddOrder int_decimal ob (Some o') of Inr ob' \<Rightarrow> ob' | Inl _ \<Rightarrow> ob)
       [sample_order ''b1'' ''alice'' ''buy'' 100 5, sample_order ''b2'' ''bob'' ''buy'' 100 7,
        sample_order ''s1'' ''carol'' ''sell'' 110 4]
       (NewOrderBook ''BTC-USD'')"

lemma sample_book_inv: "ob_inv int_decimal sample_book" "ob_live sample_book"
proof -
  have keep: "ob_inv int_decimal ob' \<and> ob_live ob'"
    if "ob_inv int_decimal ob \<and> ob_live ob" "ob' = (case AddOrder int_decimal ob (Some o') of Inr ob1 \<Rightarrow> ob1 | Inl _ \<Rightarrow> ob)"
    for ob ob' :: "int OrderBook" and o'
  proof (cases "addOrderLocked int_decimal ob (Some o')")
    case (Inr ob1)
    then show ?thesis
      using addOrderLocked_cases [of int_decimal ob o' ob1] addOrderLocked_live [of int_decimal ob o' ob1] that
      by (simp add: AddOrder_def)
  qed (use that in \<open>simp add: AddOrder_def\<close>)
  have "ob_inv int_decimal sample_book \<and> ob_live sample_book"
    unfolding sample_book_def fold.simps comp_def id_def by (intro keep [OF _ refl] conjI ob_inv_new)
  then show "ob_inv int_decimal sample_book" "ob_live sample_book" by simp_all
qed

lemma sample_book_eval:
  "bookSide_best (ob_buys sample_book) = Some \<lparr>pl_price = 100, pl_key = ''100'',
     pl_orders = [sample_order ''b1'' ''alice'' ''buy'' 100 5, sample_order ''b2'' ''bob'' ''buy'' 100 7], pl_index = 0\<rparr>"
  "queues sample_book True ''100'' = [sample_order ''b1'' ''alice'' ''buy'' 100 5, sample_order ''b2'' ''bob'' ''buy'' 100 7]"
  "RemoveOrder sample_book ''b1'' = (True, snd (RemoveOrder sample_book ''b1''))"
  by code_simp+

section \<open>Properties of the book\<close>

text \<open>
  On a consistent book \<open>AddOrder\<close> fails only for a blank ID or an invalid side; otherwise the
  book stays consistent, and an order that can rest and is not yet known goes to the back of the
  queue of its price, while any other order leaves the book as it was.
\<close>

theorem AddOrder_enqueues:
  assumes "ob_inv D ob" "inj (DecString D)"
  shows "case AddOrder D ob (Some o') of
           Inl e \<Rightarrow> TrimSpace (ord_ID o') = '''' \<or> normalizeSide (ord_Side o') = ''''
         | Inr ob' \<Rightarrow> ob_inv D ob' \<and>
             (if (restable True o' \<or> restable False o') \<and> (\<forall>b k. ord_ID o' \<notin> ord_ID ` set (queues ob b k))
              then queues ob' = enqueue (normalizeSide (ord_Side o') = SideBuy) (DecString D (ord_Price o')) o' (queues ob)
              else ob' = ob)"
proof (cases "(\<exists>b. restable b o') \<and> (\<forall>b k. ord_ID o' \<notin> ord_ID ` set (queues ob b k))")
  case True
  then obtain b where b: "restable b o'" by blast
  then have "(normalizeSide (ord_Side o') = SideBuy) = b" by (auto simp: restable_def side_name_def)
  moreover have "\<exists>ob'. addOrderLocked D ob (Some o') = Inr ob' \<and> (ob_inv D ob' \<and> inj (DecString D))
      \<and> queues ob' = enqueue b (DecString D (ord_Price o')) o' (queues ob)"
    using book.add_accepted [of D ob b o'] assms True b by blast
  moreover have "restable True o' \<or> restable False o'" using b by (cases b) auto
  ultimately show ?thesis using True by (auto simp: AddOrder_def)
next
  case False
  have "ob' = ob" if add: "addOrderLocked D ob (Some o') = Inr ob'" for ob'
  proof (rule ccontr)
    assume "ob' \<noteq> ob"
    with add have "map_of (ob_orders ob) (ord_ID o') = None \<and> (restable True o' \<or> restable False o')"
      by (auto simp: addOrderLocked_def restable_def side_name_def Let_def split: if_splits)
    then show False using False ob_inv_no_ref [OF assms(1)] by blast
  qed
  moreover have "TrimSpace (ord_ID o') = '''' \<or> normalizeSide (ord_Side o') = ''''"
    if "addOrderLocked D ob (Some o') = Inl e" for e
    using that by (auto simp: addOrderLocked_def normalizeSide_def Let_def split: if_splits prod.splits)
  ultimately show ?thesis using False assms(1)
    by (cases "addOrderLocked D ob (Some o')") (auto simp: AddOrder_def)
qed

theorem AddOrder_enqueues_witness:
  "case AddOrder int_decimal (NewOrderBook ''BTC-USD'') (Some (sample_order ''o1'' ''a1'' ''buy'' 100 5)) of
     Inl e \<Rightarrow> False
   | Inr ob \<Rightarrow> queues ob True ''100'' = [sample_order ''o1'' ''a1'' ''buy'' 100 5]"
proof -
  have k: "int_string 100 = ''100''" "TrimSpace ''o1'' = ''o1''" by code_simp+
  then have r: "restable True (sample_order ''o1'' ''a1'' ''buy'' 100 5)"
    using sample_order_restable [of "''o1''" 5 True] by (simp add: side_name_def)
  show ?thesis
    using AddOrder_enqueues [of int_decimal "NewOrderBook ''BTC-USD''" "sample_order ''o1'' ''a1'' ''buy'' 100 5"] r
    by (auto simp: ob_inv_new k enqueue_def split: sum.splits)
qed

text \<open>
  \<open>RemoveOrder\<close> keeps a consistent book consistent, answers whether the order was resting, and
  takes it, and nothing else, out of the queues.
\<close>

theorem RemoveOrder_removes:
  assumes "ob_inv D ob" "RemoveOrder ob i = (ok, ob')"
  shows "ob_inv D ob' \<and> (ok \<longleftrightarrow> (\<exists>b k. i \<in> ord_ID ` set (queues ob b k)))
     \<and> (\<forall>b k. queues ob' b k = filter (\<lambda>o'. ord_ID o' \<noteq> i) (queues ob b k))"
  using removeOrderLocked_correct [OF assms(1), of i ok ob'] assms(2) by (simp add: RemoveOrder_def without_def)

theorem RemoveOrder_removes_witness:
  "RemoveOrder sample_book ''b1'' = (True, snd (RemoveOrder sample_book ''b1''))
     \<and> queues (snd (RemoveOrder sample_book ''b1'')) True ''100'' = [sample_order ''b2'' ''bob'' ''buy'' 100 7]"
  using RemoveOrder_removes [OF sample_book_inv(1) sample_book_eval(3)] sample_book_eval(2,3) by simp

text \<open>
  Adding a resting order and removing it again succeeds and gives back every queue as it was.
\<close>

theorem AddOrder_RemoveOrder:
  assumes "ob_inv D ob" "inj (DecString D)" "restable b o'" "\<And>b k. ord_ID o' \<notin> ord_ID ` set (queues ob b k)"
  shows "\<exists>ob1 ob2. AddOrder D ob (Some o') = Inr ob1 \<and> RemoveOrder ob1 (ord_ID o') = (True, ob2)
     \<and> ob_inv D ob2 \<and> queues ob2 = queues ob"
  using book.add_remove [of D ob b o'] assms by (auto simp: AddOrder_def RemoveOrder_def)

theorem AddOrder_RemoveOrder_witness:
  "\<exists>ob1 ob2. AddOrder int_decimal (NewOrderBook ''BTC-USD'') (Some (sample_order ''o1'' ''a1'' ''sell'' 100 5)) = Inr ob1
     \<and> RemoveOrder ob1 ''o1'' = (True, ob2) \<and> ob_inv int_decimal ob2 \<and> queues ob2 = queues (NewOrderBook ''BTC-USD'')"
proof -
  have "TrimSpace ''o1'' = ''o1''" by code_simp
  then have "restable False (sample_order ''o1'' ''a1'' ''sell'' 100 5)"
    using sample_order_restable [of "''o1''" 5 False] by (simp add: side_name_def)
  then show ?thesis
    using AddOrder_RemoveOrder [of int_decimal "NewOrderBook ''BTC-USD''" False "sample_order ''o1'' ''a1'' ''sell'' 100 5"]
    by (simp add: ob_inv_new)
qed

text \<open>
  The heap root is the best price: \<open>BestBid\<close> and \<open>BestAsk\<close> return nothing exactly when their
  side is empty, otherwise a non-empty level, and no resting order of that side has a better price.
\<close>

theorem Best_prices:
  assumes "ob_inv D ob"
  shows "(BestBid ob = None \<longleftrightarrow> (\<forall>k. queues ob True k = []))
     \<and> (BestAsk ob = None \<longleftrightarrow> (\<forall>k. queues ob False k = []))
     \<and> (\<forall>l. BestBid ob = Some l \<longrightarrow> queues ob True (pl_key l) = pl_orders l \<and> pl_orders l \<noteq> []
          \<and> (\<forall>o' k. o' \<in> set (queues ob True k) \<longrightarrow> ord_Price o' \<le> pl_price l))
     \<and> (\<forall>l. BestAsk ob = Some l \<longrightarrow> queues ob False (pl_key l) = pl_orders l \<and> pl_orders l \<noteq> []
          \<and> (\<forall>o' k. o' \<in> set (queues ob False k) \<longrightarrow> pl_price l \<le> ord_Price o'))"
proof -
  have b: "bookSide_best (side_of b ob) = None \<longleftrightarrow> (\<forall>k. queues ob b k = [])"
    and "bookSide_best (side_of b ob) = Some l \<Longrightarrow> queues ob b (pl_key l) = pl_orders l \<and> pl_orders l \<noteq> []"
    and "bookSide_best (side_of b ob) = Some l \<Longrightarrow> o' \<in> set (queues ob b k) \<Longrightarrow>
      (if b then ord_Price o' \<le> pl_price l else pl_price l \<le> ord_Price o')" for b l o' k
    using bookSide_best_correct [OF ob_inv_sides [OF assms, of b]] by (auto simp: queues_def)
  note bid = this [of True] and ask = this [of False]
  have "BestBid ob = bookSide_best (side_of True ob)" "BestAsk ob = bookSide_best (side_of False ob)"
    by (simp_all add: BestBid_def BestAsk_def side_of_def)
  then show ?thesis using bid ask by auto
qed

theorem Best_prices_witness:
  "map_option pl_price (BestBid sample_book) = Some 100 \<and> list_all (\<lambda>o'. ord_Price o' \<le> 100) (queues sample_book True ''100'')"
  using Best_prices [OF sample_book_inv(1)] sample_book_eval(1) by (simp add: BestBid_def list_all_iff)

end
