(* ===== verification/Matcher.thy ===== *)
theory Matcher
  imports Order_Book
begin

text \<open>
  The matching algorithm of \<^verbatim>\<open>services/matching/internal/engine/matcher.go\<close>: \<open>MatchOrder\<close> with its loops
  over the opposite side's levels and their queues, the fill-or-kill check \<open>canFill\<close> and the order
  checks. The specification is a greedy walk over the orders of other accounts in price-time order;
  \<open>MatchOrder\<close> is proved to produce exactly that walk's fills, and the book it leaves behind is
  described queue by queue.
\<close>

section \<open>The algorithm\<close>

definition minDecimal :: "'d::linordered_idom \<Rightarrow> 'd \<Rightarrow> 'd" where
  "minDecimal a b = (if a \<le> b then a else b)"

definition priceCrosses :: "'d::linordered_idom Order \<Rightarrow> 'd \<Rightarrow> bool" where
  "priceCrosses incoming makerPrice =
     (let orderType = normalizeType (ord_Type incoming) in
      if orderType = TypeMarket then True
      else let side = normalizeSide (ord_Side incoming) in
        if side = SideBuy then makerPrice \<le> ord_Price incoming
        else if side = SideSell then makerPrice \<ge> ord_Price incoming
        else False)"

definition validateOrderFields :: "'d::linordered_idom Order option \<Rightarrow> go_error option" where
  "validateOrderFields order =
     (case order of
        None \<Rightarrow> Some (Errorf ''order required'' [])
      | Some o' \<Rightarrow>
          if TrimSpace (ord_ID o') = '''' then Some (Errorf ''order id required'' [])
          else if TrimSpace (ord_Symbol o') = '''' then Some (Errorf ''symbol required'' [])
          else if normalizeSide (ord_Side o') = '''' then Some (Errorf ''invalid side'' [])
          else if normalizeType (ord_Type o') = '''' then Some (Errorf ''invalid type'' [])
          else if ord_Quantity o' \<le> 0 then Some (Errorf ''quantity must be positive'' [])
          else if normalizeType (ord_Type o') = TypeLimit \<and> ord_Price o' \<le> 0
               then Some (Errorf ''price must be positive for limit'' [])
          else None)"

text \<open>
  The snapshot of the levels, sorted best price first. The code copies the pointers of the map
  (in Go's arbitrary order) and sorts them by price; level prices are distinct, so the result does
  not depend on that order.
\<close>

definition sortedLevels :: "string \<Rightarrow> 'd::linordered_idom bookSide \<Rightarrow> 'd priceLevel list" where
  "sortedLevels side s =
     (if side = SideBuy then sort_key pl_price (map snd (bs_levels s))
      else sort_key (\<lambda>l. - pl_price l) (map snd (bs_levels s)))"

definition sameAccount :: "'d Order \<Rightarrow> 'd Order \<Rightarrow> bool" where
  "sameAccount incoming maker \<longleftrightarrow> ord_AccountID maker \<noteq> '''' \<and> ord_AccountID maker = ord_AccountID incoming"

fun canFill_orders :: "'d::linordered_idom Order \<Rightarrow> 'd \<Rightarrow> 'd Order list \<Rightarrow> 'd" where
  "canFill_orders incoming remaining [] = remaining"
| "canFill_orders incoming remaining (maker # rest) =
     (if \<not> remaining > 0 then remaining
      else if sameAccount incoming maker then canFill_orders incoming remaining rest
      else let makerRemaining = Remaining maker in
        if makerRemaining \<le> 0 then canFill_orders incoming remaining rest
        else canFill_orders incoming (remaining - makerRemaining) rest)"

fun canFill_levels :: "'d::linordered_idom Order \<Rightarrow> 'd \<Rightarrow> 'd priceLevel list \<Rightarrow> bool" where
  "canFill_levels incoming remaining [] \<longleftrightarrow> remaining \<le> 0"
| "canFill_levels incoming remaining (level # rest) \<longleftrightarrow>
     (if \<not> priceCrosses incoming (pl_price level) then remaining \<le> 0
      else let remaining' = canFill_orders incoming remaining (pl_orders level) in
        if remaining' \<le> 0 then True else canFill_levels incoming remaining' rest)"

definition canFill :: "'d::linordered_idom OrderBook \<Rightarrow> 'd Order \<Rightarrow> bool" where
  "canFill ob incoming =
     (let side = normalizeSide (ord_Side incoming); orderType = normalizeType (ord_Type incoming) in
      if side = '''' \<or> orderType = '''' then False
      else let opposite = (if side = SideSell then ob_buys ob else ob_sells ob) in
        canFill_levels incoming (Remaining incoming) (sortedLevels side opposite))"

text \<open>
  The state the loops of \<open>MatchOrder\<close> work on. The variable \<open>remaining\<close> is not kept: the code
  sets it to \<open>incoming.Remaining()\<close> at the start and after each fill. The \<open>n\<close>-th trade is stamped
  with the \<open>n\<close>-th reading of the clock.
\<close>

record 'd match_state =
  ms_book :: "'d OrderBook"
  ms_incoming :: "'d Order"
  ms_trades :: "'d Trade list"

fun scanSelf :: "'d::linordered_idom Order \<Rightarrow> bool \<Rightarrow> 'd Order list \<Rightarrow> bool \<times> bool" where
  "scanSelf incoming hasSelf [] = (hasSelf, False)"
| "scanSelf incoming hasSelf (maker # rest) =
     (if Remaining maker \<le> 0 then scanSelf incoming hasSelf rest
      else if sameAccount incoming maker then scanSelf incoming True rest
      else (hasSelf, True))"

definition removeSelf :: "'d::linordered_idom Order \<Rightarrow> 'd Order list \<Rightarrow> 'd OrderBook \<Rightarrow> 'd OrderBook" where
  "removeSelf incoming orders ob =
     fold (\<lambda>maker ob. if sameAccount incoming maker then snd (removeOrderLocked ob (ord_ID maker)) else ob) orders ob"

definition mkTrade :: "(nat \<Rightarrow> time) \<Rightarrow> nat \<Rightarrow> 'd Order \<Rightarrow> 'd \<Rightarrow> 'd Order \<Rightarrow> 'd \<Rightarrow> 'd Trade" where
  "mkTrade clk n incoming price maker qty =
     \<lparr>tr_TradeID = '''', tr_Symbol = ord_Symbol incoming, tr_MakerOrderID = ord_ID maker,
      tr_TakerOrderID = ord_ID incoming, tr_Price = price, tr_Quantity = qty,
      tr_MakerSide = ord_Side maker, tr_ExecutedAt = clk n\<rparr>"

text \<open>
  The loop over one level's queue. Each element is read, and perhaps filled or removed, only when
  the loop stands on it, so the list is the queue as the loop entered it; \<open>b\<close> is the side the
  makers rest on.
\<close>

fun matchOrders ::
  "(nat \<Rightarrow> time) \<Rightarrow> bool \<Rightarrow> 'd::linordered_idom priceLevel \<Rightarrow> 'd Order list \<Rightarrow> 'd match_state \<Rightarrow> 'd match_state" where
  "matchOrders clk b level [] st = st"
| "matchOrders clk b level (maker # rest) st =
     (let incoming = ms_incoming st; remaining = Remaining incoming; makerRemaining = Remaining maker in
      if \<not> remaining > 0 then st
      else if makerRemaining \<le> 0
           then matchOrders clk b level rest (st\<lparr>ms_book := snd (removeOrderLocked (ms_book st) (ord_ID maker))\<rparr>)
      else if sameAccount incoming maker then matchOrders clk b level rest st
      else
        let matchQty = minDecimal remaining makerRemaining;
            book1 = fillMaker b (pl_key level) (ord_ID maker) matchQty (ms_book st);
            maker1 = addFilled matchQty maker;
            trade = mkTrade clk (length (ms_trades st)) incoming (pl_price level) maker matchQty;
            book2 = (if Remaining maker1 \<le> 0 then snd (removeOrderLocked book1 (ord_ID maker)) else book1)
        in matchOrders clk b level rest
             \<lparr>ms_book = book2, ms_incoming = addFilled matchQty incoming, ms_trades = ms_trades st @ [trade]\<rparr>)"

fun matchLevels ::
  "(nat \<Rightarrow> time) \<Rightarrow> bool \<Rightarrow> 'd::linordered_idom priceLevel list \<Rightarrow> 'd match_state \<Rightarrow> 'd match_state" where
  "matchLevels clk b [] st = st"
| "matchLevels clk b (level # rest) st =
     (let incoming = ms_incoming st in
      if Remaining incoming \<le> 0 then st
      else if \<not> priceCrosses incoming (pl_price level) then st
      else
        let orders = queue (side_of b (ms_book st)) (pl_key level);
            (hasSelf, hasOther) = scanSelf incoming False orders
        in if hasSelf \<and> \<not> hasOther
           then matchLevels clk b rest (st\<lparr>ms_book := removeSelf incoming orders (ms_book st)\<rparr>)
           else matchLevels clk b rest (matchOrders clk b level orders st))"

text \<open>
  \<open>MatchOrder\<close> returns the trades and the error; the book and the incoming order, which it
  updates in place, are returned as they are afterwards.
\<close>

definition MatchOrder ::
  "'d decimal_ops \<Rightarrow> (nat \<Rightarrow> time) \<Rightarrow> 'd::linordered_idom OrderBook \<Rightarrow> 'd Order option \<Rightarrow>
   'd Trade list \<times> go_error option \<times> 'd OrderBook \<times> 'd Order option" where
  "MatchOrder D clk ob incoming =
     (case incoming of
        None \<Rightarrow> ([], Some (Errorf ''order required'' []), ob, None)
      | Some inc0 \<Rightarrow>
          let side = normalizeSide (ord_Side inc0); orderType = normalizeType (ord_Type inc0) in
          if side = '''' then ([], Some (Errorf ''invalid side'' []), ob, Some inc0)
          else if orderType = '''' then ([], Some (Errorf ''invalid order type'' []), ob, Some inc0)
          else let inc = inc0\<lparr>ord_TimeInForce := normalizeTIF (ord_TimeInForce inc0)\<rparr> in
            if ord_Quantity inc \<le> 0 then ([], Some (Errorf ''quantity must be positive'' []), ob, Some inc)
            else if orderType = TypeLimit \<and> ord_Price inc \<le> 0
                 then ([], Some (Errorf ''price must be positive for limit orders'' []), ob, Some inc)
            else if ord_TimeInForce inc = TIFFOK \<and> \<not> canFill ob inc then ([], None, ob, Some inc)
            else
              let b = (side = SideSell);
                  st = matchLevels clk b (sortedLevels side (side_of b ob))
                         \<lparr>ms_book = ob, ms_incoming = inc, ms_trades = []\<rparr>
              in if Remaining (ms_incoming st) > 0
                 then if ord_TimeInForce (ms_incoming st) = TIFIOC \<or> ord_TimeInForce (ms_incoming st) = TIFFOK
                      then (ms_trades st, None, ms_book st, Some (ms_incoming st))
                      else if orderType = TypeLimit
                      then (case addOrderLocked D (ms_book st) (Some (ms_incoming st)) of
                              Inl err \<Rightarrow> (ms_trades st, Some err, ms_book st, Some (ms_incoming st))
                            | Inr ob' \<Rightarrow> (ms_trades st, None, ob', Some (ms_incoming st)))
                      else (ms_trades st, None, ms_book st, Some (ms_incoming st))
                 else (ms_trades st, None, ms_book st, Some (ms_incoming st)))"

section \<open>The specification: a greedy walk\<close>

text \<open>The orders an incoming order may trade with, best price first and oldest first within a price.\<close>

definition eligible :: "'d::linordered_idom Order \<Rightarrow> 'd priceLevel list \<Rightarrow> ('d \<times> 'd Order) list" where
  "eligible inc ls = concat (map (\<lambda>l. map (Pair (pl_price l)) (filter (\<lambda>m. \<not> sameAccount inc m) (pl_orders l)))
     (takeWhile (\<lambda>l. priceCrosses inc (pl_price l)) ls))"

fun greedy :: "'d::linordered_idom \<Rightarrow> ('d \<times> 'd Order) list \<Rightarrow> ('d \<times> 'd Order \<times> 'd) list" where
  "greedy r [] = []"
| "greedy r ((p, m) # ms) =
     (if r \<le> 0 then [] else (p, m, min r (Remaining m)) # greedy (r - min r (Remaining m)) ms)"

text \<open>The same walk level by level, with what it leaves in each queue and the quantity still open.\<close>

fun walk_queue :: "'d::linordered_idom Order \<Rightarrow> 'd \<Rightarrow> 'd Order list \<Rightarrow> ('d Order \<times> 'd) list \<times> 'd Order list \<times> 'd" where
  "walk_queue inc r [] = ([], [], r)"
| "walk_queue inc r (m # ms) =
     (if r \<le> 0 then ([], m # ms, r)
      else if sameAccount inc m then (case walk_queue inc r ms of (fs, left, r') \<Rightarrow> (fs, m # left, r'))
      else let q = min r (Remaining m) in
        case walk_queue inc (r - q) ms of (fs, left, r') \<Rightarrow>
          ((m, q) # fs, (if Remaining m \<le> q then left else addFilled q m # left), r'))"

fun walk_levels :: "'d::linordered_idom Order \<Rightarrow> 'd \<Rightarrow> 'd priceLevel list \<Rightarrow>
    ('d \<times> 'd Order \<times> 'd) list \<times> 'd Order list list \<times> 'd" where
  "walk_levels inc r [] = ([], [], r)"
| "walk_levels inc r (l # ls) =
     (if r \<le> 0 \<or> \<not> priceCrosses inc (pl_price l) then ([], map pl_orders (l # ls), r)
      else if pl_orders l \<noteq> [] \<and> list_all (sameAccount inc) (pl_orders l)
      then (case walk_levels inc r ls of (fs, lefts, r') \<Rightarrow> (fs, [] # lefts, r'))
      else case walk_queue inc r (pl_orders l) of (fs1, left, r1) \<Rightarrow>
        case walk_levels inc r1 ls of (fs2, lefts, r') \<Rightarrow>
          (map (Pair (pl_price l)) fs1 @ fs2, left # lefts, r'))"

definition trades_of :: "(nat \<Rightarrow> time) \<Rightarrow> 'd Order \<Rightarrow> nat \<Rightarrow> ('d \<times> 'd Order \<times> 'd) list \<Rightarrow> 'd Trade list" where
  "trades_of clk inc n fs = map (\<lambda>(i, p, m, q). mkTrade clk i inc p m q) (enumerate n fs)"

definition filled_total :: "('d::linordered_idom \<times> 'd Order \<times> 'd) list \<Rightarrow> 'd" where
  "filled_total fs = sum_list (map (\<lambda>(p, m, q). q) fs)"

section \<open>The loops implement the walk\<close>

definition set_queue :: "bool \<Rightarrow> string \<Rightarrow> 'd Order list \<Rightarrow> (bool \<Rightarrow> string \<Rightarrow> 'd Order list) \<Rightarrow> bool \<Rightarrow> string \<Rightarrow> 'd Order list" where
  "set_queue b k os q = (\<lambda>b' k'. if b' = b \<and> k' = k then os else q b' k')"

lemma set_queue_simps [simp]:
  "set_queue b k os (set_queue b k os' q) = set_queue b k os q" "set_queue b k (q b k) q = q"
  "set_queue b k os q b k = os"
  by (auto simp: set_queue_def fun_eq_iff)

lemma set_queue_same: "q b k = os \<Longrightarrow> set_queue b k os q = q"
  by (auto simp: set_queue_def fun_eq_iff)

lemma incoming_filled [simp]:
  "mkTrade clk n (addFilled q inc) = mkTrade clk n inc" "sameAccount (addFilled q inc) = sameAccount inc"
  "priceCrosses (addFilled q inc) = priceCrosses inc" "addFilled 0 inc = inc"
  "addFilled q (addFilled q' inc) = addFilled (q' + q) inc"
  "ord_TimeInForce (addFilled q inc) = ord_TimeInForce inc" "ord_Type (addFilled q inc) = ord_Type inc"
  by (simp_all add: mkTrade_def sameAccount_def priceCrosses_def addFilled_def fun_eq_iff)

lemma walk_queue_filled [simp]: "walk_queue (addFilled q inc) r ms = walk_queue inc r ms"
  by (induction inc r ms rule: walk_queue.induct) (simp_all add: Let_def)

lemma walk_levels_filled [simp]: "walk_levels (addFilled q inc) r ls = walk_levels inc r ls"
  by (induction inc r ls rule: walk_levels.induct) (auto split: prod.splits)

lemma trades_of_filled [simp]: "trades_of clk (addFilled q inc) n fs = trades_of clk inc n fs"
  by (simp add: trades_of_def)

lemma trades_of_simps [simp]:
  "trades_of clk inc n [] = []"
  "trades_of clk inc n ((p, m, q) # fs) = mkTrade clk n inc p m q # trades_of clk inc (Suc n) fs"
  "trades_of clk inc n (fs @ gs) = trades_of clk inc n fs @ trades_of clk inc (n + length fs) gs"
  "length (trades_of clk inc n fs) = length fs"
  by (simp_all add: trades_of_def enumerate_append_eq)

lemma minDecimal_eq [simp]: "minDecimal = min"
  by (simp add: minDecimal_def min_def fun_eq_iff)

lemma queue_split_ids:
  assumes "ob_inv D ob" "queues ob b k = pre @ m # ms"
  shows "filter (\<lambda>x. ord_ID x \<noteq> ord_ID m) (pre @ m # ms) = pre @ ms"
    and "map (\<lambda>x. if ord_ID x = ord_ID m then f x else x) (pre @ m # ms) = pre @ f m # ms"
proof -
  have "distinct (map ord_ID (pre @ m # ms))"
    using queue_distinct [OF ob_inv_sides [OF assms(1)], of b k] assms(2) by (simp add: queues_def)
  then have *: "\<forall>x \<in> set (pre @ ms). ord_ID x \<noteq> ord_ID m" by (auto simp: image_iff)
  then show "filter (\<lambda>x. ord_ID x \<noteq> ord_ID m) (pre @ m # ms) = pre @ ms" by (auto intro: filter_True)
  show "map (\<lambda>x. if ord_ID x = ord_ID m then f x else x) (pre @ m # ms) = pre @ f m # ms"
    using * by (auto intro: map_idI)
qed

lemma remove_at:
  assumes inv: "ob_inv D ob" and q: "queues ob b k = pre @ m # ms"
  shows "ob_inv D (snd (removeOrderLocked ob (ord_ID m)))"
    and "queues (snd (removeOrderLocked ob (ord_ID m))) = set_queue b k (pre @ ms) (queues ob)"
    and "ob_symbol (snd (removeOrderLocked ob (ord_ID m))) = ob_symbol ob"
proof -
  note c = removeOrderLocked_correct [OF inv surjective_pairing, of "ord_ID m"]
  show "ob_inv D (snd (removeOrderLocked ob (ord_ID m)))"
    and "ob_symbol (snd (removeOrderLocked ob (ord_ID m))) = ob_symbol ob" by (rule c)+
  have mem: "ord_ID m \<in> ord_ID ` set (queues ob b k)" by (simp add: q)
  have "filter (\<lambda>x. ord_ID x \<noteq> ord_ID m) (queues ob b' k') = queues ob b' k'" if "\<not> (b' = b \<and> k' = k)" for b' k'
    using ob_inv_unique [OF inv mem, of b' k'] that by (intro filter_absent) blast
  then show "queues (snd (removeOrderLocked ob (ord_ID m))) = set_queue b k (pre @ ms) (queues ob)"
    unfolding c(2) without_def set_queue_def fun_eq_iff
    using queue_split_ids(1) [OF inv q] q by simp
qed

lemma fill_at:
  assumes inv: "ob_inv D ob" and q: "queues ob b k = pre @ m # ms"
  shows "queues (fillMaker b k (ord_ID m) d ob) = set_queue b k (pre @ addFilled d m # ms) (queues ob)"
  unfolding fillMaker_correct(2) [OF inv] q queue_split_ids(2) [OF inv q]
  by (auto simp: set_queue_def fun_eq_iff)

lemma matchOrders_refines:
  assumes "ob_inv D (ms_book st)" "queues (ms_book st) b (pl_key level) = pre @ ms"
    and "\<forall>m \<in> set ms. 0 < Remaining m" "walk_queue (ms_incoming st) (Remaining (ms_incoming st)) ms = (fs, left, r')"
    and "st' = matchOrders clk b level ms st"
  shows "ob_inv D (ms_book st') \<and> queues (ms_book st') = set_queue b (pl_key level) (pre @ left) (queues (ms_book st))
    \<and> ob_symbol (ms_book st') = ob_symbol (ms_book st)
    \<and> ms_incoming st' = addFilled (Remaining (ms_incoming st) - r') (ms_incoming st)
    \<and> ms_trades st' = ms_trades st @ trades_of clk (ms_incoming st) (length (ms_trades st)) (map (Pair (pl_price level)) fs)"
  using assms
proof (induction ms arbitrary: st pre fs left r')
  case Nil
  then show ?case by (auto simp: set_queue_same)
next
  case (Cons m ms)
  let ?inc = "ms_incoming st" and ?k = "pl_key level" and ?ob = "ms_book st"
  note inv = Cons.prems(1) and q = Cons.prems(2) and w = Cons.prems(4) and st' = Cons.prems(5)
  have m: "0 < Remaining m" using Cons.prems(3) by simp
  show ?case
  proof (cases "Remaining ?inc \<le> 0")
    case True
    then show ?thesis using w st' q inv by (auto simp: set_queue_same)
  next
    case r: False
    show ?thesis
    proof (cases "sameAccount ?inc m")
      case True
      then obtain left1 where l: "walk_queue ?inc (Remaining ?inc) ms = (fs, left1, r')" "left = m # left1"
        using w r by (auto split: prod.splits)
      have "st' = matchOrders clk b level ms st" using st' True r m by (simp add: Let_def)
      then show ?thesis using Cons.IH [OF inv _ _ l(1), of "pre @ [m]"] q Cons.prems(3) l(2) by simp
    next
      case False
      define d where "d = min (Remaining ?inc) (Remaining m)"
      define ob1 where "ob1 = fillMaker b ?k (ord_ID m) d ?ob"
      have i1: "ob_inv D ob1" "ob_symbol ob1 = ob_symbol ?ob"
        and q1: "queues ob1 = set_queue b ?k (pre @ addFilled d m # ms) (queues ?ob)"
        unfolding ob1_def using fillMaker_correct [OF inv] fill_at [OF inv q] by simp_all
      define ob2 where "ob2 = (if Remaining m \<le> d then snd (removeOrderLocked ob1 (ord_ID m)) else ob1)"
      let ?kept = "if Remaining m \<le> d then [] else [addFilled d m]"
      have i2: "ob_inv D ob2" "ob_symbol ob2 = ob_symbol ?ob"
        and q2: "queues ob2 = set_queue b ?k (pre @ ?kept @ ms) (queues ?ob)"
        using remove_at [OF i1(1), of b ?k pre "addFilled d m" ms] i1 q1 by (simp_all add: ob2_def)
      let ?st2 = "\<lparr>ms_book = ob2, ms_incoming = addFilled d ?inc,
        ms_trades = ms_trades st @ [mkTrade clk (length (ms_trades st)) ?inc (pl_price level) m d]\<rparr>"
      have "st' = matchOrders clk b level ms ?st2"
        unfolding st' using False r m by (simp add: Let_def ob1_def ob2_def d_def)
      moreover obtain fs1 left1 where l: "walk_queue ?inc (Remaining ?inc - d) ms = (fs1, left1, r')"
        "fs = (m, d) # fs1" "left = ?kept @ left1"
        using w r False by (cases "walk_queue ?inc (Remaining ?inc - d) ms") (auto simp: Let_def d_def split: if_splits)
      ultimately show ?thesis
        using Cons.IH [of ?st2 "pre @ ?kept" fs1 left1 r'] i2 q2 Cons.prems(3) by (simp add: l(2,3) ac_simps)
    qed
  qed
qed

definition set_queues :: "bool \<Rightarrow> (string \<times> 'd Order list) list \<Rightarrow> (bool \<Rightarrow> string \<Rightarrow> 'd Order list) \<Rightarrow> bool \<Rightarrow> string \<Rightarrow> 'd Order list" where
  "set_queues b kos q = (\<lambda>b' k. if b' = b then case map_of kos k of Some os \<Rightarrow> os | None \<Rightarrow> q b' k else q b' k)"

lemma set_queues_same:
  assumes "\<forall>l \<in> set ls. q b (pl_key l) = pl_orders l"
  shows "set_queues b (zip (map pl_key ls) (map pl_orders ls)) q = q"
proof -
  have "os = q b k" if "map_of (zip (map pl_key ls) (map pl_orders ls)) k = Some os" for k os
    using map_of_SomeD [OF that] assms by (auto simp: zip_map_map zip_same)
  then show ?thesis by (auto simp: set_queues_def fun_eq_iff split: option.splits)
qed

lemma set_queues_Cons:
  "k \<notin> fst ` set kos \<Longrightarrow> set_queues b kos (set_queue b k os q) = set_queues b ((k, os) # kos) q"
  by (auto simp: set_queues_def set_queue_def fun_eq_iff dest!: map_of_SomeD split: option.splits) force

lemma scanSelf_live:
  assumes "\<forall>m \<in> set os. 0 < Remaining m" "scanSelf inc h os = (hs, ho)"
  shows "ho \<longleftrightarrow> \<not> list_all (sameAccount inc) os" and "\<not> ho \<Longrightarrow> hs \<longleftrightarrow> h \<or> os \<noteq> []"
  using assms by (induction inc h os rule: scanSelf.induct) (auto split: if_splits)

lemma removeSelf_level:
  assumes inv: "ob_inv D ob" and q: "queues ob b k = os" and self: "list_all (sameAccount inc) os"
  shows "ob_inv D (removeSelf inc os ob)" and "queues (removeSelf inc os ob) = set_queue b k [] (queues ob)"
    and "ob_symbol (removeSelf inc os ob) = ob_symbol ob"
proof -
  have "ob_inv D (removeSelf inc os ob) \<and> queues (removeSelf inc os ob) = set_queue b k [] (queues ob)
      \<and> ob_symbol (removeSelf inc os ob) = ob_symbol ob"
    using inv q self
  proof (induction os arbitrary: ob)
    case Nil then show ?case by (simp add: removeSelf_def set_queue_same)
  next
    case (Cons m os)
    have q: "queues ob b k = [] @ m # os" using Cons.prems by simp
    note rm = remove_at [OF Cons.prems(1) q]
    have "removeSelf inc (m # os) ob = removeSelf inc os (snd (removeOrderLocked ob (ord_ID m)))"
      using Cons.prems(3) by (simp add: removeSelf_def)
    then show ?case using Cons.IH [OF rm(1)] rm Cons.prems(3) by simp
  qed
  then show "ob_inv D (removeSelf inc os ob)" and "queues (removeSelf inc os ob) = set_queue b k [] (queues ob)"
    and "ob_symbol (removeSelf inc os ob) = ob_symbol ob" by blast+
qed

definition level_view :: "(bool \<Rightarrow> string \<Rightarrow> 'd::linordered_idom Order list) \<Rightarrow> bool \<Rightarrow> 'd priceLevel \<Rightarrow> bool" where
  "level_view q b l \<longleftrightarrow> q b (pl_key l) = pl_orders l \<and> pl_orders l \<noteq> [] \<and> (\<forall>m \<in> set (pl_orders l). 0 < Remaining m)"

lemma level_view_set_queue:
  "k \<notin> pl_key ` set ls \<Longrightarrow> \<forall>l \<in> set ls. level_view q b l \<Longrightarrow> \<forall>l \<in> set ls. level_view (set_queue b k os q) b l"
  by (auto simp: level_view_def set_queue_def)

lemma length_walk_levels: "walk_levels inc r ls = (fs, lefts, r') \<Longrightarrow> length lefts = length ls"
  by (induction inc r ls arbitrary: fs lefts r' rule: walk_levels.induct) (auto split: if_splits prod.splits)

lemma matchLevels_refines:
  assumes "ob_inv D (ms_book st)" "distinct (map pl_key ls)" "\<forall>l \<in> set ls. level_view (queues (ms_book st)) b l"
    and "walk_levels (ms_incoming st) (Remaining (ms_incoming st)) ls = (fs, lefts, r')" "st' = matchLevels clk b ls st"
  shows "ob_inv D (ms_book st') \<and> queues (ms_book st') = set_queues b (zip (map pl_key ls) lefts) (queues (ms_book st))
    \<and> ob_symbol (ms_book st') = ob_symbol (ms_book st)
    \<and> ms_incoming st' = addFilled (Remaining (ms_incoming st) - r') (ms_incoming st)
    \<and> ms_trades st' = ms_trades st @ trades_of clk (ms_incoming st) (length (ms_trades st)) fs"
  using assms
proof (induction ls arbitrary: st fs lefts r')
  case Nil
  then show ?case by (auto simp: set_queues_def fun_eq_iff)
next
  case (Cons l ls)
  let ?inc = "ms_incoming st" and ?k = "pl_key l" and ?ob = "ms_book st"
  note inv = Cons.prems(1) and w = Cons.prems(4) and st' = Cons.prems(5)
  have q: "queues ?ob b ?k = pl_orders l" and ne: "pl_orders l \<noteq> []" and live: "\<forall>m \<in> set (pl_orders l). 0 < Remaining m"
    and k: "?k \<notin> pl_key ` set ls" and d: "distinct (map pl_key ls)" and ls: "\<forall>l \<in> set ls. level_view (queues ?ob) b l"
    using Cons.prems(2,3) by (auto simp: level_view_def)
  have zk: "?k \<notin> fst ` set (zip (map pl_key ls) lefts1)" for lefts1 :: "'a Order list list"
    using k by (auto dest: set_zip_leftD)
  show ?case
  proof (cases "Remaining ?inc \<le> 0 \<or> \<not> priceCrosses ?inc (pl_price l)")
    case True
    then have "st' = st" "fs = []" "lefts = map pl_orders (l # ls)" "r' = Remaining ?inc" using w st' by (auto simp: Let_def)
    then show ?thesis
      using inv set_queues_same [of "l # ls" "queues ?ob" b] Cons.prems(3) by (auto simp: level_view_def)
  next
    case go: False
    obtain hs ho where sc: "scanSelf ?inc False (pl_orders l) = (hs, ho)" by fastforce
    note scan = scanSelf_live [OF live sc]
    show ?thesis
    proof (cases "list_all (sameAccount ?inc) (pl_orders l)")
      case True
      note rm = removeSelf_level [OF inv q True]
      let ?st1 = "st\<lparr>ms_book := removeSelf ?inc (pl_orders l) ?ob\<rparr>"
      have s1: "st' = matchLevels clk b ls ?st1"
        unfolding st' using go sc scan True ne q [unfolded queues_def] by (simp add: Let_def)
      obtain lefts1 where l1: "walk_levels ?inc (Remaining ?inc) ls = (fs, lefts1, r')" "lefts = [] # lefts1"
        using w go True ne by (auto split: prod.splits)
      show ?thesis
        using Cons.IH [of ?st1 fs lefts1 r'] rm d level_view_set_queue [OF k ls] l1 s1 set_queues_Cons [OF zk, of b lefts1 "[]"]
        by simp
    next
      case False
      obtain fs1 left r1 where w1: "walk_queue ?inc (Remaining ?inc) (pl_orders l) = (fs1, left, r1)"
        by (cases "walk_queue ?inc (Remaining ?inc) (pl_orders l)")
      define st1 where "st1 = matchOrders clk b l (pl_orders l) st"
      have q0: "queues ?ob b ?k = [] @ pl_orders l" by (simp add: q)
      note m = matchOrders_refines [OF inv q0 live w1 st1_def, simplified]
      have s1: "st' = matchLevels clk b ls st1"
        unfolding st' st1_def using go sc scan False q [unfolded queues_def] by (simp add: Let_def)
      obtain fs2 lefts1 where l1: "walk_levels ?inc r1 ls = (fs2, lefts1, r')" "lefts = left # lefts1"
        "fs = map (Pair (pl_price l)) fs1 @ fs2"
        using w go False w1 by (auto split: prod.splits)
      show ?thesis
        using Cons.IH [of st1 fs2 lefts1 r'] m d level_view_set_queue [OF k ls] l1 s1 set_queues_Cons [OF zk, of b lefts1 left]
        by simp
    qed
  qed
qed

section \<open>Facts about the walk\<close>

lemma filled_total_simps [simp]:
  "filled_total [] = 0" "filled_total ((p, m, q) # fs) = q + filled_total fs"
  "filled_total (fs @ gs) = filled_total fs + filled_total gs"
  by (simp_all add: filled_total_def)

lemma greedy_stop [simp]: "r \<le> 0 \<Longrightarrow> greedy r ms = []"
  by (cases ms) auto

lemma greedy_append: "greedy r (xs @ ys) = greedy r xs @ greedy (r - filled_total (greedy r xs)) ys"
  by (induction r xs rule: greedy.induct) (auto simp: algebra_simps)

lemma greedy_mem:
  assumes "(p, m, q) \<in> set (greedy r xs)" "\<forall>(p, m) \<in> set xs. 0 < Remaining m"
  shows "(p, m) \<in> set xs \<and> 0 < q \<and> q \<le> Remaining m"
  using assms by (induction r xs rule: greedy.induct) (auto split: if_splits)

lemma greedy_total:
  assumes "\<forall>(p, m) \<in> set xs. 0 < Remaining m" "0 \<le> r"
  shows "filled_total (greedy r xs) = min r (sum_list (map (\<lambda>(p, m). Remaining m) xs))"
  using assms
proof (induction r xs rule: greedy.induct)
  case (2 r p m ms)
  have nn: "0 \<le> sum_list (map (\<lambda>(p, m). Remaining m) ms)"
    using "2.prems"(1) by (intro sum_list_nonneg) (auto simp: less_imp_le)
  show ?case
  proof (cases "r \<le> 0")
    case True then show ?thesis using 2 nn by (auto simp: min_def)
  next
    case False
    then have "filled_total (greedy (r - min r (Remaining m)) ms)
        = min (r - min r (Remaining m)) (sum_list (map (\<lambda>(p, m). Remaining m) ms))"
      using 2 by auto
    then show ?thesis using False nn "2.prems" by (auto simp: min_def)
  qed
qed simp

text \<open>What a walk takes from the order with a given ID, and what it leaves of an order.\<close>

definition taken :: "('d::linordered_idom \<times> 'd Order \<times> 'd) list \<Rightarrow> string \<Rightarrow> 'd" where
  "taken fs i = filled_total (filter (\<lambda>(p, m, q). ord_ID m = i) fs)"

definition residue :: "'d::linordered_idom \<Rightarrow> 'd Order \<Rightarrow> 'd Order list" where
  "residue q m = (if Remaining m \<le> q then [] else [addFilled q m])"

lemma taken_simps [simp]:
  "taken [] i = 0" "taken ((p, m, q) # fs) i = (if ord_ID m = i then q + taken fs i else taken fs i)"
  "taken (fs @ gs) i = taken fs i + taken gs i"
  by (simp_all add: taken_def)

lemma taken_absent: "i \<notin> ord_ID ` (fst \<circ> snd) ` set fs \<Longrightarrow> taken fs i = 0"
  by (induction fs) auto

lemma walk_queue_ConsE:
  assumes "walk_queue inc r (m # ms) = (fs, left, r')"
  obtains (stop) "r \<le> 0" "fs = []" "left = m # ms" "r' = r"
  | (own) left1 where "0 < r" "sameAccount inc m" "walk_queue inc r ms = (fs, left1, r')" "left = m # left1"
  | (trade) fs1 left1 where "0 < r" "\<not> sameAccount inc m"
      "walk_queue inc (r - min r (Remaining m)) ms = (fs1, left1, r')"
      "fs = (m, min r (Remaining m)) # fs1" "left = residue (min r (Remaining m)) m @ left1"
proof -
  consider "r \<le> 0" | "0 < r" "sameAccount inc m" | "0 < r" "\<not> sameAccount inc m" by fastforce
  then show thesis
  proof cases
    case 1 then show ?thesis by (intro stop) (use assms in simp_all)
  next
    case 2 then show ?thesis by (cases "walk_queue inc r ms", intro own) (use assms in auto)
  next
    case 3
    then show ?thesis using assms trade
      by (cases "walk_queue inc (r - min r (Remaining m)) ms") (auto simp: Let_def residue_def split: if_splits)
  qed
qed

lemma walk_queue_fills:
  assumes "walk_queue inc r ms = (fs, left, r')"
  shows "map (Pair p) fs = greedy r (map (Pair p) (filter (\<lambda>m. \<not> sameAccount inc m) ms))"
  using assms
proof (induction ms arbitrary: r fs left)
  case (Cons m ms)
  from Cons.prems show ?case
  proof (cases rule: walk_queue_ConsE)
    case own show ?thesis using Cons.IH [OF own(3)] own(2) by (simp only: filter.simps simp_thms if_False)
  next
    case trade show ?thesis using Cons.IH [OF trade(3)] trade(1,2) by (simp add: trade(4))
  qed simp
qed simp

lemma walk_queue_total:
  assumes "walk_queue inc r ms = (fs, left, r')"
  shows "r' = r - filled_total (map (Pair p) fs)"
  using assms
proof (induction ms arbitrary: r fs left)
  case (Cons m ms)
  from Cons.prems show ?case
  proof (cases rule: walk_queue_ConsE)
    case own show ?thesis by (rule Cons.IH [OF own(3)])
  next
    case trade show ?thesis using Cons.IH [OF trade(3)] by (simp add: trade(4) algebra_simps)
  qed simp
qed simp

lemma walk_queue_makers:
  assumes "walk_queue inc r ms = (fs, left, r')"
  shows "fst ` set fs \<subseteq> set ms"
  using assms
proof (induction ms arbitrary: r fs left)
  case (Cons m ms)
  from Cons.prems show ?case
  proof (cases rule: walk_queue_ConsE)
    case own show ?thesis using Cons.IH [OF own(3)] by auto
  next
    case trade show ?thesis using Cons.IH [OF trade(3)] by (auto simp: trade(4))
  qed simp
qed simp

lemma walk_queue_open:
  assumes "walk_queue inc r ms = (fs, left, r')" "0 < r'"
  shows "\<forall>m \<in> set left. sameAccount inc m"
  using assms(1)
proof (induction ms arbitrary: r fs left)
  case (Cons m ms)
  from Cons.prems show ?case
  proof (cases rule: walk_queue_ConsE)
    case own show ?thesis using Cons.IH [OF own(3)] own(2) by (simp add: own(4))
  next
    case trade
    have "r - min r (Remaining m) = 0 \<Longrightarrow> r' = 0" using trade(3) by (cases ms) auto
    with \<open>0 < r'\<close> have "residue (min r (Remaining m)) m = []" by (auto simp: residue_def min_def split: if_splits)
    then show ?thesis using Cons.IH [OF trade(3)] by (simp add: trade(5))
  qed (use \<open>0 < r'\<close> in simp)
qed simp

lemma walk_queue_left:
  assumes "walk_queue inc r ms = (fs, left, r')" "distinct (map ord_ID ms)" "\<forall>m \<in> set ms. 0 < Remaining m"
  shows "left = concat (map (\<lambda>m. residue (taken (map (Pair p) fs) (ord_ID m)) m) ms)"
  using assms
proof (induction ms arbitrary: r fs left)
  case (Cons m ms)
  have absent: "taken (map (Pair p) fs1) (ord_ID m) = 0"
    if "walk_queue inc r1 ms = (fs1, left1, r2)" for r1 r2 fs1 left1
  proof (rule taken_absent)
    have "fst ` set fs1 \<subseteq> set ms" using walk_queue_makers [OF that] .
    then show "ord_ID m \<notin> ord_ID ` (fst \<circ> snd) ` set (map (Pair p) fs1)"
      using Cons.prems(2) by (auto simp: image_image)
  qed
  from Cons.prems(1) show ?case
  proof (cases rule: walk_queue_ConsE)
    case stop
    have "concat (map (\<lambda>m. residue 0 m) os) = os" if "\<forall>m \<in> set os. 0 < Remaining m" for os :: "'a Order list"
      using that by (induction os) (auto simp: residue_def)
    from this [OF Cons.prems(3)] show ?thesis by (simp only: stop(2,3) list.map taken_simps)
  next
    case own
    then show ?thesis using Cons.IH [OF own(3)] Cons.prems absent [OF own(3)] by (simp add: residue_def)
  next
    case (trade fs1 left1)
    have "map (\<lambda>m. residue (taken (map (Pair p) fs) (ord_ID m)) m) ms = map (\<lambda>m. residue (taken (map (Pair p) fs1) (ord_ID m)) m) ms"
      using Cons.prems(2) by (auto simp: trade(4))
    moreover have "taken (map (Pair p) fs) (ord_ID m) = min r (Remaining m)"
      using absent [OF trade(3)] by (simp add: trade(4))
    ultimately show ?thesis using Cons.IH [OF trade(3)] Cons.prems(2,3) trade(5)
      by (simp only: list.map concat.simps) simp
  qed
qed simp

lemma walk_levels_ConsE:
  assumes "walk_levels inc r (l # ls) = (fs, lefts, r')"
  obtains (stop) "r \<le> 0 \<or> \<not> priceCrosses inc (pl_price l)" "fs = []" "lefts = map pl_orders (l # ls)" "r' = r"
  | (own) lefts1 where "0 < r" "priceCrosses inc (pl_price l)" "list_all (sameAccount inc) (pl_orders l)"
      "walk_levels inc r ls = (fs, lefts1, r')" "lefts = [] # lefts1"
  | (trade) fs1 left r1 fs2 lefts1 where "0 < r" "priceCrosses inc (pl_price l)"
      "walk_queue inc r (pl_orders l) = (fs1, left, r1)" "walk_levels inc r1 ls = (fs2, lefts1, r')"
      "fs = map (Pair (pl_price l)) fs1 @ fs2" "lefts = left # lefts1"
proof -
  consider "r \<le> 0 \<or> \<not> priceCrosses inc (pl_price l)"
    | "0 < r" "priceCrosses inc (pl_price l)" "pl_orders l \<noteq> [] \<and> list_all (sameAccount inc) (pl_orders l)"
    | "0 < r" "priceCrosses inc (pl_price l)" "\<not> (pl_orders l \<noteq> [] \<and> list_all (sameAccount inc) (pl_orders l))"
    by fastforce
  then show thesis
  proof cases
    case 1 then show ?thesis by (intro stop) (use assms in simp_all)
  next
    case 2 then show ?thesis by (cases "walk_levels inc r ls", intro own) (use assms in auto)
  next
    case 3
    obtain fs1 left r1 where w: "walk_queue inc r (pl_orders l) = (fs1, left, r1)"
      by (cases "walk_queue inc r (pl_orders l)")
    with 3 show ?thesis by (cases "walk_levels inc r1 ls", intro trade) (use assms in auto)
  qed
qed

lemma eligible_simps [simp]:
  "eligible inc [] = []"
  "eligible inc (l # ls) = (if priceCrosses inc (pl_price l)
     then map (Pair (pl_price l)) (filter (\<lambda>m. \<not> sameAccount inc m) (pl_orders l)) @ eligible inc ls else [])"
  by (simp_all add: eligible_def)

lemma eligible_makers: "snd ` set (eligible inc ls) \<subseteq> set (concat (map pl_orders ls))"
  by (induction ls) (auto simp: image_image)

lemma eligible_mem:
  assumes "(p, m) \<in> set (eligible inc ls)"
  shows "\<not> sameAccount inc m \<and> priceCrosses inc p \<and> (\<exists>l \<in> set ls. pl_price l = p \<and> m \<in> set (pl_orders l))"
  using assms by (induction ls) (auto split: if_splits)

lemma greedy_makers: "(fst \<circ> snd) ` set (greedy r xs) \<subseteq> snd ` set xs"
  by (induction r xs rule: greedy.induct) auto

lemma walk_levels_total:
  assumes "walk_levels inc r ls = (fs, lefts, r')"
  shows "r' = r - filled_total fs"
  using assms
proof (induction ls arbitrary: r fs lefts)
  case (Cons l ls)
  from Cons.prems show ?case
  proof (cases rule: walk_levels_ConsE)
    case own show ?thesis by (rule Cons.IH [OF own(4)])
  next
    case (trade fs1 left r1 fs2 lefts1)
    show ?thesis using Cons.IH [OF trade(4)] walk_queue_total [OF trade(3), of "pl_price l"]
      by (simp add: trade(5) algebra_simps)
  qed simp
qed simp

lemma walk_levels_fills:
  assumes "walk_levels inc r ls = (fs, lefts, r')"
  shows "fs = greedy r (eligible inc ls)"
  using assms
proof (induction ls arbitrary: r fs lefts)
  case (Cons l ls)
  from Cons.prems show ?case
  proof (cases rule: walk_levels_ConsE)
    case stop then show ?thesis by auto
  next
    case own
    then have "filter (\<lambda>m. \<not> sameAccount inc m) (pl_orders l) = []" by (auto simp: list_all_iff filter_empty_conv)
    then show ?thesis using Cons.IH [OF own(4)] own(2) by simp
  next
    case (trade fs1 left r1 fs2 lefts1)
    have "r1 = r - filled_total (map (Pair (pl_price l)) fs1)" using trade(3) by (rule walk_queue_total)
    then show ?thesis
      using Cons.IH [OF trade(4)] trade(2) walk_queue_fills [OF trade(3), of "pl_price l"]
      by (simp add: greedy_append trade(5))
  qed
qed simp

lemma walk_levels_open:
  assumes "walk_levels inc r ls = (fs, lefts, r')" "0 < r'"
    and "sorted_wrt (\<lambda>l l'. priceCrosses inc (pl_price l') \<longrightarrow> priceCrosses inc (pl_price l)) ls"
  shows "\<forall>(l, left) \<in> set (zip ls lefts). priceCrosses inc (pl_price l) \<longrightarrow> (\<forall>m \<in> set left. sameAccount inc m)"
  using assms(1,3)
proof (induction ls arbitrary: r fs lefts)
  case (Cons l ls)
  from Cons.prems(1) show ?case
  proof (cases rule: walk_levels_ConsE)
    case stop
    then have "\<not> priceCrosses inc (pl_price l)" using assms(2) by auto
    then have "\<forall>x \<in> set (l # ls). \<not> priceCrosses inc (pl_price x)" using Cons.prems(2) by auto
    then show ?thesis by (blast dest: set_zip_leftD)
  next
    case (own lefts1) then show ?thesis using Cons.IH [OF own(4)] Cons.prems(2) by simp
  next
    case (trade fs1 left r1 fs2 lefts1)
    have "0 < r1"
    proof (rule ccontr)
      assume "\<not> 0 < r1"
      then have "r' = r1" using trade(4) by (cases ls) auto
      then show False using \<open>\<not> 0 < r1\<close> assms(2) by simp
    qed
    then show ?thesis using Cons.IH [OF trade(4)] walk_queue_open [OF trade(3)] Cons.prems(2) by (simp add: trade(6))
  qed
qed simp

definition leaves :: "'d::linordered_idom Order \<Rightarrow> ('d \<times> 'd Order \<times> 'd) list \<Rightarrow> 'd Order list \<Rightarrow> 'd Order list \<Rightarrow> bool" where
  "leaves inc fs os left \<longleftrightarrow> left = concat (map (\<lambda>m. residue (taken fs (ord_ID m)) m) os)
     \<or> list_all (sameAccount inc) os \<and> left = []"

lemma leaves_taken_cong:
  "(\<And>m. m \<in> set os \<Longrightarrow> taken fs (ord_ID m) = taken gs (ord_ID m)) \<Longrightarrow> leaves inc fs os left \<Longrightarrow> leaves inc gs os left"
  unfolding leaves_def by (metis (mono_tags, lifting) map_eq_conv)

lemma residue_none: "\<forall>m \<in> set os. 0 < Remaining m \<Longrightarrow> concat (map (\<lambda>m. residue 0 m) os) = os"
  by (induction os) (auto simp: residue_def)

lemma walk_levels_left:
  assumes "walk_levels inc r ls = (fs, lefts, r')" "distinct (map ord_ID (concat (map pl_orders ls)))"
    and "\<forall>l \<in> set ls. \<forall>m \<in> set (pl_orders l). 0 < Remaining m"
  shows "list_all2 (\<lambda>l left. leaves inc fs (pl_orders l) left) ls lefts"
  using assms
proof (induction ls arbitrary: r fs lefts)
  case (Cons l ls)
  have d: "distinct (map ord_ID (concat (map pl_orders ls)))" "distinct (map ord_ID (pl_orders l))"
    and dj: "ord_ID ` set (pl_orders l) \<inter> ord_ID ` set (concat (map pl_orders ls)) = {}"
    using Cons.prems(2) by auto
  have makers: "(fst \<circ> snd) ` set fs2 \<subseteq> set (concat (map pl_orders ls))"
    if "walk_levels inc r1 ls = (fs2, lefts1, r2)" for r1 fs2 lefts1 r2
    unfolding walk_levels_fills [OF that] by (rule order_trans [OF greedy_makers eligible_makers])
  from Cons.prems(1) show ?case
  proof (cases rule: walk_levels_ConsE)
    case stop
    then show ?thesis using Cons.prems(3) by (auto simp: leaves_def residue_none list_all2_map2 list_all2_same)
  next
    case (own lefts1)
    then show ?thesis using Cons.IH [OF own(4) d(1)] Cons.prems(3) by (simp add: leaves_def)
  next
    case (trade fs1 left r1 fs2 lefts1)
    let ?fs1 = "map (Pair (pl_price l)) fs1"
    have t2: "taken fs2 (ord_ID m) = 0" if "m \<in> set (pl_orders l)" for m
      using makers [OF trade(4)] dj that by (intro taken_absent) blast
    have t1: "taken ?fs1 (ord_ID m) = 0" if "l' \<in> set ls" "m \<in> set (pl_orders l')" for l' m
    proof (rule taken_absent)
      have "(fst \<circ> snd) ` set ?fs1 \<subseteq> set (pl_orders l)" using walk_queue_makers [OF trade(3)] by (auto simp: image_image)
      then have "ord_ID ` (fst \<circ> snd) ` set ?fs1 \<subseteq> ord_ID ` set (pl_orders l)" by (rule image_mono)
      moreover have "ord_ID m \<in> ord_ID ` set (concat (map pl_orders ls))" using that by auto
      ultimately show "ord_ID m \<notin> ord_ID ` (fst \<circ> snd) ` set ?fs1" using dj by blast
    qed
    have "leaves inc fs (pl_orders l) left"
    proof (rule leaves_taken_cong)
      show "leaves inc ?fs1 (pl_orders l) left"
        using walk_queue_left [OF trade(3) d(2), of "pl_price l"] Cons.prems(3) by (simp add: leaves_def)
      show "taken ?fs1 (ord_ID m) = taken fs (ord_ID m)" if "m \<in> set (pl_orders l)" for m
        using t2 [OF that] by (simp add: trade(5))
    qed
    moreover have "list_all2 (\<lambda>l left. leaves inc fs (pl_orders l) left) ls lefts1"
    proof (rule list.rel_mono_strong)
      show "list_all2 (\<lambda>l left. leaves inc fs2 (pl_orders l) left) ls lefts1"
        using Cons.IH [OF trade(4) d(1)] Cons.prems(3) by simp
      show "leaves inc fs (pl_orders l') left'" if "l' \<in> set ls" "leaves inc fs2 (pl_orders l') left'" for l' left'
        using leaves_taken_cong [OF _ that(2)] t1 [OF that(1)] by (simp add: trade(5))
    qed
    ultimately show ?thesis by (simp add: trade(6))
  qed
qed simp

subsection \<open>The fill-or-kill check\<close>

definition available :: "('d::linordered_idom \<times> 'd Order) list \<Rightarrow> 'd" where
  "available xs = sum_list (map (\<lambda>(p, m). Remaining m) xs)"

lemma available_simps [simp]:
  "available [] = 0" "available ((p, m) # xs) = Remaining m + available xs"
  "available (xs @ ys) = available xs + available ys"
  by (simp_all add: available_def)

lemma available_nonneg: "\<forall>(p, m) \<in> set xs. 0 < Remaining m \<Longrightarrow> 0 \<le> available xs"
  unfolding available_def by (intro sum_list_nonneg) (auto simp: less_imp_le)

lemma canFill_orders_available:
  assumes "\<forall>m \<in> set os. 0 < Remaining m"
  shows "if r \<le> available (map (Pair p) (filter (\<lambda>m. \<not> sameAccount inc m) os))
    then canFill_orders inc r os \<le> 0
    else canFill_orders inc r os = r - available (map (Pair p) (filter (\<lambda>m. \<not> sameAccount inc m) os))"
  using assms
proof (induction os arbitrary: r)
  case (Cons m os)
  have nn: "0 \<le> available (map (Pair p) (filter (\<lambda>m. \<not> sameAccount inc m) os))"
    using Cons.prems by (intro available_nonneg) auto
  show ?case
    using Cons.IH [of r] Cons.IH [of "r - Remaining m"] Cons.prems nn
    by (auto simp: Let_def algebra_simps split: if_splits)
qed simp

lemma canFill_levels_available:
  assumes "\<forall>l \<in> set ls. \<forall>m \<in> set (pl_orders l). 0 < Remaining m"
  shows "canFill_levels inc r ls \<longleftrightarrow> r \<le> available (eligible inc ls)"
  using assms
proof (induction ls arbitrary: r)
  case (Cons l ls)
  let ?a = "available (map (Pair (pl_price l)) (filter (\<lambda>m. \<not> sameAccount inc m) (pl_orders l)))"
  have nn: "0 \<le> available (eligible inc ls)"
    using Cons.prems eligible_mem by (intro available_nonneg) fastforce
  have c: "if r \<le> ?a then canFill_orders inc r (pl_orders l) \<le> 0 else canFill_orders inc r (pl_orders l) = r - ?a"
    using Cons.prems by (intro canFill_orders_available) simp
  show ?case
  proof (cases "r \<le> ?a")
    case True then show ?thesis using c nn by (auto simp: Let_def)
  next
    case False
    then have "canFill_orders inc r (pl_orders l) = r - ?a" using c by simp
    then show ?thesis using False Cons.IH [of "r - ?a"] Cons.prems nn by (simp add: Let_def) (simp add: algebra_simps)
  qed
qed simp

section \<open>From the book to the walk\<close>

abbreviation better :: "string \<Rightarrow> 'd::linordered_idom priceLevel \<Rightarrow> 'd priceLevel \<Rightarrow> bool" where
  "better side l l' \<equiv> if side = SideBuy then pl_price l \<le> pl_price l' else pl_price l' \<le> pl_price l"

lemma sortedLevels_mset: "mset (sortedLevels side s) = mset (map snd (bs_levels s))"
  by (simp add: sortedLevels_def)

lemma sortedLevels_sorted: "sorted_wrt (better side) (sortedLevels side s)"
proof (cases "side = SideBuy")
  case True
  have "sorted (map pl_price (sort_key pl_price (map snd (bs_levels s))))" by (rule sorted_sort_key)
  then show ?thesis using True by (simp add: sortedLevels_def sorted_wrt_map)
next
  case False
  have "sorted (map (\<lambda>l. - pl_price l) (sort_key (\<lambda>l. - pl_price l) (map snd (bs_levels s))))" by (rule sorted_sort_key)
  then show ?thesis using False by (simp add: sortedLevels_def sorted_wrt_map)
qed

lemma sortedLevels_levels:
  assumes inv: "ob_inv D ob"
  shows "l \<in> set (sortedLevels side (side_of b ob)) \<longleftrightarrow> map_of (bs_levels (side_of b ob)) (pl_key l) = Some l"
    and "distinct (map pl_key (sortedLevels side (side_of b ob)))"
proof -
  let ?s = "side_of b ob"
  have d: "distinct (map fst (bs_levels ?s))" using ob_inv_sides [OF inv, of b] by (simp add: side_inv_def heap_valid_def)
  have k: "pl_key l = k" if "(k, l) \<in> set (bs_levels ?s)" for k l
    using side_inv_level [OF ob_inv_sides [OF inv, of b]] map_of_is_SomeI [OF d that] by (auto simp: level_ok_def)
  have "set (sortedLevels side ?s) = set (map snd (bs_levels ?s))"
    using sortedLevels_mset [of side ?s] by (metis set_mset_mset)
  then have "l \<in> set (sortedLevels side ?s) \<longleftrightarrow> (\<exists>k. (k, l) \<in> set (bs_levels ?s))" by (simp add: image_iff) force
  also have "\<dots> \<longleftrightarrow> (pl_key l, l) \<in> set (bs_levels ?s)" using k by blast
  also have "\<dots> \<longleftrightarrow> map_of (bs_levels ?s) (pl_key l) = Some l"
    using d by (metis map_of_SomeD map_of_is_SomeI)
  finally show "l \<in> set (sortedLevels side ?s) \<longleftrightarrow> map_of (bs_levels ?s) (pl_key l) = Some l" .
  have "map pl_key (map snd (bs_levels ?s)) = map fst (bs_levels ?s)" using k by auto
  moreover have "mset (map pl_key (sortedLevels side ?s)) = mset (map pl_key (map snd (bs_levels ?s)))"
    by (simp only: mset_map sortedLevels_mset)
  ultimately show "distinct (map pl_key (sortedLevels side ?s))" using d mset_eq_imp_distinct_iff by metis
qed

lemma sortedLevels_view:
  assumes inv: "ob_inv D ob" and live: "ob_live ob" and l: "l \<in> set (sortedLevels side (side_of b ob))"
  shows "level_view (queues ob) b l"
proof -
  have m: "map_of (bs_levels (side_of b ob)) (pl_key l) = Some l" using sortedLevels_levels(1) [OF inv] l by blast
  then have q: "queues ob b (pl_key l) = pl_orders l" by (simp add: queues_def queue_def)
  moreover have "level_ok D b (pl_key l) l" using ob_inv_sides [OF inv] m by (rule side_inv_level)
  ultimately show ?thesis using live unfolding level_view_def ob_live_def level_ok_def by metis
qed

lemma distinct_book_ids:
  assumes inv: "ob_inv D ob" and "distinct (map pl_key ls)" "\<forall>l \<in> set ls. queues ob b (pl_key l) = pl_orders l"
  shows "distinct (map ord_ID (concat (map pl_orders ls)))"
  using assms(2,3)
proof (induction ls)
  case (Cons l ls)
  have "distinct (map ord_ID (pl_orders l))"
    using queue_distinct [OF ob_inv_sides [OF inv, of b], of "pl_key l"] Cons.prems(2) by (simp add: queues_def)
  moreover have "ord_ID ` set (pl_orders l) \<inter> ord_ID ` set (pl_orders l') = {}" if "l' \<in> set ls" for l'
  proof -
    have "pl_key l' \<in> set (map pl_key ls)" using that by simp
    then have ne: "pl_key l' \<noteq> pl_key l" using Cons.prems(1) by (metis distinct.simps(2) list.simps(9))
    have "i \<notin> ord_ID ` set (queues ob b (pl_key l'))" if i: "i \<in> ord_ID ` set (queues ob b (pl_key l))" for i
      using ob_inv_unique [OF inv i, of b "pl_key l'"] ne by blast
    then show ?thesis using Cons.prems(2) that by (metis disjoint_iff list.set_intros)
  qed
  ultimately show ?case using Cons by (auto simp: image_UN)
qed simp

section \<open>What MatchOrder does\<close>

definition acceptable :: "'d::linordered_idom Order \<Rightarrow> bool" where
  "acceptable inc \<longleftrightarrow> normalizeSide (ord_Side inc) \<noteq> '''' \<and> normalizeType (ord_Type inc) \<noteq> ''''
     \<and> 0 < ord_Quantity inc \<and> (normalizeType (ord_Type inc) = TypeLimit \<longrightarrow> 0 < ord_Price inc)"

definition opposite_is_buy :: "'d Order \<Rightarrow> bool" where
  "opposite_is_buy inc \<longleftrightarrow> normalizeSide (ord_Side inc) = SideSell"

text \<open>The opposite side's levels in the order \<open>MatchOrder\<close> visits them.\<close>

definition ladder :: "'d::linordered_idom OrderBook \<Rightarrow> 'd Order \<Rightarrow> 'd priceLevel list" where
  "ladder ob inc = sortedLevels (normalizeSide (ord_Side inc)) (side_of (opposite_is_buy inc) ob)"

abbreviation norm_tif :: "'d Order \<Rightarrow> 'd Order" where
  "norm_tif inc \<equiv> inc\<lparr>ord_TimeInForce := normalizeTIF (ord_TimeInForce inc)\<rparr>"

definition killed :: "'d::linordered_idom OrderBook \<Rightarrow> 'd Order \<Rightarrow> bool" where
  "killed ob inc \<longleftrightarrow> normalizeTIF (ord_TimeInForce inc) = TIFFOK \<and> \<not> canFill ob inc"

definition may_rest :: "'d Order \<Rightarrow> bool" where
  "may_rest inc \<longleftrightarrow> normalizeTIF (ord_TimeInForce inc) \<noteq> TIFIOC \<and> normalizeTIF (ord_TimeInForce inc) \<noteq> TIFFOK
     \<and> normalizeType (ord_Type inc) = TypeLimit"

lemma norm_tif_simps [simp]:
  "sameAccount (inc\<lparr>ord_TimeInForce := t\<rparr>) = sameAccount inc" "priceCrosses (inc\<lparr>ord_TimeInForce := t\<rparr>) = priceCrosses inc"
  "Remaining (inc\<lparr>ord_TimeInForce := t\<rparr>) = Remaining inc" "mkTrade clk n (inc\<lparr>ord_TimeInForce := t\<rparr>) = mkTrade clk n inc"
  by (simp_all add: sameAccount_def priceCrosses_def Remaining_def mkTrade_def fun_eq_iff)

lemma canFill_orders_norm [simp]: "canFill_orders (inc\<lparr>ord_TimeInForce := t\<rparr>) r os = canFill_orders inc r os"
  by (induction os arbitrary: r) (simp_all add: Let_def)

lemma canFill_levels_norm [simp]: "canFill_levels (inc\<lparr>ord_TimeInForce := t\<rparr>) r ls = canFill_levels inc r ls"
  by (induction ls arbitrary: r) (simp_all add: Let_def)

lemma canFill_norm [simp]: "canFill ob (inc\<lparr>ord_TimeInForce := t\<rparr>) = canFill ob inc"
  by (simp add: canFill_def)

lemma walk_queue_norm [simp]: "walk_queue (inc\<lparr>ord_TimeInForce := t\<rparr>) r ms = walk_queue inc r ms"
  by (induction ms arbitrary: r) (simp_all add: Let_def)

lemma walk_levels_norm [simp]: "walk_levels (inc\<lparr>ord_TimeInForce := t\<rparr>) r ls = walk_levels inc r ls"
  by (induction ls arbitrary: r) simp_all

lemma trades_of_norm [simp]:
  fixes inc :: "'d::linordered_idom Order"
  shows "trades_of clk (inc\<lparr>ord_TimeInForce := t\<rparr>) n fs = trades_of clk inc n fs"
  by (simp add: trades_of_def)

lemma MatchOrder_rejects:
  assumes "\<not> acceptable inc"
  shows "\<exists>e inc'. MatchOrder D clk ob (Some inc) = ([], Some e, ob, Some inc')"
  using assms by (auto simp: MatchOrder_def acceptable_def Let_def not_less)

lemma MatchOrder_killed:
  assumes "acceptable inc" "killed ob inc"
  shows "MatchOrder D clk ob (Some inc) = ([], None, ob, Some (norm_tif inc))"
proof -
  have k: "ord_TimeInForce (norm_tif inc) = TIFFOK \<and> \<not> canFill ob (norm_tif inc)" using assms(2) by (simp add: killed_def)
  show ?thesis using assms(1) unfolding MatchOrder_def Let_def option.case acceptable_def if_P [OF k] by auto
qed

lemma MatchOrder_unfold:
  assumes "acceptable inc" "\<not> killed ob inc"
    and st: "st = matchLevels clk (opposite_is_buy inc) (ladder ob inc)
               \<lparr>ms_book = ob, ms_incoming = norm_tif inc, ms_trades = []\<rparr>"
    and tif: "ord_TimeInForce (ms_incoming st) = normalizeTIF (ord_TimeInForce inc)"
  shows "MatchOrder D clk ob (Some inc) =
    (if Remaining (ms_incoming st) > 0 \<and> may_rest inc
     then case addOrderLocked D (ms_book st) (Some (ms_incoming st)) of
            Inl err \<Rightarrow> (ms_trades st, Some err, ms_book st, Some (ms_incoming st))
          | Inr ob' \<Rightarrow> (ms_trades st, None, ob', Some (ms_incoming st))
     else (ms_trades st, None, ms_book st, Some (ms_incoming st)))"
proof -
  have k: "\<not> (ord_TimeInForce (norm_tif inc) = TIFFOK \<and> \<not> canFill ob (norm_tif inc))" using assms(2) by (simp add: killed_def)
  note st' = st [unfolded ladder_def opposite_is_buy_def, symmetric]
  show ?thesis
    unfolding MatchOrder_def Let_def option.case if_not_P [OF k] st' tif may_rest_def
    using assms(1) unfolding acceptable_def by auto
qed

lemma MatchOrder_matched:
  assumes inv: "ob_inv D ob" and live: "ob_live ob" and ok: "acceptable inc" "\<not> killed ob inc"
    and run: "MatchOrder D clk ob (Some inc) = (ts, err, ob', inc')"
  obtains fs lefts r' obm inc1 where
    "walk_levels inc (Remaining inc) (ladder ob inc) = (fs, lefts, r')" "ts = trades_of clk inc 0 fs"
    "inc1 = addFilled (Remaining inc - r') (norm_tif inc)" "inc' = Some inc1"
    "ob_inv D obm" "ob_symbol obm = ob_symbol ob"
    "queues obm = set_queues (opposite_is_buy inc) (zip (map pl_key (ladder ob inc)) lefts) (queues ob)"
    "if 0 < r' \<and> may_rest inc
     then case addOrderLocked D obm (Some inc1) of Inl e \<Rightarrow> err = Some e \<and> ob' = obm | Inr ob2 \<Rightarrow> err = None \<and> ob' = ob2
     else err = None \<and> ob' = obm"
proof -
  let ?b = "opposite_is_buy inc" and ?st0 = "\<lparr>ms_book = ob, ms_incoming = norm_tif inc, ms_trades = []\<rparr>"
  define st where "st = matchLevels clk ?b (ladder ob inc) ?st0"
  obtain fs lefts r' where w: "walk_levels inc (Remaining inc) (ladder ob inc) = (fs, lefts, r')"
    by (cases "walk_levels inc (Remaining inc) (ladder ob inc)")
  have "ob_inv D (ms_book st) \<and> queues (ms_book st) = set_queues ?b (zip (map pl_key (ladder ob inc)) lefts) (queues ob)
    \<and> ob_symbol (ms_book st) = ob_symbol ob \<and> ms_incoming st = addFilled (Remaining inc - r') (norm_tif inc)
    \<and> ms_trades st = trades_of clk inc 0 fs"
    using matchLevels_refines [of D ?st0 "ladder ob inc" ?b fs lefts r' st clk] w st_def inv
      sortedLevels_levels(2) [OF inv] sortedLevels_view [OF inv live] by (simp add: ladder_def)
  note m = this
  have tif: "ord_TimeInForce (ms_incoming st) = normalizeTIF (ord_TimeInForce inc)" using m by simp
  have "Remaining (ms_incoming st) = r'" using m by simp
  then show thesis
    using that [OF w _ refl, of "ms_book st"] m run unfolding MatchOrder_unfold [OF ok st_def tif]
    by (auto split: if_splits sum.splits)
qed

lemma ladder_facts:
  assumes inv: "ob_inv D ob" and live: "ob_live ob"
  shows "\<forall>l \<in> set (ladder ob inc). \<forall>m \<in> set (pl_orders l). 0 < Remaining m"
    and "\<forall>(p, m) \<in> set (eligible inc (ladder ob inc)). 0 < Remaining m"
    and "distinct (map pl_key (ladder ob inc))" "distinct (map ord_ID (concat (map pl_orders (ladder ob inc))))"
    and "l \<in> set (ladder ob inc) \<Longrightarrow> queues ob (opposite_is_buy inc) (pl_key l) = pl_orders l"
    and "queues ob (opposite_is_buy inc) k \<noteq> [] \<Longrightarrow> \<exists>l \<in> set (ladder ob inc). pl_key l = k"
proof -
  let ?b = "opposite_is_buy inc"
  have v: "\<forall>l \<in> set (ladder ob inc). level_view (queues ob) ?b l"
    using sortedLevels_view [OF inv live] by (simp add: ladder_def)
  then show l: "\<forall>l \<in> set (ladder ob inc). \<forall>m \<in> set (pl_orders l). 0 < Remaining m" by (simp add: level_view_def)
  then show "\<forall>(p, m) \<in> set (eligible inc (ladder ob inc)). 0 < Remaining m" using eligible_mem by fastforce
  show d: "distinct (map pl_key (ladder ob inc))" unfolding ladder_def by (rule sortedLevels_levels(2) [OF inv])
  show "distinct (map ord_ID (concat (map pl_orders (ladder ob inc))))"
    by (rule distinct_book_ids [OF inv d]) (use v in \<open>auto simp: level_view_def\<close>)
  show "l \<in> set (ladder ob inc) \<Longrightarrow> queues ob ?b (pl_key l) = pl_orders l" using v by (simp add: level_view_def)
  assume "queues ob ?b k \<noteq> []"
  then obtain l where l: "map_of (bs_levels (side_of ?b ob)) k = Some l"
    by (cases "map_of (bs_levels (side_of ?b ob)) k") (auto simp: queues_def queue_def)
  then have "pl_key l = k" using side_inv_level [OF ob_inv_sides [OF inv]] by (auto simp: level_ok_def)
  then show "\<exists>l \<in> set (ladder ob inc). pl_key l = k"
    using l sortedLevels_levels(1) [OF inv] unfolding ladder_def by blast
qed

lemma ladder_index:
  assumes "length lefts = length ls" "distinct (map pl_key ls)" "list_all2 P ls lefts" "l \<in> set ls"
  shows "\<exists>left. map_of (zip (map pl_key ls) lefts) (pl_key l) = Some left \<and> (l, left) \<in> set (zip ls lefts) \<and> P l left"
  using assms(3,2,4) by (induction rule: list_all2_induct) (auto simp: image_iff)

lemma crossing_levels:
  "sorted_wrt (\<lambda>l l'. priceCrosses inc (pl_price l') \<longrightarrow> priceCrosses inc (pl_price l)) (ladder ob inc)"
proof (rule sorted_wrt_mono_rel)
  show "sorted_wrt (better (normalizeSide (ord_Side inc))) (ladder ob inc)" by (simp add: ladder_def sortedLevels_sorted)
  show "priceCrosses inc (pl_price l') \<longrightarrow> priceCrosses inc (pl_price l)"
    if "better (normalizeSide (ord_Side inc)) l l'" for l l'
    using that by (auto simp: priceCrosses_def Let_def split: if_splits)
qed

text \<open>The book between the matching and the resting of the incoming order.\<close>

lemma matched_book:
  assumes inv: "ob_inv D ob" and live: "ob_live ob"
    and w: "walk_levels inc (Remaining inc) (ladder ob inc) = (fs, lefts, r')"
    and q: "queues obm = set_queues (opposite_is_buy inc) (zip (map pl_key (ladder ob inc)) lefts) (queues ob)"
  shows "leaves inc fs (queues ob (opposite_is_buy inc) k) (queues obm (opposite_is_buy inc) k)"
    and "queues obm (\<not> opposite_is_buy inc) = queues ob (\<not> opposite_is_buy inc)"
    and "0 < r' \<Longrightarrow> ob_inv D obm \<Longrightarrow> m \<in> set (queues obm (opposite_is_buy inc) k) \<Longrightarrow> priceCrosses inc (ord_Price m) \<Longrightarrow> sameAccount inc m"
proof -
  let ?b = "opposite_is_buy inc" and ?ls = "ladder ob inc"
  note lf = ladder_facts [OF inv live, where inc = inc]
  have ll: "list_all2 (\<lambda>l left. leaves inc fs (pl_orders l) left) ?ls lefts"
    using walk_levels_left [OF w] lf by blast
  note ix = ladder_index [OF length_walk_levels [OF w] lf(3) ll]
  have lv: "leaves inc fs (queues ob ?b k) (queues obm ?b k)" for k
  proof (cases "\<exists>l \<in> set ?ls. pl_key l = k")
    case True
    then obtain l where l: "l \<in> set ?ls" "pl_key l = k" by blast
    then show ?thesis using ix [OF l(1)] lf(5) [OF l(1)] by (auto simp: q set_queues_def)
  next
    case False
    then have "queues ob ?b k = []" using lf(6) by blast
    moreover have "map_of (zip (map pl_key ?ls) lefts) k = None"
      using False by (auto simp: map_of_eq_None_iff dest!: set_zip_leftD)
    ultimately show ?thesis by (simp add: q set_queues_def leaves_def)
  qed
  then show "leaves inc fs (queues ob ?b k) (queues obm ?b k)" .
  show "queues obm (\<not> ?b) = queues ob (\<not> ?b)" by (simp add: q set_queues_def fun_eq_iff)
  assume r': "0 < r'" and invm: "ob_inv D obm" and m: "m \<in> set (queues obm ?b k)" and c: "priceCrosses inc (ord_Price m)"
  then have "queues ob ?b k \<noteq> []" using lv [of k] by (auto simp: leaves_def)
  then obtain l where l: "l \<in> set ?ls" "pl_key l = k" using lf(6) by blast
  then obtain left where left: "map_of (zip (map pl_key ?ls) lefts) k = Some left" "(l, left) \<in> set (zip ?ls lefts)"
    using ix [OF l(1)] by blast
  then have ml: "m \<in> set left" using m by (simp add: q set_queues_def)
  have "ord_Price m = pl_price l"
  proof -
    have "m \<in> set (concat (map (\<lambda>m. residue (taken fs (ord_ID m)) m) (queues ob ?b k)))"
      using lv [of k] m by (auto simp: leaves_def)
    then obtain m0 where m0: "m0 \<in> set (queues ob ?b k)" "ord_Price m = ord_Price m0"
      by (auto simp: residue_def split: if_splits)
    then show ?thesis
      using queue_memD(3) [OF ob_inv_sides [OF inv, of ?b], of m0 k] l
        sortedLevels_levels(1) [OF inv, of l "normalizeSide (ord_Side inc)" ?b]
      by (auto simp: queues_def ladder_def)
  qed
  then show "sameAccount inc m" using walk_levels_open [OF w r' crossing_levels] ml left(2) c by auto
qed

lemma leaves_subset: "leaves inc fs os left \<Longrightarrow> ord_ID ` set left \<subseteq> ord_ID ` set os"
  by (auto simp: leaves_def residue_def split: if_splits)

lemma leaves_live: "leaves inc fs os left \<Longrightarrow> m \<in> set left \<Longrightarrow> 0 < Remaining m"
  by (auto simp: leaves_def residue_def split: if_splits)

lemma opposite_side_name: "acceptable inc \<Longrightarrow> normalizeSide (ord_Side inc) = side_name (\<not> opposite_is_buy inc)"
  by (auto simp: acceptable_def opposite_is_buy_def side_name_def normalizeSide_def Let_def split: if_splits)

abbreviation greedy_fills :: "'d::linordered_idom OrderBook \<Rightarrow> 'd Order \<Rightarrow> ('d \<times> 'd Order \<times> 'd) list" where
  "greedy_fills ob inc \<equiv> greedy (Remaining inc) (eligible inc (ladder ob inc))"

text \<open>The incoming order as it is after the walk.\<close>

definition after_match :: "'d::linordered_idom OrderBook \<Rightarrow> 'd Order \<Rightarrow> 'd Order" where
  "after_match ob inc = addFilled (filled_total (greedy_fills ob inc)) (norm_tif inc)"

lemma after_match_simps [simp]:
  "ord_ID (after_match ob inc) = ord_ID inc" "ord_Price (after_match ob inc) = ord_Price inc"
  "ord_Side (after_match ob inc) = ord_Side inc" "ord_Type (after_match ob inc) = ord_Type inc"
  "Remaining (after_match ob inc) = Remaining inc - filled_total (greedy_fills ob inc)"
  by (simp_all add: after_match_def)

lemma MatchOrder_outcome:
  assumes inv: "ob_inv D ob" and live: "ob_live ob" and inj: "inj (DecString D)"
    and ok: "acceptable inc" "\<not> killed ob inc" and run: "MatchOrder D clk ob (Some inc) = (ts, err, ob', inc')"
  defines "b \<equiv> opposite_is_buy inc" and "fs \<equiv> greedy_fills ob inc" and "inc1 \<equiv> after_match ob inc"
  shows "ts = trades_of clk inc 0 fs" "inc' = Some inc1"
    and "ob_inv D ob'" "ob_live ob'" "ob_symbol ob' = ob_symbol ob"
    and "leaves inc fs (queues ob b k) (queues ob' b k)"
    and "0 < Remaining inc1 \<Longrightarrow> m \<in> set (queues ob' b k) \<Longrightarrow> priceCrosses inc (ord_Price m) \<Longrightarrow> sameAccount inc m"
    and "\<not> (0 < Remaining inc1 \<and> may_rest inc) \<Longrightarrow> err = None \<and> queues ob' (\<not> b) = queues ob (\<not> b)"
    and "0 < Remaining inc1 \<Longrightarrow> may_rest inc \<Longrightarrow> restable (\<not> b) inc1 \<Longrightarrow> (\<And>b k. ord_ID inc \<notin> ord_ID ` set (queues ob b k)) \<Longrightarrow>
      err = None \<and> queues ob' (\<not> b) = (queues ob (\<not> b))(DecString D (ord_Price inc) := queues ob (\<not> b) (DecString D (ord_Price inc)) @ [inc1])"
proof -
  obtain fs0 lefts r' obm inc0 where
    w: "walk_levels inc (Remaining inc) (ladder ob inc) = (fs0, lefts, r')" and ts: "ts = trades_of clk inc 0 fs0"
    and inc0: "inc0 = addFilled (Remaining inc - r') (norm_tif inc)" and inc': "inc' = Some inc0"
    and invm: "ob_inv D obm" and sym: "ob_symbol obm = ob_symbol ob"
    and q: "queues obm = set_queues (opposite_is_buy inc) (zip (map pl_key (ladder ob inc)) lefts) (queues ob)"
    and res: "if 0 < r' \<and> may_rest inc
     then case addOrderLocked D obm (Some inc0) of Inl e \<Rightarrow> err = Some e \<and> ob' = obm | Inr ob2 \<Rightarrow> err = None \<and> ob' = ob2
     else err = None \<and> ob' = obm"
    by (rule MatchOrder_matched [OF inv live ok run])
  have fs0: "fs0 = fs" using walk_levels_fills [OF w] by (simp add: fs_def)
  have tot: "r' = Remaining inc - filled_total fs" using walk_levels_total [OF w] unfolding fs0 .
  then have r': "r' = Remaining inc1" by (simp add: inc1_def fs_def)
  have inc1: "inc0 = inc1" unfolding inc0 tot inc1_def after_match_def fs_def by simp
  note mb = matched_book [OF inv live w q, unfolded fs0, folded b_def]
  have livem: "ob_live obm"
    unfolding ob_live_def
  proof (intro allI ballI)
    fix b' k m assume "m \<in> set (queues obm b' k)"
    then show "0 < Remaining m" using leaves_live [OF mb(1) [of k]] mb(2) live
      by (cases "b' = b") (auto simp: ob_live_def fun_eq_iff)
  qed
  have side: "normalizeSide (ord_Side inc1) = side_name b' \<Longrightarrow> b' = (\<not> b)" for b'
    using opposite_side_name [OF ok(1)] by (auto simp: inc1_def b_def side_name_def split: if_splits)
  have res2: "ob_inv D ob' \<and> ob_symbol ob' = ob_symbol ob \<and> (ob' = obm \<or> 0 < Remaining inc1 \<and>
      queues ob' = enqueue (\<not> b) (DecString D (ord_Price inc)) inc1 (queues obm))"
  proof (cases "ob' = obm")
    case True then show ?thesis using invm sym by simp
  next
    case False
    then have "addOrderLocked D obm (Some inc1) = Inr ob'" using res inc1 by (auto split: if_splits sum.splits)
    from addOrderLocked_cases [OF invm inj this] show ?thesis
      using sym side False by (auto simp: inc1_def)
  qed
  have opp: "queues ob' b = queues obm b" using res2 by (auto simp: enqueue_def fun_eq_iff)
  show "ts = trades_of clk inc 0 fs" "inc' = Some inc1" by (simp_all add: ts fs0 inc' inc1)
  show "ob_inv D ob'" "ob_symbol ob' = ob_symbol ob" using res2 by blast+
  show "ob_live ob'"
    using res2 livem unfolding ob_live_def by (auto simp: enqueue_def split: if_splits)
  show "leaves inc fs (queues ob b k) (queues ob' b k)" using mb(1) opp by simp
  show "0 < Remaining inc1 \<Longrightarrow> m \<in> set (queues ob' b k) \<Longrightarrow> priceCrosses inc (ord_Price m) \<Longrightarrow> sameAccount inc m"
    using mb(3) [OF _ invm] r' opp by simp
  show "\<not> (0 < Remaining inc1 \<and> may_rest inc) \<Longrightarrow> err = None \<and> queues ob' (\<not> b) = queues ob (\<not> b)"
    using res r' mb(2) by auto
  assume a: "0 < Remaining inc1" "may_rest inc" "restable (\<not> b) inc1" and fresh: "\<And>b k. ord_ID inc \<notin> ord_ID ` set (queues ob b k)"
  have "ord_ID inc1 \<notin> ord_ID ` set (queues obm b' k)" for b' k
    using fresh [of b' k] leaves_subset [OF mb(1) [of k]] mb(2) by (cases "b' = b") (auto simp: inc1_def fun_eq_iff)
  then have "\<exists>ob2. addOrderLocked D obm (Some inc1) = Inr ob2 \<and> queues ob2 = enqueue (\<not> b) (DecString D (ord_Price inc1)) inc1 (queues obm)"
    using book.add_accepted [of D obm "\<not> b" inc1] invm inj a by blast
  then show "err = None \<and> queues ob' (\<not> b) = (queues ob (\<not> b))(DecString D (ord_Price inc) := queues ob (\<not> b) (DecString D (ord_Price inc)) @ [inc1])"
    using res a r' inc1 mb(2) by (auto simp: enqueue_def fun_eq_iff inc1_def)
qed

section \<open>Properties of the matcher\<close>

definition filled_by :: "'d::linordered_idom Trade list \<Rightarrow> string \<Rightarrow> 'd" where
  "filled_by ts i = sum_list (map tr_Quantity (filter (\<lambda>t. tr_MakerOrderID t = i) ts))"

definition traded :: "'d::linordered_idom Trade list \<Rightarrow> 'd" where
  "traded ts = sum_list (map tr_Quantity ts)"

lemma mkTrade_simps [simp]:
  "tr_TradeID (mkTrade clk n inc p m q) = ''''" "tr_Symbol (mkTrade clk n inc p m q) = ord_Symbol inc"
  "tr_MakerOrderID (mkTrade clk n inc p m q) = ord_ID m" "tr_TakerOrderID (mkTrade clk n inc p m q) = ord_ID inc"
  "tr_Price (mkTrade clk n inc p m q) = p" "tr_Quantity (mkTrade clk n inc p m q) = q"
  "tr_MakerSide (mkTrade clk n inc p m q) = ord_Side m"
  by (simp_all add: mkTrade_def)

lemma trades_of_sums:
  "filled_by (trades_of clk inc n fs) i = taken fs i" "traded (trades_of clk inc n fs) = filled_total fs"
  unfolding filled_by_def traded_def by (induction fs arbitrary: n) auto

lemma trades_of_mem: "t \<in> set (trades_of clk inc n fs) \<Longrightarrow> \<exists>i p m q. (p, m, q) \<in> set fs \<and> t = mkTrade clk i inc p m q"
proof (induction fs arbitrary: n)
  case (Cons f fs) then show ?case by (cases f) fastforce
qed simp

lemma eligible_resting:
  assumes inv: "ob_inv D ob" and "(p, m) \<in> set (eligible inc (ladder ob inc))"
  shows "\<exists>k. m \<in> set (queues ob (opposite_is_buy inc) k)" and "ord_Price m = p"
    and "\<not> sameAccount inc m" "priceCrosses inc p"
proof -
  obtain l where l: "l \<in> set (ladder ob inc)" "pl_price l = p" "m \<in> set (pl_orders l)"
    and "\<not> sameAccount inc m" "priceCrosses inc p" using eligible_mem [OF assms(2)] by blast
  then show "\<not> sameAccount inc m" "priceCrosses inc p" by simp_all
  have s: "map_of (bs_levels (side_of (opposite_is_buy inc) ob)) (pl_key l) = Some l"
    using l(1) sortedLevels_levels(1) [OF inv] unfolding ladder_def by blast
  then have "m \<in> set (queues ob (opposite_is_buy inc) (pl_key l))" using l(3) by (simp add: queues_def queue_def)
  then show "\<exists>k. m \<in> set (queues ob (opposite_is_buy inc) k)" ..
  show "ord_Price m = p"
    using side_inv_level [OF ob_inv_sides [OF inv] s] l(2,3) by (auto simp: level_ok_def order_ok_def)
qed

lemma MatchOrder_cases:
  obtains (rejected) e i where "\<not> acceptable inc" "MatchOrder D clk ob (Some inc) = ([], Some e, ob, Some i)"
  | (killed) "acceptable inc" "killed ob inc" "MatchOrder D clk ob (Some inc) = ([], None, ob, Some (norm_tif inc))"
  | (matched) "acceptable inc" "\<not> killed ob inc"
  using MatchOrder_rejects MatchOrder_killed by metis

lemma matched_keeps:
  assumes "ob_inv D ob" "ob_live ob" "inj (DecString D)" "MatchOrder D clk ob (Some inc) = (ts, err, ob', inc')"
  shows "ob_inv D ob' \<and> ob_live ob'"
proof (cases rule: MatchOrder_cases [of inc D clk ob])
  case matched
  note out = MatchOrder_outcome [OF assms(1-3) matched assms(4)]
  show ?thesis using out(3,4) by blast
qed (use assms in auto)

text \<open>A seller against the sample book, with a given time in force, and a run of the matcher on it.\<close>

definition sample_taker :: "string \<Rightarrow> int \<Rightarrow> int Order" where
  "sample_taker tif qty = (sample_order ''t1'' ''dave'' ''sell'' 100 qty)\<lparr>ord_TimeInForce := tif\<rparr>"

definition sample_run :: "string \<Rightarrow> int \<Rightarrow> int Trade list \<times> go_error option \<times> int OrderBook \<times> int Order option" where
  "sample_run tif qty = MatchOrder int_decimal int sample_book (Some (sample_taker tif qty))"

lemma sample_run_split:
  "MatchOrder int_decimal int sample_book (Some (sample_taker tif qty)) =
     (fst (sample_run tif qty), fst (snd (sample_run tif qty)), fst (snd (snd (sample_run tif qty))), snd (snd (snd (sample_run tif qty))))"
  by (simp add: sample_run_def)

lemma sample_taker_ok: "0 < q \<Longrightarrow> acceptable (sample_taker tif q)" "Remaining (sample_taker tif q) = q"
  by (simp_all add: acceptable_def sample_taker_def)

lemma sample_taker_fresh: "''t1'' \<notin> ord_ID ` set (queues sample_book b k)"
proof -
  have "map_of (ob_orders sample_book) ''t1'' = None" by code_simp
  then show ?thesis using ob_inv_no_ref [OF sample_book_inv(1)] by blast
qed



text \<open>
  C3: \<open>MatchOrder\<close> keeps the book: whatever the incoming order, a consistent book without dead
  orders stays one, and an order that is rejected leaves it untouched and trades nothing.
\<close>

theorem MatchOrder_keeps_book:
  assumes "ob_inv D ob" "ob_live ob" "inj (DecString D)" "MatchOrder D clk ob (Some inc) = (ts, err, ob', inc')"
  shows "ob_inv D ob' \<and> ob_live ob' \<and> ob_symbol ob' = ob_symbol ob
    \<and> (\<not> acceptable inc \<longrightarrow> err \<noteq> None \<and> ts = [] \<and> ob' = ob)"
proof (cases rule: MatchOrder_cases [of inc D clk ob])
  case matched
  note out = MatchOrder_outcome [OF assms(1-3) matched assms(4)]
  show ?thesis using out(3-5) matched(1) by blast
qed (use assms in auto)

theorem MatchOrder_keeps_book_witness:
  "ob_inv int_decimal (fst (snd (snd (sample_run ''GTC'' 20)))) \<and> ob_live (fst (snd (snd (sample_run ''GTC'' 20))))
     \<and> queues (fst (snd (snd (sample_run ''GTC'' 20)))) True ''100'' = []"
proof -
  have "queues (fst (snd (snd (sample_run ''GTC'' 20)))) True ''100'' = []" by code_simp
  then show ?thesis
    using MatchOrder_keeps_book [OF sample_book_inv _ sample_run_split, of "''GTC''" 20] by simp
qed



text \<open>
  C2: Quantities are conserved: the incoming order's filled quantity grows by exactly the traded
  total and never beyond its quantity, and every opposite order loses exactly what the trades that
  name it took, in place and in order, leaving the book when nothing remains of it. The only other
  change is that a level holding none but the incoming account's orders may be emptied.
\<close>

theorem MatchOrder_conserves:
  assumes "ob_inv D ob" "ob_live ob" "inj (DecString D)" "acceptable inc" "0 \<le> Remaining inc"
    and "MatchOrder D clk ob (Some inc) = (ts, err, ob', inc')"
  shows "\<exists>i. inc' = Some i \<and> ord_Filled i = ord_Filled inc + traded ts \<and> traded ts \<le> Remaining inc
    \<and> (\<forall>k. queues ob' (opposite_is_buy inc) k =
            concat (map (\<lambda>m. residue (filled_by ts (ord_ID m)) m) (queues ob (opposite_is_buy inc) k))
          \<or> list_all (sameAccount inc) (queues ob (opposite_is_buy inc) k) \<and> queues ob' (opposite_is_buy inc) k = [])"
proof (cases rule: MatchOrder_cases [of inc D clk ob])
  case killed
  have "concat (map (\<lambda>m. residue (filled_by [] (ord_ID m)) m) (queues ob b k)) = queues ob b k" for b k
    using residue_none [of "queues ob b k"] assms(2) by (simp add: filled_by_def ob_live_def)
  then show ?thesis using killed assms(5,6) by (auto simp: traded_def)
next
  case matched
  note out = MatchOrder_outcome [OF assms(1-3) matched assms(6)]
  let ?fs = "greedy_fills ob inc"
  have "filled_total ?fs \<le> Remaining inc"
    using greedy_total [OF ladder_facts(2) [OF assms(1,2)] assms(5)] by (simp add: min_def)
  moreover have "ord_Filled (after_match ob inc) = ord_Filled inc + filled_total ?fs"
    by (simp add: after_match_def addFilled_def)
  ultimately show ?thesis
    using out(1,2,6) unfolding leaves_def by (simp add: trades_of_sums)
qed (use assms(4) in auto)

theorem MatchOrder_conserves_witness:
  "\<exists>i. snd (snd (snd (sample_run ''GTC'' 8))) = Some i \<and> ord_Filled i = 0 + traded (fst (sample_run ''GTC'' 8))
     \<and> traded (fst (sample_run ''GTC'' 8)) = 8"
proof -
  have "traded (fst (sample_run ''GTC'' 8)) = 8" by code_simp
  then show ?thesis
    using MatchOrder_conserves [OF sample_book_inv _ sample_taker_ok(1) _ sample_run_split [of "''GTC''" 8]]
    by (auto simp: sample_taker_ok) (auto simp: sample_taker_def sample_order_def)
qed

text \<open>
  C5: Fill-or-kill is all or nothing: such an order either trades its whole open quantity, or trades
  nothing and leaves the book untouched, and the latter happens exactly when the crossing orders of
  other accounts do not add up to it.
\<close>

theorem MatchOrder_fill_or_kill:
  assumes "ob_inv D ob" "ob_live ob" "inj (DecString D)" "acceptable inc" "0 < Remaining inc"
    and "normalizeTIF (ord_TimeInForce inc) = TIFFOK" "MatchOrder D clk ob (Some inc) = (ts, err, ob', inc')"
  shows "if Remaining inc \<le> available (eligible inc (ladder ob inc))
    then traded ts = Remaining inc \<and> map_option Remaining inc' = Some 0
    else ts = [] \<and> ob' = ob \<and> inc' = Some (norm_tif inc)"
proof -
  have side: "normalizeSide (ord_Side inc) \<noteq> ''''" "normalizeType (ord_Type inc) \<noteq> ''''" using assms(4) by (simp_all add: acceptable_def)
  have "canFill ob inc \<longleftrightarrow> canFill_levels inc (Remaining inc) (ladder ob inc)"
    using side by (auto simp: canFill_def Let_def ladder_def opposite_is_buy_def side_of_def)
  then have k: "killed ob inc \<longleftrightarrow> \<not> Remaining inc \<le> available (eligible inc (ladder ob inc))"
    using canFill_levels_available [OF ladder_facts(1) [OF assms(1,2)], of inc "Remaining inc"] assms(6) by (simp add: killed_def)
  show ?thesis
  proof (cases "killed ob inc")
    case True then show ?thesis using k MatchOrder_killed [OF assms(4) True, of D clk] assms(7) by simp
  next
    case False
    note out = MatchOrder_outcome [OF assms(1-4) False assms(7)]
    have "filled_total (greedy_fills ob inc) = Remaining inc"
      using greedy_total [OF ladder_facts(2) [OF assms(1,2)], of "Remaining inc" inc] assms(5) k False
      by (simp add: available_def [symmetric])
    then show ?thesis using k False out(1,2) by (simp add: trades_of_sums)
  qed
qed

theorem MatchOrder_fill_or_kill_witness:
  "traded (fst (sample_run ''FOK'' 8)) = 8 \<and> fst (sample_run ''FOK'' 13) = [] \<and> fst (snd (snd (sample_run ''FOK'' 13))) = sample_book"
proof -
  have a: "available (eligible (sample_taker ''FOK'' q) (ladder sample_book (sample_taker ''FOK'' q))) = 12" if "q = 8 \<or> q = 13" for q
    using that by (elim disjE) (simp only:, code_simp)+
  have t: "normalizeTIF (ord_TimeInForce (sample_taker ''FOK'' q)) = TIFFOK" for q by (simp add: sample_taker_def)
  note fok = MatchOrder_fill_or_kill [OF sample_book_inv _ sample_taker_ok(1) _ t sample_run_split]
  show ?thesis using fok [of 8] fok [of 13] a [of 8] a [of 13] by (simp add: sample_taker_ok)
qed

text \<open>
  Market, immediate-or-cancel and fill-or-kill orders never rest: they leave every queue of their own
  side as it was.
\<close>

theorem MatchOrder_never_rests:
  assumes "ob_inv D ob" "ob_live ob" "inj (DecString D)" "MatchOrder D clk ob (Some inc) = (ts, err, ob', inc')"
    and "normalizeType (ord_Type inc) = TypeMarket \<or> normalizeTIF (ord_TimeInForce inc) = TIFIOC
      \<or> normalizeTIF (ord_TimeInForce inc) = TIFFOK"
  shows "queues ob' (\<not> opposite_is_buy inc) = queues ob (\<not> opposite_is_buy inc)"
proof (cases rule: MatchOrder_cases [of inc D clk ob])
  case matched
  note out = MatchOrder_outcome [OF assms(1-3) matched assms(4)]
  have "\<not> may_rest inc" using assms(5) by (auto simp: may_rest_def)
  then show ?thesis using out(8) by blast
qed (use assms(4) in auto)

theorem MatchOrder_never_rests_witness:
  "queues (fst (snd (snd (sample_run ''IOC'' 20)))) False = queues sample_book False"
  using MatchOrder_never_rests [OF sample_book_inv _ sample_run_split, of "''IOC''" 20]
  by (simp add: sample_taker_def opposite_is_buy_def)

text \<open>
  C6: What is left of a good-till-cancelled limit order rests at the back of the queue of its price, and
  only once no order of another account is left that it could have traded with: every opposite order its
  price still crosses belongs to the same account.
\<close>

theorem MatchOrder_rests_uncrossed:
  assumes "ob_inv D ob" "ob_live ob" "inj (DecString D)" "acceptable inc" "may_rest inc"
    and "TrimSpace (ord_ID inc) \<noteq> ''''" "\<And>b k. ord_ID inc \<notin> ord_ID ` set (queues ob b k)"
    and "MatchOrder D clk ob (Some inc) = (ts, err, ob', Some i)" "0 < Remaining i"
  shows "err = None \<and> (\<forall>k. queues ob' (\<not> opposite_is_buy inc) k =
        queues ob (\<not> opposite_is_buy inc) k @ (if k = DecString D (ord_Price inc) then [i] else []))
    \<and> (\<forall>k m. m \<in> set (queues ob' (opposite_is_buy inc) k) \<and> priceCrosses inc (ord_Price m) \<longrightarrow> sameAccount inc m)"
proof -
  have nk: "\<not> killed ob inc" using assms(5) by (auto simp: killed_def may_rest_def)
  note out = MatchOrder_outcome [OF assms(1-4) nk assms(8)]
  have i: "i = after_match ob inc" using out(2) by simp
  have "ord_Type inc \<noteq> TypeMarket" using assms(5) by (auto simp: may_rest_def)
  then have "restable (\<not> opposite_is_buy inc) i"
    using assms(6,9) opposite_side_name [OF assms(4)] by (simp add: i restable_def)
  then show ?thesis using out(7) out(9) assms(5,7,9) unfolding i by auto
qed

theorem MatchOrder_rests_uncrossed_witness:
  "\<exists>i. snd (snd (snd (sample_run ''GTC'' 20))) = Some i \<and> Remaining i = 8
     \<and> queues (fst (snd (snd (sample_run ''GTC'' 20)))) False ''100'' = queues sample_book False ''100'' @ [i]"
proof -
  have "map_option Remaining (snd (snd (snd (sample_run ''GTC'' 20)))) = Some 8" by code_simp
  then obtain i where i: "snd (snd (snd (sample_run ''GTC'' 20))) = Some i" "Remaining i = 8" by auto
  have c: "int_string 100 = ''100''" "TrimSpace ''t1'' = ''t1''" by code_simp+
  have f: "ord_ID (sample_taker ''GTC'' 20) \<notin> ord_ID ` set (queues sample_book b k)" for b k
    using sample_taker_fresh by (simp add: sample_taker_def)
  have "may_rest (sample_taker ''GTC'' 20)" "TrimSpace (ord_ID (sample_taker ''GTC'' 20)) \<noteq> ''''"
    by (simp_all add: may_rest_def sample_taker_def c)
  from MatchOrder_rests_uncrossed [OF sample_book_inv _ sample_taker_ok(1) this f
      sample_run_split [of "''GTC''" 20, unfolded i(1)]] i
  have "queues (fst (snd (snd (sample_run ''GTC'' 20)))) (\<not> opposite_is_buy (sample_taker ''GTC'' 20)) ''100'' =
      queues sample_book (\<not> opposite_is_buy (sample_taker ''GTC'' 20)) ''100'' @ [i]"
    by (auto simp: sample_taker_def c)
  then show ?thesis using i by (simp add: opposite_is_buy_def sample_taker_def)
qed

end
