(* ===== verification/Kafka.thy ===== *)
theory Kafka
  imports Go_Prelude
begin

text \<open>
  The shared messaging library \<^verbatim>\<open>libs/kafka\<close>: event envelopes and deterministic event IDs
  (\<^verbatim>\<open>events.go\<close>), dead-letter errors and payloads (\<^verbatim>\<open>dlq.go\<close>), the publishers (\<^verbatim>\<open>producer.go\<close>) and
  the consumer loop with its retry tracker (\<^verbatim>\<open>consumer.go\<close>). The broker (sarama), JSON encoding, UUID
  hashing and the text of errors are parameters; what the loop does with their answers is the model.
\<close>

section \<open>Events\<close>

record Envelope =
  env_EventID :: string
  env_EventType :: string
  env_EventVersion :: int
  env_Timestamp :: time
  env_CorrelationID :: string

text \<open>\<open>uuid.NewString()\<close> and \<open>time.Now()\<close> are the arguments \<open>fresh\<close> and \<open>now\<close>.\<close>

definition NewEnvelope :: "string \<Rightarrow> time \<Rightarrow> string \<Rightarrow> int \<Rightarrow> string \<Rightarrow> go_error + Envelope" where
  "NewEnvelope fresh now eventType version correlationID =
     (if eventType = '''' then Inl (Errorf ''event_type is required'' [])
      else if version \<le> 0 then Inl (Errorf ''event_version must be positive'' [])
      else Inr \<lparr>env_EventID = fresh, env_EventType = eventType, env_EventVersion = version,
                env_Timestamp = now, env_CorrelationID = correlationID\<rparr>)"

definition NewEnvelopeWithID :: "time \<Rightarrow> string \<Rightarrow> string \<Rightarrow> int \<Rightarrow> string \<Rightarrow> go_error + Envelope" where
  "NewEnvelopeWithID now eventID eventType version correlationID =
     (if eventID = '''' then Inl (Errorf ''event_id is required'' [])
      else if eventType = '''' then Inl (Errorf ''event_type is required'' [])
      else if version \<le> 0 then Inl (Errorf ''event_version must be positive'' [])
      else Inr \<lparr>env_EventID = eventID, env_EventType = eventType, env_EventVersion = version,
                env_Timestamp = now, env_CorrelationID = correlationID\<rparr>)"

definition uuid_Nil_String :: string where
  "uuid_Nil_String = ''00000000-0000-0000-0000-000000000000''"

text \<open>\<open>sha1\<close> stands for \<open>uuid.NewSHA1(uuid.NameSpaceURL, name).String()\<close>.\<close>

definition DeterministicEventID :: "(string \<Rightarrow> string) \<Rightarrow> string list \<Rightarrow> string" where
  "DeterministicEventID sha1 parts =
     (let joined = Join parts ''|'' in if joined = '''' then uuid_Nil_String else sha1 joined)"

definition Envelope_Validate :: "Envelope \<Rightarrow> go_error option" where
  "Envelope_Validate e =
     (if env_EventID e = '''' then Some (Errorf ''event_id is required'' [])
      else if env_EventType e = '''' then Some (Errorf ''event_type is required'' [])
      else if env_EventVersion e \<le> 0 then Some (Errorf ''event_version must be positive'' [])
      else if IsZeroTime (env_Timestamp e) then Some (Errorf ''timestamp is required'' [])
      else None)"

section \<open>Dead letters\<close>

record ConsumerMessage =
  cm_Topic :: string
  cm_Partition :: int
  cm_Offset :: int
  cm_Key :: string
  cm_Value :: string

definition DLQ :: "go_error option \<Rightarrow> string \<Rightarrow> go_error option" where
  "DLQ err reason = (case err of None \<Rightarrow> None | Some e \<Rightarrow> Some (DLQErr reason e))"

text \<open>The methods of \<open>*DLQError\<close>; \<open>errText\<close> is the \<open>Error\<close> method of the wrapped error.\<close>

definition DLQError_Error :: "(go_error \<Rightarrow> string) \<Rightarrow> go_error option \<Rightarrow> string" where
  "DLQError_Error errText e =
     (case e of
        Some (DLQErr reason err) \<Rightarrow> if reason = '''' then errText err else reason @ '': '' @ errText err
      | _ \<Rightarrow> '''')"

definition DLQError_Unwrap :: "go_error option \<Rightarrow> go_error option" where
  "DLQError_Unwrap e = (case e of Some (DLQErr reason err) \<Rightarrow> Some err | _ \<Rightarrow> None)"

record DLQPayload =
  dp_OriginalTopic :: string
  dp_Partition :: int
  dp_Offset :: int
  dp_Key :: string
  dp_Error :: string
  dp_Reason :: string
  dp_Attempts :: int
  dp_Payload :: string
  dp_Timestamp :: time

definition BuildDLQPayload ::
  "(go_error \<Rightarrow> string) \<Rightarrow> time \<Rightarrow> ConsumerMessage \<Rightarrow> go_error option \<Rightarrow> int \<Rightarrow> DLQPayload" where
  "BuildDLQPayload errText now msg err attempts =
     (let key = cm_Key msg;
          payload = (if length (cm_Value msg) > 0 then EncodeToString (cm_Value msg) else '''');
          (errMsg, reason) = (case err of Some (DLQErr r e) \<Rightarrow> (errText e, r) | _ \<Rightarrow> ('''', ''''))
      in \<lparr>dp_OriginalTopic = cm_Topic msg, dp_Partition = cm_Partition msg, dp_Offset = cm_Offset msg,
          dp_Key = key, dp_Error = errMsg, dp_Reason = reason, dp_Attempts = attempts, dp_Payload = payload,
          dp_Timestamp = now\<rparr>)"

record DLQPublishPayload =
  dpp_OriginalTopic :: string
  dpp_Key :: string
  dpp_Error :: string
  dpp_Reason :: string
  dpp_Attempts :: int
  dpp_Payload :: string
  dpp_Timestamp :: time

text \<open>\<open>marshal\<close> is \<open>json.Marshal\<close> and \<open>sprint\<close> is \<open>fmt.Sprintf("%v", \<dots>)\<close> on the type of the value.\<close>

definition BuildPublishDLQPayload ::
  "('v \<Rightarrow> go_error + string) \<Rightarrow> ('v \<Rightarrow> string) \<Rightarrow> (go_error \<Rightarrow> string) \<Rightarrow> time \<Rightarrow>
   string \<Rightarrow> string \<Rightarrow> 'v option \<Rightarrow> go_error option \<Rightarrow> string \<Rightarrow> int \<Rightarrow> DLQPublishPayload" where
  "BuildPublishDLQPayload marshal sprint errText now topic key val err reason attempts =
     (let payload = (case val of
                       None \<Rightarrow> ''''
                     | Some v \<Rightarrow> (case marshal v of
                                    Inr raw \<Rightarrow> EncodeToString raw
                                  | Inl marshalErr \<Rightarrow> EncodeToString (sprint v)));
          errMsg = (case err of None \<Rightarrow> '''' | Some e \<Rightarrow> errText e)
      in \<lparr>dpp_OriginalTopic = topic, dpp_Key = key, dpp_Error = errMsg, dpp_Reason = reason,
          dpp_Attempts = attempts, dpp_Payload = payload, dpp_Timestamp = now\<rparr>)"

section \<open>Publishers\<close>

text \<open>
  \<open>SyncProducer\<close>. The producer's state is the list of messages the broker has accepted and the number
  of calls made; \<open>ctx\<close> says whether the context of a call is done, and \<open>send\<close> is the broker's answer to
  \<open>SendMessage\<close> at that call.
\<close>

record producer_state =
  ps_sent :: "(string \<times> string \<times> string) list"
  ps_calls :: nat

record broker =
  br_ctx :: "nat \<Rightarrow> go_error option"
  br_send :: "nat \<Rightarrow> go_error + int \<times> int"

definition NewSyncProducer :: "string list \<Rightarrow> go_error option \<Rightarrow> go_error + producer_state" where
  "NewSyncProducer brokers dial =
     (if brokers = [] then Inl (Errorf ''kafka brokers required'' [])
      else case dial of
        Some err \<Rightarrow> Inl (Wrapf ''create kafka producer: %w'' err)
      | None \<Rightarrow> Inr \<lparr>ps_sent = [], ps_calls = 0\<rparr>)"

definition SyncProducer_PublishJSON ::
  "broker \<Rightarrow> ('v \<Rightarrow> go_error + string) \<Rightarrow> producer_state \<Rightarrow> string \<Rightarrow> string \<Rightarrow> 'v \<Rightarrow>
   (go_error + int \<times> int) \<times> producer_state" where
  "SyncProducer_PublishJSON B marshal p topic key v =
     (let p1 = p\<lparr>ps_calls := ps_calls p + 1\<rparr> in
      case br_ctx B (ps_calls p) of
        Some err \<Rightarrow> (Inl err, p1)
      | None \<Rightarrow>
        (case marshal v of
           Inl err \<Rightarrow> (Inl (Wrapf ''marshal kafka payload: %w'' err), p1)
         | Inr payload \<Rightarrow>
           (case br_send B (ps_calls p) of
              Inl err \<Rightarrow> (Inl (Wrapf ''kafka publish failed: %w'' err), p1)
            | Inr partition_offset \<Rightarrow>
                (Inr partition_offset, p1\<lparr>ps_sent := ps_sent p @ [(topic, key, payload)]\<rparr>))))"

text \<open>
  \<open>DLQPublisher\<close>. A publisher is the function \<open>PublishJSON\<close> on its state; a nil one is \<open>None\<close>. The two
  publishers work on one state, because the services pass the same producer as both.
\<close>

type_synonym ('p, 'v) publish = "'p \<Rightarrow> string \<Rightarrow> string \<Rightarrow> 'v \<Rightarrow> (go_error + int \<times> int) \<times> 'p"

definition DLQPublisher_PublishJSON ::
  "('v \<Rightarrow> go_error + string) \<Rightarrow> ('v \<Rightarrow> string) \<Rightarrow> (go_error \<Rightarrow> string) \<Rightarrow> time \<Rightarrow>
   ('p, 'v) publish option \<Rightarrow> ('p, DLQPublishPayload) publish option \<Rightarrow> string \<Rightarrow> ('p, 'v) publish" where
  "DLQPublisher_PublishJSON marshal sprint errText now primary dlq dlqTopic = (\<lambda>p topic key v.
     case primary of
       None \<Rightarrow> (Inl (Errorf ''kafka producer not configured'' []), p)
     | Some publish \<Rightarrow>
        (case publish p topic key v of
           (Inr po, p1) \<Rightarrow> (Inr po, p1)
         | (Inl err, p1) \<Rightarrow>
             (case dlq of
                None \<Rightarrow> (Inl err, p1)
              | Some dlq_publish \<Rightarrow>
                  if dlqTopic = '''' then (Inl err, p1)
                  else let payload = BuildPublishDLQPayload marshal sprint errText now topic key (Some v) (Some err) ''publish_failed'' 1
                       in (Inl err, snd (dlq_publish p1 dlqTopic key payload)))))"

section \<open>The retry tracker\<close>

record retryEntry =
  re_count :: int
  re_last :: time

record retryTracker =
  rt_attempts :: "(string \<times> retryEntry) list"
  rt_maxAttempts :: int
  rt_ttl :: duration
  rt_lastSweep :: time

definition ten_minutes :: duration where
  "ten_minutes = 600 * nanos_per_second"

definition newRetryTracker :: "time \<Rightarrow> int \<Rightarrow> duration \<Rightarrow> retryTracker" where
  "newRetryTracker now maxAttempts ttl =
     \<lparr>rt_attempts = [], rt_maxAttempts = (if maxAttempts \<le> 0 then 3 else maxAttempts),
      rt_ttl = (if ttl \<le> 0 then ten_minutes else ttl), rt_lastSweep = now\<rparr>"

definition sweepLocked :: "time \<Rightarrow> retryTracker \<Rightarrow> retryTracker" where
  "sweepLocked now r =
     (if rt_ttl r \<le> 0 then r
      else if now - rt_lastSweep r < rt_ttl r then r
      else r\<lparr>rt_attempts := filter (\<lambda>(key, entry). \<not> now - re_last entry > rt_ttl r) (rt_attempts r),
             rt_lastSweep := now\<rparr>)"

definition Bump :: "time \<Rightarrow> retryTracker \<Rightarrow> string \<Rightarrow> int \<times> retryTracker" where
  "Bump now r key =
     (if key = '''' then (1, r)
      else let r1 = sweepLocked now r;
               first = (1, r1\<lparr>rt_attempts := AList.update key \<lparr>re_count = 1, re_last = now\<rparr> (rt_attempts r1)\<rparr>)
           in case map_of (rt_attempts r1) key of
                None \<Rightarrow> first
              | Some entry \<Rightarrow>
                  if now - re_last entry > rt_ttl r1 then first
                  else (re_count entry + 1,
                        r1\<lparr>rt_attempts := AList.update key \<lparr>re_count = re_count entry + 1, re_last = now\<rparr> (rt_attempts r1)\<rparr>))"

definition Reset :: "retryTracker \<Rightarrow> string \<Rightarrow> retryTracker" where
  "Reset r key = (if key = '''' then r else r\<lparr>rt_attempts := AList.delete key (rt_attempts r)\<rparr>)"

definition retryKey :: "ConsumerMessage option \<Rightarrow> string" where
  "retryKey msg =
     (case msg of None \<Rightarrow> ''''
      | Some m \<Rightarrow> cm_Topic m @ '':'' @ int_string (cm_Partition m) @ '':'' @ int_string (cm_Offset m))"

definition shouldSendToDLQ :: "go_error option \<Rightarrow> int \<Rightarrow> int \<Rightarrow> bool" where
  "shouldSendToDLQ err attempts maxAttempts =
     (case err of
        None \<Rightarrow> False
      | Some e \<Rightarrow>
          if errors_As_DLQ e \<noteq> None then True
          else attempts \<ge> (if maxAttempts \<le> 0 then 3 else maxAttempts))"

definition toDLQError :: "go_error option \<Rightarrow> int \<Rightarrow> int \<Rightarrow> go_error" where
  "toDLQError err attempts maxAttempts =
     (case err of
        None \<Rightarrow> DLQErr ''retry_exhausted'' (Errorf ''unknown error'' [])
      | Some e \<Rightarrow>
          (case errors_As_DLQ e of
             Some dlqErr \<Rightarrow> dlqErr
           | None \<Rightarrow> DLQErr (if attempts < maxAttempts then ''retry_threshold'' else ''retry_exhausted'') e))"

section \<open>The consumer\<close>

record Consumer =
  con_hasDLQ :: bool
  con_dlqTopic :: string
  con_dlqMaxAttempts :: int
  con_dlqAttemptTTL :: duration

definition NewConsumer :: "string list \<Rightarrow> string \<Rightarrow> go_error option \<Rightarrow> go_error + Consumer" where
  "NewConsumer brokers groupID dial =
     (if brokers = [] then Inl (Errorf ''kafka brokers required'' [])
      else if groupID = '''' then Inl (Errorf ''kafka consumer group required'' [])
      else case dial of
        Some err \<Rightarrow> Inl (Wrapf ''create kafka consumer group: %w'' err)
      | None \<Rightarrow> Inr \<lparr>con_hasDLQ = False, con_dlqTopic = '''', con_dlqMaxAttempts = 3, con_dlqAttemptTTL = ten_minutes\<rparr>)"

definition WithDLQ :: "Consumer \<Rightarrow> bool \<Rightarrow> string \<Rightarrow> Consumer" where
  "WithDLQ c hasPublisher topic =
     (if TrimSpace topic = '''' then c else c\<lparr>con_hasDLQ := hasPublisher, con_dlqTopic := topic\<rparr>)"

definition WithDLQRetry :: "Consumer \<Rightarrow> int \<Rightarrow> duration \<Rightarrow> Consumer" where
  "WithDLQRetry c maxAttempts ttl =
     c\<lparr>con_dlqMaxAttempts := (if maxAttempts \<le> 0 then 3 else maxAttempts),
       con_dlqAttemptTTL := (if ttl \<le> 0 then ten_minutes else ttl)\<rparr>"

text \<open>
  \<open>ConsumeClaim\<close>: the state threads through the handler's own state, the DLQ publisher, the retry
  tracker that \<open>Consume\<close> creates, the messages marked on the session and the readings of the clock.
  The channel of the claim is the list of its messages.
\<close>

record ('h, 'q) claim_state =
  cs_handler :: 'h
  cs_dlq :: 'q
  cs_tracker :: retryTracker
  cs_marked :: "ConsumerMessage list"
  cs_clock :: nat

record ('h, 'q) claim_env =
  ce_clock :: "nat \<Rightarrow> time"
  ce_errText :: "go_error \<Rightarrow> string"
  ce_handle :: "'h \<Rightarrow> ConsumerMessage \<Rightarrow> go_error option \<times> 'h"
  ce_dlqPublisher :: "('q, DLQPayload) publish option"
  ce_dlqTopic :: string

definition markMessage :: "ConsumerMessage \<Rightarrow> ('h, 'q) claim_state \<Rightarrow> ('h, 'q) claim_state" where
  "markMessage msg st = st\<lparr>cs_marked := cs_marked st @ [msg], cs_tracker := Reset (cs_tracker st) (retryKey (Some msg))\<rparr>"

definition consumeMessage ::
  "('h, 'q) claim_env \<Rightarrow> ConsumerMessage \<Rightarrow> ('h, 'q) claim_state \<Rightarrow> ('h, 'q) claim_state" where
  "consumeMessage E msg st =
     (let key = retryKey (Some msg) in
      case ce_handle E (cs_handler st) msg of
        (None, h) \<Rightarrow> markMessage msg (st\<lparr>cs_handler := h\<rparr>)
      | (Some err, h) \<Rightarrow>
          let st1 = st\<lparr>cs_handler := h\<rparr> in
          (case ce_dlqPublisher E of
             None \<Rightarrow> st1
           | Some publish \<Rightarrow>
               if TrimSpace (ce_dlqTopic E) = '''' then st1
               else
                 let (attempts, tracker) = Bump (ce_clock E (cs_clock st1)) (cs_tracker st1) key;
                     st2 = st1\<lparr>cs_tracker := tracker, cs_clock := cs_clock st1 + 1\<rparr>
                 in if \<not> shouldSendToDLQ (Some err) attempts (rt_maxAttempts tracker) then st2
                    else
                      let dlqErr = toDLQError (Some err) attempts (rt_maxAttempts tracker);
                          payload = BuildDLQPayload (ce_errText E) (ce_clock E (cs_clock st2)) msg (Some dlqErr) attempts;
                          (res, q) = publish (cs_dlq st2) (ce_dlqTopic E) (dp_Key payload) payload;
                          st3 = st2\<lparr>cs_dlq := q, cs_clock := cs_clock st2 + 1\<rparr>
                      in (case res of Inr _ \<Rightarrow> markMessage msg st3 | Inl _ \<Rightarrow> st3)))"

definition ConsumeClaim ::
  "('h, 'q) claim_env \<Rightarrow> ConsumerMessage list \<Rightarrow> ('h, 'q) claim_state \<Rightarrow> ('h, 'q) claim_state" where
  "ConsumeClaim E msgs st = fold (consumeMessage E) msgs st"

section \<open>The contract of Publisher\<close>

text \<open>
  What callers of \<open>PublishJSON\<close> rely on, for the topics the publisher serves: success delivers exactly
  the message, failure delivers nothing. \<open>log\<close> is what has been delivered, \<open>enc\<close> how a value is written.
\<close>

locale publisher =
  fixes publish :: "('p, 'v) publish"
    and log :: "'p \<Rightarrow> (string \<times> string \<times> 'm) list"
    and enc :: "'v \<Rightarrow> 'm"
    and serves :: "string \<Rightarrow> bool"
  assumes publish_ok: "serves topic \<Longrightarrow> publish p topic key v = (Inr po, p') \<Longrightarrow> log p' = log p @ [(topic, key, enc v)]"
    and publish_fail: "serves topic \<Longrightarrow> publish p topic key v = (Inl err, p') \<Longrightarrow> log p' = log p"
begin

lemma publish_log:
  "serves topic \<Longrightarrow>
   log (snd (publish p topic key v)) = log p @ (case fst (publish p topic key v) of Inr _ \<Rightarrow> [(topic, key, enc v)] | Inl _ \<Rightarrow> [])"
  by (cases "publish p topic key v"; cases "fst (publish p topic key v)") (auto dest: publish_ok publish_fail)

end

definition encoded :: "('v \<Rightarrow> go_error + string) \<Rightarrow> 'v \<Rightarrow> string" where
  "encoded marshal v = (case marshal v of Inr b \<Rightarrow> b | Inl _ \<Rightarrow> '''')"

interpretation sync_producer: publisher "SyncProducer_PublishJSON B marshal" ps_sent "encoded marshal" "\<lambda>_. True" for B marshal
  by unfold_locales
     (auto simp: SyncProducer_PublishJSON_def Let_def encoded_def split: option.splits sum.splits)

text \<open>
  A \<open>DLQPublisher\<close> whose primary and dead-letter publisher are one synchronous producer honours the
  contract on every topic but the dead-letter topic, once the dead letters are left out.
\<close>

definition main_log :: "string \<Rightarrow> producer_state \<Rightarrow> (string \<times> string \<times> string) list" where
  "main_log dlqTopic p = filter (\<lambda>(topic, key, v). topic \<noteq> dlqTopic) (ps_sent p)"

lemma main_log_dlq:
  "main_log dlqTopic (snd (SyncProducer_PublishJSON B marshal p dlqTopic key v)) = main_log dlqTopic p"
  by (simp add: main_log_def sync_producer.publish_log split: sum.splits)

lemma main_log_primary:
  "topic \<noteq> dlqTopic \<Longrightarrow> main_log dlqTopic (snd (SyncProducer_PublishJSON B marshal p topic key v)) =
     main_log dlqTopic p @ (case fst (SyncProducer_PublishJSON B marshal p topic key v) of Inr _ \<Rightarrow> [(topic, key, encoded marshal v)] | Inl _ \<Rightarrow> [])"
  by (simp add: main_log_def sync_producer.publish_log split: sum.splits)

interpretation dlq_producer: publisher
    "DLQPublisher_PublishJSON marshal sprint errText now (Some (SyncProducer_PublishJSON B marshal))
       (Some (SyncProducer_PublishJSON B dlqMarshal)) dlqTopic"
    "main_log dlqTopic" "encoded marshal" "\<lambda>topic. topic \<noteq> dlqTopic"
  for B marshal dlqMarshal sprint errText now dlqTopic
proof (unfold_locales, goal_cases)
  case (1 topic p key v po p')
  then have "SyncProducer_PublishJSON B marshal p topic key v = (Inr po, p')"
    by (auto simp: DLQPublisher_PublishJSON_def Let_def split: prod.splits sum.splits if_splits)
  then show ?case using main_log_primary [OF 1(1), of B marshal p key v] by simp
next
  case (2 topic p key v err p')
  then obtain p1 where "SyncProducer_PublishJSON B marshal p topic key v = (Inl err, p1)"
    "p' = p1 \<or> (\<exists>pl. p' = snd (SyncProducer_PublishJSON B dlqMarshal p1 dlqTopic key pl))"
    by (auto simp: DLQPublisher_PublishJSON_def Let_def split: prod.splits sum.splits if_splits)
  then show ?case using main_log_primary [OF 2(1), of B marshal p key v] by (auto simp: main_log_dlq)
qed

section \<open>Facts about the retry tracker\<close>

fun bump_all :: "retryTracker \<Rightarrow> string \<Rightarrow> time list \<Rightarrow> int list \<times> retryTracker" where
  "bump_all r key [] = ([], r)"
| "bump_all r key (t # ts) =
     (let (n, r1) = Bump t r key; (ns, r2) = bump_all r1 key ts in (n # ns, r2))"

lemma sweepLocked_simps [simp]:
  "rt_ttl (sweepLocked now r) = rt_ttl r" "rt_maxAttempts (sweepLocked now r) = rt_maxAttempts r"
  by (simp_all add: sweepLocked_def)

lemma sweepLocked_keeps:
  assumes "map_of (rt_attempts r) key = Some entry" "now - re_last entry \<le> rt_ttl r" "distinct (map fst (rt_attempts r))"
  shows "map_of (rt_attempts (sweepLocked now r)) key = Some entry"
  using assms by (auto simp: sweepLocked_def map_of_filter_in)

lemma distinct_sweep: "distinct (map fst (rt_attempts r)) \<Longrightarrow> distinct (map fst (rt_attempts (sweepLocked now r)))"
  by (auto simp: sweepLocked_def distinct_map_filter)

lemma Bump_simps [simp]:
  "rt_ttl (snd (Bump now r key)) = rt_ttl r" "rt_maxAttempts (snd (Bump now r key)) = rt_maxAttempts r"
  by (auto simp: Bump_def Let_def split: option.splits)

lemma distinct_Bump: "distinct (map fst (rt_attempts r)) \<Longrightarrow> distinct (map fst (rt_attempts (snd (Bump now r key))))"
  by (auto simp: Bump_def Let_def distinct_sweep split: option.splits)

lemma Bump_next:
  assumes "key \<noteq> ''''" "map_of (rt_attempts r) key = Some entry" "now - re_last entry \<le> rt_ttl r" "distinct (map fst (rt_attempts r))"
  shows "fst (Bump now r key) = re_count entry + 1"
    and "map_of (rt_attempts (snd (Bump now r key))) key = Some \<lparr>re_count = re_count entry + 1, re_last = now\<rparr>"
  using assms sweepLocked_keeps [OF assms(2-4)] by (auto simp: Bump_def Let_def)

lemma Bump_entry:
  assumes "key \<noteq> ''''"
  shows "map_of (rt_attempts (snd (Bump now r key))) key = Some \<lparr>re_count = fst (Bump now r key), re_last = now\<rparr>"
  using assms by (auto simp: Bump_def Let_def split: option.splits)

lemma bump_all_counts:
  assumes "key \<noteq> ''''" "map_of (rt_attempts r) key = Some entry" "distinct (map fst (rt_attempts r))"
    and "successively (\<lambda>a b. b - a \<le> rt_ttl r) (re_last entry # ts)"
  shows "fst (bump_all r key ts) = [re_count entry + 1..re_count entry + int (length ts)]"
  using assms
proof (induction ts arbitrary: r entry)
  case (Cons t ts)
  let ?r = "snd (Bump t r key)" and ?e = "\<lparr>re_count = re_count entry + 1, re_last = t\<rparr>"
  have gap: "t - re_last entry \<le> rt_ttl r" using Cons.prems(4) by simp
  note b = Bump_next [OF Cons.prems(1,2) gap Cons.prems(3)]
  have "fst (bump_all ?r key ts) = [re_count ?e + 1..re_count ?e + int (length ts)]"
    using Cons.IH [OF Cons.prems(1) b(2) distinct_Bump [OF Cons.prems(3)]] Cons.prems(4) by simp
  moreover have "[re_count entry + 1..re_count entry + int (length (t # ts))] =
      (re_count entry + 1) # [re_count entry + 2..re_count entry + 1 + int (length ts)]"
    by (subst upto_rec1) (simp_all add: algebra_simps)
  ultimately show ?case using b(1) by (auto simp: Let_def ac_simps split: prod.splits)
qed simp

section \<open>Facts about consuming a claim\<close>

fun handle_all :: "('h \<Rightarrow> ConsumerMessage \<Rightarrow> go_error option \<times> 'h) \<Rightarrow> 'h \<Rightarrow> ConsumerMessage list \<Rightarrow> go_error option list \<times> 'h" where
  "handle_all handle h [] = ([], h)"
| "handle_all handle h (m # ms) = (let (e, h1) = handle h m; (es, h2) = handle_all handle h1 ms in (e # es, h2))"

lemma markMessage_simps [simp]:
  "cs_marked (markMessage msg st) = cs_marked st @ [msg]" "cs_handler (markMessage msg st) = cs_handler st"
  "cs_dlq (markMessage msg st) = cs_dlq st"
  by (simp_all add: markMessage_def)

lemma consumeMessage_handler: "cs_handler (consumeMessage E msg st) = snd (ce_handle E (cs_handler st) msg)"
  by (auto simp: consumeMessage_def Let_def split: prod.splits option.splits sum.splits)

lemma consumeMessage_ok:
  "fst (ce_handle E (cs_handler st) msg) = None \<Longrightarrow>
   cs_marked (consumeMessage E msg st) = cs_marked st @ [msg] \<and> cs_dlq (consumeMessage E msg st) = cs_dlq st"
  by (auto simp: consumeMessage_def Let_def split: prod.splits)

text \<open>A claim consumer whose dead letters go to a publisher that honours its contract.\<close>

locale claim_consumer = publisher publish log enc serves
  for publish :: "('q, DLQPayload) publish" and log :: "'q \<Rightarrow> (string \<times> string \<times> 'm) list" and enc :: "DLQPayload \<Rightarrow> 'm"
    and serves :: "string \<Rightarrow> bool" +
  fixes E :: "('h, 'q) claim_env"
  assumes dlq: "ce_dlqPublisher E = Some publish" and dlq_topic: "serves (ce_dlqTopic E)"
begin

lemma consumeMessage_failed:
  assumes err: "fst (ce_handle E (cs_handler st) msg) = Some err"
  defines "st' \<equiv> consumeMessage E msg st"
  shows "(cs_marked st' = cs_marked st \<and> log (cs_dlq st') = log (cs_dlq st))
    \<or> (cs_marked st' = cs_marked st @ [msg]
       \<and> (\<exists>pl. log (cs_dlq st') = log (cs_dlq st) @ [(ce_dlqTopic E, cm_Key msg, enc pl)]
              \<and> dp_Payload pl = EncodeToString (cm_Value msg)))"
proof (cases "TrimSpace (ce_dlqTopic E) = ''''")
  case True
  then show ?thesis using err dlq unfolding st'_def by (auto simp: consumeMessage_def Let_def split: prod.splits)
next
  case False
  obtain h where h: "ce_handle E (cs_handler st) msg = (Some err, h)" using err by (cases "ce_handle E (cs_handler st) msg") auto
  obtain n t where b: "Bump (ce_clock E (cs_clock st)) (cs_tracker st) (retryKey (Some msg)) = (n, t)" by fastforce
  let ?pl = "BuildDLQPayload (ce_errText E) (ce_clock E (cs_clock st + 1)) msg (Some (toDLQError (Some err) n (rt_maxAttempts t))) n"
  have pl: "dp_Key ?pl = cm_Key msg" "dp_Payload ?pl = EncodeToString (cm_Value msg)"
    by (auto simp: BuildDLQPayload_def Let_def split: prod.splits)
  obtain res q where p: "publish (cs_dlq st) (ce_dlqTopic E) (cm_Key msg) ?pl = (res, q)" by fastforce
  have l: "log q = log (cs_dlq st) @ (case res of Inr _ \<Rightarrow> [(ce_dlqTopic E, cm_Key msg, enc ?pl)] | Inl _ \<Rightarrow> [])"
    using publish_log [OF dlq_topic, of "cs_dlq st" "cm_Key msg" ?pl] p by simp
  show ?thesis
  proof (cases "shouldSendToDLQ (Some err) n (rt_maxAttempts t)")
    case True
    then have "st' = (let st3 = st\<lparr>cs_handler := h, cs_tracker := t, cs_dlq := q, cs_clock := cs_clock st + 2\<rparr>
        in case res of Inr _ \<Rightarrow> markMessage msg st3 | Inl _ \<Rightarrow> st3)"
      unfolding st'_def using h dlq False b p pl(1) by (simp add: consumeMessage_def Let_def)
    then show ?thesis using l pl(2) by (cases res) (auto simp: Let_def)
  next
    case no: False
    then show ?thesis unfolding st'_def using h dlq False b by (simp add: consumeMessage_def Let_def)
  qed
qed

lemma consume_accounts:
  defines "st' \<equiv> \<lambda>st msgs. ConsumeClaim E msgs st"
  shows "\<exists>ms ds. cs_marked (st' st msgs) = cs_marked st @ ms \<and> subseq ms msgs
     \<and> log (cs_dlq (st' st msgs)) = log (cs_dlq st) @ ds
     \<and> length ms = length (filter (\<lambda>e. e = None) (fst (handle_all (ce_handle E) (cs_handler st) msgs))) + length ds"
proof (induction msgs arbitrary: st)
  case Nil show ?case by (simp add: st'_def ConsumeClaim_def)
next
  case (Cons m msgs)
  let ?st1 = "consumeMessage E m st"
  obtain ms ds where ih: "cs_marked (st' ?st1 msgs) = cs_marked ?st1 @ ms" "subseq ms msgs"
    "log (cs_dlq (st' ?st1 msgs)) = log (cs_dlq ?st1) @ ds"
    "length ms = length (filter (\<lambda>e. e = None) (fst (handle_all (ce_handle E) (cs_handler ?st1) msgs))) + length ds"
    using Cons.IH by blast
  have s: "st' st (m # msgs) = st' ?st1 msgs" by (simp add: st'_def ConsumeClaim_def)
  obtain e h where h: "ce_handle E (cs_handler st) m = (e, h)" by fastforce
  have hd: "fst (handle_all (ce_handle E) (cs_handler st) (m # msgs)) = e # fst (handle_all (ce_handle E) (cs_handler ?st1) msgs)"
    using h by (simp add: consumeMessage_handler Let_def split: prod.splits)
  show ?case
  proof (cases e)
    case None
    then have "cs_marked ?st1 = cs_marked st @ [m]" "cs_dlq ?st1 = cs_dlq st" using consumeMessage_ok [of E st m] h by simp_all
    then show ?thesis using ih s hd None by (intro exI [of _ "m # ms"] exI [of _ ds]) simp
  next
    case (Some err)
    then consider "cs_marked ?st1 = cs_marked st" "log (cs_dlq ?st1) = log (cs_dlq st)"
      | d where "cs_marked ?st1 = cs_marked st @ [m]" "log (cs_dlq ?st1) = log (cs_dlq st) @ [d]"
      using consumeMessage_failed [of st m err] h by auto
    then show ?thesis
    proof cases
      case 1 then show ?thesis using ih s hd Some by (intro exI [of _ ms] exI [of _ ds]) auto
    next
      case (2 d) then show ?thesis using ih s hd Some by (intro exI [of _ "m # ms"] exI [of _ "d # ds"]) simp
    qed
  qed
qed

end

interpretation sync_claim: claim_consumer "SyncProducer_PublishJSON B marshal" ps_sent "encoded marshal" "\<lambda>_. True"
    "E\<lparr>ce_dlqPublisher := Some (SyncProducer_PublishJSON B marshal)\<rparr>" for B marshal E
  by unfold_locales simp_all

section \<open>Properties of the messaging library\<close>

lemma newRetryTracker_simps [simp]:
  "rt_attempts (newRetryTracker now m ttl) = []" "0 < ttl \<Longrightarrow> rt_ttl (newRetryTracker now m ttl) = ttl"
  "0 < m \<Longrightarrow> rt_maxAttempts (newRetryTracker now m ttl) = m"
  by (simp_all add: newRetryTracker_def)

lemma Bump_first:
  assumes "key \<noteq> ''''" "map_of (rt_attempts r) key = None"
  shows "fst (Bump now r key) = 1"
proof -
  have "map_of (rt_attempts (sweepLocked now r)) key = None"
    using assms(2) by (auto simp: sweepLocked_def map_of_eq_None_iff)
  then show ?thesis using assms(1) by (simp add: Bump_def Let_def)
qed

text \<open>
  Retry counting: for a message whose failures follow one another within the tracker's time to
  live, the attempts are numbered 1, 2, 3 and so on, and an error that is not a dead-letter error itself is sent to the
  dead-letter topic from the configured number of attempts on and not before.
\<close>

theorem Bump_counts:
  assumes "key \<noteq> ''''" "0 < maxAttempts" "0 < ttl" "successively (\<lambda>a b. b - a \<le> ttl) ts" "errors_As_DLQ e = None"
    and r_def: "r = newRetryTracker t0 maxAttempts ttl"
  shows "fst (bump_all r key ts) = [1..int (length ts)]
    \<and> map (\<lambda>n. shouldSendToDLQ (Some e) n (rt_maxAttempts r)) (fst (bump_all r key ts)) = map (\<lambda>n. maxAttempts \<le> n) [1..int (length ts)]"
proof -
  have "fst (bump_all r key ts) = [1..int (length ts)]"
  proof (cases ts)
    case (Cons t rest)
    let ?e = "\<lparr>re_count = 1, re_last = t\<rparr>" and ?r = "snd (Bump t r key)"
    have f: "fst (Bump t r key) = 1" using assms(1) by (intro Bump_first) (simp_all add: r_def)
    then have m: "map_of (rt_attempts ?r) key = Some ?e" using Bump_entry [OF assms(1), of t r] by simp
    have "distinct (map fst (rt_attempts ?r))" by (rule distinct_Bump) (simp add: r_def)
    then have "fst (bump_all ?r key rest) = [1 + 1..1 + int (length rest)]"
      using bump_all_counts [OF assms(1) m] assms(3,4) Cons by (simp add: r_def)
    moreover have "[1..1 + int (length rest)] = 1 # [1 + 1..1 + int (length rest)]" by (subst upto_rec1) simp_all
    ultimately show ?thesis using Cons f by (auto simp: Let_def split: prod.splits)
  qed simp
  then show ?thesis using assms(2,5) by (simp add: shouldSendToDLQ_def r_def)
qed

theorem Bump_counts_witness:
  "fst (bump_all (newRetryTracker 0 3 600) ''t:0:7'' [10, 20, 30, 40]) = [1..4]"
  using Bump_counts [of "''t:0:7''" 3 600 "[10, 20, 30, 40]" DBErr _ 0, OF _ _ _ _ _ refl] by simp


text \<open>A handler that fails on the message at offset 0, once as poison and once for a transient reason.\<close>

definition sample_msg :: "int \<Rightarrow> ConsumerMessage" where
  "sample_msg i = \<lparr>cm_Topic = ''orders.accepted'', cm_Partition = 0, cm_Offset = i, cm_Key = ''BTC-USD'', cm_Value = ''x''\<rparr>"

definition sample_env :: "go_error \<Rightarrow> (unit, producer_state) claim_env" where
  "sample_env e = \<lparr>ce_clock = int, ce_errText = (\<lambda>_. ''failed''),
     ce_handle = (\<lambda>h m. (if cm_Offset m = 0 then Some e else None, h)),
     ce_dlqPublisher = Some (SyncProducer_PublishJSON \<lparr>br_ctx = (\<lambda>_. None), br_send = (\<lambda>_. Inr (0, 0))\<rparr> (\<lambda>_. Inr ''{}'')),
     ce_dlqTopic = ''dlq''\<rparr>"

definition sample_claim :: "(unit, producer_state) claim_state" where
  "sample_claim = \<lparr>cs_handler = (), cs_dlq = \<lparr>ps_sent = [], ps_calls = 0\<rparr>, cs_tracker = newRetryTracker 0 3 600,
     cs_marked = [], cs_clock = 0\<rparr>"


text \<open>
  C12: A failed message is not retried: when a handler fails on a message for a transient reason and
  succeeds on the next, the loop moves on, marking only the later message, with nothing sent to the
  dead-letter topic. The earlier offset is then covered by the mark that follows it.
\<close>

theorem ConsumeClaim_skips_transient_failure:
  assumes "ce_handle E h m1 = (Some err, h1)" "errors_As_DLQ err = None" "ce_handle E h1 m2 = (None, h2)"
    and "1 < maxAttempts"
    and st_def: "st = \<lparr>cs_handler = h, cs_dlq = q, cs_tracker = newRetryTracker t0 maxAttempts ttl, cs_marked = [], cs_clock = n\<rparr>"
  shows "cs_marked (ConsumeClaim E [m1, m2] st) = [m2] \<and> cs_dlq (ConsumeClaim E [m1, m2] st) = q"
proof -
  let ?st1 = "consumeMessage E m1 st" and ?r = "newRetryTracker t0 maxAttempts ttl"
  have k: "retryKey (Some m1) \<noteq> ''''" by (simp add: retryKey_def)
  obtain t where b: "Bump (ce_clock E n) ?r (retryKey (Some m1)) = (1, t)" "rt_maxAttempts t = maxAttempts"
    using assms(4) Bump_first [OF k, of ?r "ce_clock E n"] Bump_simps(2) [of "ce_clock E n" ?r "retryKey (Some m1)"]
    by (cases "Bump (ce_clock E n) ?r (retryKey (Some m1))") simp
  have "cs_marked ?st1 = [] \<and> cs_dlq ?st1 = q"
    using assms(1,2,4) b by (auto simp: st_def consumeMessage_def shouldSendToDLQ_def Let_def split: option.splits)
  moreover have "cs_handler ?st1 = h1" using assms(1) by (simp add: consumeMessage_handler st_def)
  ultimately show ?thesis
    using consumeMessage_ok [of E ?st1 m2] assms(3) by (simp add: ConsumeClaim_def)
qed

theorem ConsumeClaim_skips_transient_failure_witness:
  "cs_marked (ConsumeClaim (sample_env DBErr) [sample_msg 0, sample_msg 1] sample_claim) = [sample_msg 1]"
  using ConsumeClaim_skips_transient_failure [of "sample_env DBErr" "()" "sample_msg 0" DBErr "()" "sample_msg 1" "()" 3 sample_claim]
  by (simp add: sample_env_def sample_msg_def sample_claim_def)

end
