(* ===== verification/Engine.thy ===== *)
theory Engine
  imports Matcher Kafka
begin

text \<open>
  The matching engine of \<^verbatim>\<open>services/matching\<close>: the books by symbol and the operations on them
  (\<^verbatim>\<open>internal/engine/engine.go\<close>), the published event (\<^verbatim>\<open>events.go\<close>), the loading of open orders
  (\<^verbatim>\<open>internal/storage/snapshot.go\<close>) and the gRPC service (\<^verbatim>\<open>internal/service/grpc_service.go\<close>). Every
  reachable engine has consistent books, trades are published in order under deterministic IDs, and an
  order touches only the book of its symbol.
\<close>

section \<open>Events and state\<close>

record TradeExecutedEvent =
  te_Envelope :: Envelope
  te_TradeID :: string
  te_Symbol :: string
  te_MakerOrderID :: string
  te_TakerOrderID :: string
  te_Price :: string
  te_Quantity :: string
  te_MakerSide :: string
  te_ExecutedAt :: string

text \<open>The store and the producer are interfaces: they are passed to the operations that call them.\<close>

record 'd Engine =
  eng_books :: "(string \<times> 'd OrderBook) list"
  eng_tradeTopic :: string

definition NewEngine :: "string \<Rightarrow> 'd Engine" where
  "NewEngine tradeTopic =
     \<lparr>eng_books = [], eng_tradeTopic = (if TrimSpace tradeTopic = '''' then ''trades.executed'' else tradeTopic)\<rparr>"

definition bookKey :: "string \<Rightarrow> string" where
  "bookKey symbol = (let sym = TrimSpace symbol in if sym = '''' then ''UNKNOWN'' else sym)"

text \<open>The book of a symbol, created when it is not there; a pointer to it is its key in the map.\<close>

definition getOrderBook :: "'d Engine \<Rightarrow> string \<Rightarrow> 'd OrderBook \<times> 'd Engine" where
  "getOrderBook e symbol =
     (let sym = bookKey symbol in
      case map_of (eng_books e) sym of
        Some book \<Rightarrow> (book, e)
      | None \<Rightarrow> let book = NewOrderBook sym in (book, e\<lparr>eng_books := AList.update sym book (eng_books e)\<rparr>))"

definition putBook :: "'d Engine \<Rightarrow> string \<Rightarrow> 'd OrderBook \<Rightarrow> 'd Engine" where
  "putBook e symbol book = e\<lparr>eng_books := AList.update (bookKey symbol) book (eng_books e)\<rparr>"

section \<open>Operations\<close>

text \<open>
  What the engine draws from outside: decimals, the UUID hash, fresh UUIDs and the clock. The clock
  of the matcher and that of the envelopes are read at different moments, so they are separate.
\<close>

record 'd engine_env =
  ee_decimal :: "'d decimal_ops"
  ee_sha1 :: "string \<Rightarrow> string"
  ee_fresh :: "nat \<Rightarrow> string"
  ee_matchClock :: "nat \<Rightarrow> time"
  ee_eventClock :: "nat \<Rightarrow> time"

definition tradeEvent :: "'d decimal_ops \<Rightarrow> Envelope \<Rightarrow> 'd Trade \<Rightarrow> TradeExecutedEvent" where
  "tradeEvent D env trade =
     \<lparr>te_Envelope = env, te_TradeID = tr_TradeID trade, te_Symbol = tr_Symbol trade,
      te_MakerOrderID = tr_MakerOrderID trade, te_TakerOrderID = tr_TakerOrderID trade,
      te_Price = DecString D (tr_Price trade), te_Quantity = DecString D (tr_Quantity trade),
      te_MakerSide = tr_MakerSide trade, te_ExecutedAt = FormatRFC3339 (tr_ExecutedAt trade)\<rparr>"

definition publishTrade ::
  "'d engine_env \<Rightarrow> ('p, TradeExecutedEvent) publish option \<Rightarrow> string \<Rightarrow> nat \<Rightarrow> 'p \<Rightarrow> 'd Trade \<Rightarrow> string \<Rightarrow>
   go_error option \<times> 'p" where
  "publishTrade V producer tradeTopic idx p trade0 correlationID =
     (case producer of
        None \<Rightarrow> (Some (Errorf ''kafka producer not configured'' []), p)
      | Some publish \<Rightarrow>
          let trade = (if tr_TradeID trade0 = '''' then trade0\<lparr>tr_TradeID := ee_fresh V idx\<rparr> else trade0) in
          (case NewEnvelopeWithID (ee_eventClock V idx) (tr_TradeID trade) ''trades.executed'' 1 correlationID of
             Inl err \<Rightarrow> (Some err, p)
           | Inr env \<Rightarrow>
               (case publish p tradeTopic (tr_Symbol trade) (tradeEvent (ee_decimal V) env trade) of
                  (Inl err, p1) \<Rightarrow> (Some err, p1)
                | (Inr _, p1) \<Rightarrow> (None, p1))))"

definition tradeID :: "(string \<Rightarrow> string) \<Rightarrow> string \<Rightarrow> nat \<Rightarrow> string" where
  "tradeID sha1 orderID idx = DeterministicEventID sha1 [''trades.executed'', orderID, nat_string idx]"

text \<open>The publishing loop of \<open>ProcessOrder\<close>; on success the trades with their IDs.\<close>

fun publishTrades ::
  "'d engine_env \<Rightarrow> ('p, TradeExecutedEvent) publish option \<Rightarrow> string \<Rightarrow> string \<Rightarrow> string \<Rightarrow> nat \<Rightarrow> 'd Trade list \<Rightarrow> 'p \<Rightarrow>
   (go_error + 'd Trade list) \<times> 'p" where
  "publishTrades V producer tradeTopic orderID correlationID idx [] p = (Inr [], p)"
| "publishTrades V producer tradeTopic orderID correlationID idx (t # ts) p =
     (let t1 = t\<lparr>tr_TradeID := tradeID (ee_sha1 V) orderID idx\<rparr> in
      case publishTrade V producer tradeTopic idx p t1 correlationID of
        (Some err, p1) \<Rightarrow> (Inl err, p1)
      | (None, p1) \<Rightarrow>
          (case publishTrades V producer tradeTopic orderID correlationID (idx + 1) ts p1 of
             (Inl err, p2) \<Rightarrow> (Inl err, p2)
           | (Inr ts1, p2) \<Rightarrow> (Inr (t1 # ts1), p2)))"

definition ProcessOrder ::
  "'d::linordered_idom engine_env \<Rightarrow> ('p, TradeExecutedEvent) publish option \<Rightarrow> 'd Engine \<Rightarrow> 'p \<Rightarrow> 'd Order option \<Rightarrow> string \<Rightarrow>
   (go_error + 'd Trade list) \<times> 'd Engine \<times> 'p" where
  "ProcessOrder V producer e p order correlationID =
     (case order of
        None \<Rightarrow> (Inl (Errorf ''order required'' []), e, p)
      | Some o' \<Rightarrow>
         (case validateOrderFields (Some o') of
            Some err \<Rightarrow> (Inl err, e, p)
          | None \<Rightarrow>
              let (book, e1) = getOrderBook e (ord_Symbol o');
                  (trades, err, book1, _) = MatchOrder (ee_decimal V) (ee_matchClock V) book (Some o');
                  e2 = putBook e1 (ord_Symbol o') book1
              in case err of
                   Some x \<Rightarrow> (Inl x, e2, p)
                 | None \<Rightarrow>
                    (case publishTrades V producer (eng_tradeTopic e2) (ord_ID o') correlationID 0 trades p of
                       (res, p1) \<Rightarrow> (res, e2, p1))))"

definition CancelOrder :: "'d::linordered_idom Engine \<Rightarrow> string \<Rightarrow> string \<Rightarrow> bool \<times> 'd Engine" where
  "CancelOrder e orderID symbol =
     (let (book, e1) = getOrderBook e symbol; (ok, book1) = RemoveOrder book orderID
      in (ok, putBook e1 symbol book1))"

text \<open>
  \<open>LoadSnapshot\<close>. The store is its answer to \<open>LoadOpenOrders\<close>; the set of symbols is a list without
  repetitions. A failed \<open>AddOrder\<close> is logged and skipped.
\<close>

fun loadOrders ::
  "'d decimal_ops \<Rightarrow> 'd::linordered_idom Order option list \<Rightarrow> nat \<Rightarrow> string list \<Rightarrow> 'd Engine \<Rightarrow> nat \<times> string list \<times> 'd Engine" where
  "loadOrders D [] loaded symbols e = (loaded, symbols, e)"
| "loadOrders D (None # rest) loaded symbols e = loadOrders D rest loaded symbols e"
| "loadOrders D (Some o' # rest) loaded symbols e =
     (let (book, e1) = getOrderBook e (ord_Symbol o') in
      case AddOrder D book (Some o') of
        Inl err \<Rightarrow> loadOrders D rest loaded symbols e1
      | Inr book1 \<Rightarrow> loadOrders D rest (loaded + 1) (List.insert (ord_Symbol o') symbols) (putBook e1 (ord_Symbol o') book1))"

definition LoadSnapshot ::
  "'d decimal_ops \<Rightarrow> (string \<Rightarrow> go_error + 'd Order option list) option \<Rightarrow> 'd::linordered_idom Engine \<Rightarrow> string \<Rightarrow>
   (go_error + nat \<times> string list) \<times> 'd Engine" where
  "LoadSnapshot D store e symbol =
     (case store of
        None \<Rightarrow> (Inl (Errorf ''snapshot store not configured'' []), e)
      | Some loadOpenOrders \<Rightarrow>
          let e1 = (if TrimSpace symbol = '''' then e\<lparr>eng_books := []\<rparr>
                    else e\<lparr>eng_books := AList.update symbol (NewOrderBook symbol) (eng_books e)\<rparr>)
          in case loadOpenOrders symbol of
               Inl err \<Rightarrow> (Inl err, e1)
             | Inr orders \<Rightarrow>
                 (case loadOrders D orders 0 [] e1 of (loaded, symbols, e2) \<Rightarrow> (Inr (loaded, symbols), e2)))"

definition ActiveSymbols :: "'d Engine \<Rightarrow> nat" where
  "ActiveSymbols e = length (eng_books e)"

definition TotalOrders :: "'d Engine \<Rightarrow> nat" where
  "TotalOrders e = sum_list (map (\<lambda>(sym, book). Depth book SideBuy + Depth book SideSell) (eng_books e))"

text \<open>The observations \<open>updateMetrics\<close> makes, in order; the duration is left out.\<close>

datatype 'd metric =
    ObserveOrder string string string
  | ObserveTrades string nat
  | SetOrderbookDepth string string nat
  | SetOrderbookSpread string 'd

definition updateMetrics :: "'d::linordered_idom Engine \<Rightarrow> 'd Order option \<Rightarrow> nat \<Rightarrow> 'd metric list" where
  "updateMetrics e order trades =
     (case order of
        None \<Rightarrow> []
      | Some o' \<Rightarrow>
          let (book, _) = getOrderBook e (ord_Symbol o') in
          [ObserveOrder (ord_Symbol o') (ord_Side o') (ord_Type o')]
          @ (if trades > 0 then [ObserveTrades (ord_Symbol o') trades] else [])
          @ [SetOrderbookDepth (ord_Symbol o') SideBuy (Depth book SideBuy),
             SetOrderbookDepth (ord_Symbol o') SideSell (Depth book SideSell)]
          @ (case (BestBid book, BestAsk book) of
               (Some bid, Some ask) \<Rightarrow> [SetOrderbookSpread (ord_Symbol o') \<bar>pl_price ask - pl_price bid\<bar>]
             | _ \<Rightarrow> []))"

section \<open>The snapshot store\<close>

text \<open>A row of the table \<open>orders\<close>, its numeric columns as the query returns them, cast to text.\<close>

record order_row =
  or_id :: string
  or_client_order_id :: string
  or_account_id :: string
  or_symbol :: string
  or_side :: string
  or_type :: string
  or_price :: "string option"
  or_quantity :: string
  or_filled_quantity :: string
  or_time_in_force :: string
  or_created_at :: time
  or_status :: string

definition scanOrder :: "'d decimal_ops \<Rightarrow> order_row \<Rightarrow> go_error + 'd::linordered_idom Order" where
  "scanOrder D r =
     (case NewFromString D (TrimSpace (or_quantity r)) of
        None \<Rightarrow> Inl (Wrapf ''parse quantity: %w'' decimal_error)
      | Some qty \<Rightarrow>
         (case (if TrimSpace (or_filled_quantity r) \<noteq> '''' then NewFromString D (TrimSpace (or_filled_quantity r)) else Some 0) of
            None \<Rightarrow> Inl (Wrapf ''parse filled quantity: %w'' decimal_error)
          | Some filled \<Rightarrow>
             (case (case or_price r of
                      Some s \<Rightarrow> if TrimSpace s \<noteq> '''' then NewFromString D (TrimSpace s) else Some 0
                    | None \<Rightarrow> Some 0) of
                None \<Rightarrow> Inl (Wrapf ''parse price: %w'' decimal_error)
              | Some price \<Rightarrow>
                  Inr \<lparr>ord_ID = or_id r, ord_ClientOrderID = or_client_order_id r, ord_AccountID = or_account_id r,
                       ord_Symbol = or_symbol r, ord_Side = or_side r, ord_Type = or_type r, ord_Price = price,
                       ord_Quantity = qty, ord_Filled = filled, ord_TimeInForce = or_time_in_force r,
                       ord_CreatedAt = or_created_at r\<rparr>)))"

fun scanOrders :: "'d decimal_ops \<Rightarrow> order_row list \<Rightarrow> go_error + 'd::linordered_idom Order option list" where
  "scanOrders D [] = Inr []"
| "scanOrders D (r # rs) =
     (case scanOrder D r of
        Inl err \<Rightarrow> Inl err
      | Inr o' \<Rightarrow> (case scanOrders D rs of Inl err \<Rightarrow> Inl err | Inr os \<Rightarrow> Inr (Some o' # os)))"

text \<open>
  \<open>LoadOpenOrders\<close>: the pool is the table, or \<open>None\<close>; \<open>fault\<close> is a failure of the query, of a scan
  or of the row iteration.
\<close>

definition LoadOpenOrders ::
  "'d decimal_ops \<Rightarrow> order_row list option \<Rightarrow> go_error option \<Rightarrow> string \<Rightarrow> go_error + 'd::linordered_idom Order option list" where
  "LoadOpenOrders D pool fault symbol =
     (case pool of
        None \<Rightarrow> Inl (Errorf ''db pool not configured'' [])
      | Some orders \<Rightarrow>
          (case fault of
             Some err \<Rightarrow> Inl err
           | None \<Rightarrow>
               scanOrders D (sort_key or_created_at
                 (filter (\<lambda>r. (or_status r = ''open'' \<or> or_status r = ''partially_filled'')
                            \<and> (TrimSpace symbol \<noteq> '''' \<longrightarrow> or_symbol r = symbol)) orders))))"

section \<open>The gRPC service\<close>

record LoadSnapshotResponse =
  lsr_OrdersLoaded :: "32 word"
  lsr_Symbols :: "string list"

record HealthCheckResponse =
  hcr_Status :: string
  hcr_ActiveSymbols :: "32 word"
  hcr_TotalOrders :: "32 word"

definition MatchingService_LoadSnapshot ::
  "'d decimal_ops \<Rightarrow> (string \<Rightarrow> go_error + 'd Order option list) option \<Rightarrow> 'd::linordered_idom Engine option \<Rightarrow> string \<Rightarrow>
   (go_error + LoadSnapshotResponse) \<times> 'd Engine option" where
  "MatchingService_LoadSnapshot D store engine symbol =
     (case engine of
        None \<Rightarrow> (Inr \<lparr>lsr_OrdersLoaded = 0, lsr_Symbols = []\<rparr>, None)
      | Some e \<Rightarrow>
          (case LoadSnapshot D store e symbol of
             (Inl err, e1) \<Rightarrow> (Inl err, Some e1)
           | (Inr (loaded, symbols), e1) \<Rightarrow>
               (Inr \<lparr>lsr_OrdersLoaded = of_nat loaded, lsr_Symbols = symbols\<rparr>, Some e1)))"

definition MatchingService_HealthCheck :: "'d Engine option \<Rightarrow> HealthCheckResponse" where
  "MatchingService_HealthCheck engine =
     (case engine of
        None \<Rightarrow> \<lparr>hcr_Status = ''unavailable'', hcr_ActiveSymbols = 0, hcr_TotalOrders = 0\<rparr>
      | Some e \<Rightarrow> \<lparr>hcr_Status = ''healthy'', hcr_ActiveSymbols = of_nat (ActiveSymbols e),
                     hcr_TotalOrders = of_nat (TotalOrders e)\<rparr>)"

section \<open>Consistency of the engine\<close>

definition engine_inv :: "'d decimal_ops \<Rightarrow> 'd::linordered_idom Engine \<Rightarrow> bool" where
  "engine_inv D e \<longleftrightarrow> distinct (map fst (eng_books e))
     \<and> (\<forall>sym book. map_of (eng_books e) sym = Some book \<longrightarrow> ob_inv D book \<and> ob_live book)"

text \<open>The engine states a run of the service can reach.\<close>

inductive engine_reachable ::
  "'d::linordered_idom engine_env \<Rightarrow> ('p, TradeExecutedEvent) publish option \<Rightarrow> 'd Engine \<Rightarrow> bool" for V producer where
  init: "engine_reachable V producer (NewEngine topic)"
| process: "engine_reachable V producer e \<Longrightarrow>
    engine_reachable V producer (fst (snd (ProcessOrder V producer e p order correlationID)))"
| cancel: "engine_reachable V producer e \<Longrightarrow> engine_reachable V producer (snd (CancelOrder e orderID symbol))"
| load: "engine_reachable V producer e \<Longrightarrow>
    engine_reachable V producer (snd (LoadSnapshot (ee_decimal V) store e symbol))"

lemma getOrderBook_facts:
  assumes "engine_inv D e" "getOrderBook e symbol = (book, e1)"
  shows "engine_inv D e1" "ob_inv D book" "ob_live book" "map_of (eng_books e1) (bookKey symbol) = Some book"
    and "k \<noteq> bookKey symbol \<Longrightarrow> map_of (eng_books e1) k = map_of (eng_books e) k" "eng_tradeTopic e1 = eng_tradeTopic e"
  using assms by (auto simp: getOrderBook_def Let_def engine_inv_def ob_inv_new split: option.splits if_splits)

lemma putBook_facts:
  assumes "engine_inv D e" "ob_inv D book" "ob_live book"
  shows "engine_inv D (putBook e symbol book)"
  using assms by (auto simp: putBook_def engine_inv_def split: if_splits)

lemma map_of_putBook [simp]:
  "map_of (eng_books (putBook e symbol book)) = (map_of (eng_books e))(bookKey symbol \<mapsto> book)"
  "eng_tradeTopic (putBook e symbol book) = eng_tradeTopic e"
  by (simp_all add: putBook_def)

text \<open>The book \<open>ProcessOrder\<close> finds, whether it is there or not.\<close>

definition book_of :: "'d Engine \<Rightarrow> string \<Rightarrow> 'd OrderBook" where
  "book_of e symbol = (case map_of (eng_books e) (bookKey symbol) of Some b \<Rightarrow> b | None \<Rightarrow> NewOrderBook (bookKey symbol))"

lemma getOrderBook_book: "fst (getOrderBook e symbol) = book_of e symbol"
  by (simp add: getOrderBook_def book_of_def Let_def split: option.splits)

lemma ProcessOrder_unfold:
  assumes "validateOrderFields (Some o') = None"
    and "MatchOrder (ee_decimal V) (ee_matchClock V) (book_of e (ord_Symbol o')) (Some o') = (ts, err, book1, i)"
    and "getOrderBook e (ord_Symbol o') = (book_of e (ord_Symbol o'), e1)"
  shows "ProcessOrder V producer e p (Some o') corr =
    (let e2 = putBook e1 (ord_Symbol o') book1 in
     case err of Some x \<Rightarrow> (Inl x, e2, p)
     | None \<Rightarrow> (case publishTrades V producer (eng_tradeTopic e2) (ord_ID o') corr 0 ts p of (res, p1) \<Rightarrow> (res, e2, p1)))"
  using assms by (simp add: ProcessOrder_def)

lemma ProcessOrder_books:
  assumes "validateOrderFields (Some o') = None"
    and "MatchOrder (ee_decimal V) (ee_matchClock V) (book_of e (ord_Symbol o')) (Some o') = (ts, err, book1, i)"
  shows "map_of (eng_books (fst (snd (ProcessOrder V producer e p (Some o') corr)))) = (map_of (eng_books e))(bookKey (ord_Symbol o') \<mapsto> book1)"
proof -
  obtain e1 where g: "getOrderBook e (ord_Symbol o') = (book_of e (ord_Symbol o'), e1)"
    using getOrderBook_book by (metis prod.collapse)
  have "(map_of (eng_books e1))(bookKey (ord_Symbol o') \<mapsto> book1) = (map_of (eng_books e))(bookKey (ord_Symbol o') \<mapsto> book1)"
    using g by (auto simp: getOrderBook_def Let_def split: option.splits)
  then show ?thesis
    unfolding ProcessOrder_unfold [OF assms g] by (auto simp: Let_def split: option.splits prod.splits)
qed

lemma ProcessOrder_inv:
  assumes inv: "engine_inv (ee_decimal V) e" and inj: "inj (DecString (ee_decimal V))"
  shows "engine_inv (ee_decimal V) (fst (snd (ProcessOrder V producer e p order corr)))"
proof (cases "\<exists>o'. order = Some o' \<and> validateOrderFields (Some o') = None")
  case False
  then show ?thesis using inv by (auto simp: ProcessOrder_def split: option.splits)
next
  case True
  then obtain o' where o': "order = Some o'" "validateOrderFields (Some o') = None" by blast
  obtain e1 where g: "getOrderBook e (ord_Symbol o') = (book_of e (ord_Symbol o'), e1)"
    using getOrderBook_book by (metis prod.collapse)
  note gf = getOrderBook_facts [OF inv g]
  obtain ts err book1 i where m: "MatchOrder (ee_decimal V) (ee_matchClock V) (book_of e (ord_Symbol o')) (Some o') = (ts, err, book1, i)"
    by (cases "MatchOrder (ee_decimal V) (ee_matchClock V) (book_of e (ord_Symbol o')) (Some o')")
  have "ob_inv (ee_decimal V) book1 \<and> ob_live book1" by (rule matched_keeps [OF gf(2,3) inj m])
  then show ?thesis
    using putBook_facts [OF gf(1)] unfolding o'(1) ProcessOrder_unfold [OF o'(2) m g]
    by (auto simp: Let_def split: option.splits prod.splits)
qed

lemma CancelOrder_inv:
  assumes inv: "engine_inv D e"
  shows "engine_inv D (snd (CancelOrder e orderID symbol))"
proof -
  obtain book e1 where g: "getOrderBook e symbol = (book, e1)" by fastforce
  note gf = getOrderBook_facts [OF inv g]
  obtain ok book1 where r: "removeOrderLocked book orderID = (ok, book1)" by fastforce
  note rm = removeOrderLocked_correct [OF gf(2) r]
  have "ob_live book1" using gf(3) rm(2) by (auto simp: ob_live_def without_def)
  then show ?thesis using putBook_facts [OF gf(1) rm(1)] g r by (simp add: CancelOrder_def RemoveOrder_def)
qed

lemma loadOrders_inv:
  assumes "engine_inv D e" "inj (DecString D)"
  shows "engine_inv D (snd (snd (loadOrders D orders loaded symbols e)))"
  using assms
proof (induction D orders loaded symbols e rule: loadOrders.induct)
  case (3 D o' rest loaded symbols e)
  obtain book e1 where g: "getOrderBook e (ord_Symbol o') = (book, e1)" by fastforce
  note gf = getOrderBook_facts [OF "3.prems"(1) g]
  show ?case
  proof (cases "addOrderLocked D book (Some o')")
    case (Inl a)
    then show ?thesis using "3.IH"(1) [OF g [symmetric] refl] gf(1) "3.prems"(2) g by (simp add: AddOrder_def)
  next
    case (Inr book1)
    have "ob_inv D book1" "ob_live book1"
      using addOrderLocked_cases [OF gf(2) "3.prems"(2) Inr] addOrderLocked_live [OF gf(2) "3.prems"(2) Inr gf(3)] by blast+
    then show ?thesis
      using "3.IH"(2) [OF g [symmetric] refl, of book1] putBook_facts [OF gf(1)] "3.prems"(2) g Inr by (simp add: AddOrder_def)
  qed
qed auto

lemma LoadSnapshot_inv:
  assumes "engine_inv D e" "inj (DecString D)"
  shows "engine_inv D (snd (LoadSnapshot D store e symbol))"
proof -
  define e1 where "e1 = (if TrimSpace symbol = '''' then e\<lparr>eng_books := []\<rparr>
    else e\<lparr>eng_books := AList.update symbol (NewOrderBook symbol) (eng_books e)\<rparr>)"
  have "engine_inv D e1" using assms(1) by (auto simp: e1_def engine_inv_def ob_inv_new)
  then show ?thesis
    using assms loadOrders_inv [of D e1] unfolding LoadSnapshot_def e1_def [symmetric] Let_def
    by (auto split: option.splits sum.splits prod.splits) (metis snd_conv)
qed

section \<open>Publishing\<close>

lemma nat_string_chars: "c \<in> set (nat_string n) \<Longrightarrow> c \<noteq> CHR ''|''"
proof (induction n rule: nat_string.induct)
  case (1 n)
  have "digit_char (n mod 10) \<noteq> CHR ''|''" "n < 10 \<Longrightarrow> digit_char n \<noteq> CHR ''|''"
    using digit_val_digit_char [of "n mod 10"] digit_val_digit_char [of n] by (auto simp: digit_val_def)
  then show ?case using 1 by (cases "n < 10") (auto simp: nat_string.simps [of n])
qed

lemma last_part_inject:
  assumes "\<forall>c \<in> set s. c \<noteq> d" "\<forall>c \<in> set t. c \<noteq> d" "x @ [d] @ s = y @ [d] @ t"
  shows "x = y \<and> s = t"
proof -
  have tw: "takeWhile (\<lambda>c. c \<noteq> d) (rev (z @ [d] @ u)) = rev u" if "\<forall>c \<in> set u. c \<noteq> d" for z u
  proof -
    have "takeWhile (\<lambda>c. c \<noteq> d) (rev u @ d # rev z) = rev u @ takeWhile (\<lambda>c. c \<noteq> d) (d # rev z)"
      using that by (intro takeWhile_append2) auto
    then show ?thesis by simp
  qed
  have "rev s = takeWhile (\<lambda>c. c \<noteq> d) (rev (x @ [d] @ s))" by (rule tw [OF assms(1), symmetric])
  also have "\<dots> = rev t" unfolding assms(3) by (rule tw [OF assms(2)])
  finally have "s = t" by simp
  then show ?thesis using assms(3) by simp
qed

lemma tradeID_inject:
  assumes "inj sha1"
  shows "tradeID sha1 o1 i = tradeID sha1 o2 j \<longleftrightarrow> o1 = o2 \<and> i = j"
proof -
  let ?n = "\<lambda>x k. ''trades.executed|'' @ x @ [CHR ''|''] @ nat_string k"
  have j: "tradeID sha1 x k = sha1 (?n x k)" for x k by (simp add: tradeID_def DeterministicEventID_def Let_def)
  have "?n o1 i = ?n o2 j \<longleftrightarrow> o1 = o2 \<and> i = j"
    using last_part_inject [of "nat_string i" "CHR ''|''" "nat_string j" o1 o2] nat_string_chars by auto
  then show ?thesis using assms by (simp add: j inj_eq)
qed

lemma tradeID_nonempty: "(\<And>n. sha1 n \<noteq> '''') \<Longrightarrow> tradeID sha1 x i \<noteq> ''''"
  by (simp add: tradeID_def DeterministicEventID_def Let_def)

definition tradeEnvelope :: "'d engine_env \<Rightarrow> nat \<Rightarrow> string \<Rightarrow> string \<Rightarrow> Envelope" where
  "tradeEnvelope V idx i corr = \<lparr>env_EventID = i, env_EventType = ''trades.executed'', env_EventVersion = 1,
     env_Timestamp = ee_eventClock V idx, env_CorrelationID = corr\<rparr>"

text \<open>The messages \<open>ProcessOrder\<close> should put on the trade topic for its trades.\<close>

definition trade_messages :: "'d engine_env \<Rightarrow> string \<Rightarrow> string \<Rightarrow> nat \<Rightarrow> 'd Trade list \<Rightarrow> (string \<times> string \<times> TradeExecutedEvent) list" where
  "trade_messages V topic corr idx ts =
     map (\<lambda>(i, t). (topic, tr_Symbol t, tradeEvent (ee_decimal V) (tradeEnvelope V i (tr_TradeID t) corr) t)) (enumerate idx ts)"

definition with_ids :: "'d engine_env \<Rightarrow> string \<Rightarrow> nat \<Rightarrow> 'd Trade list \<Rightarrow> 'd Trade list" where
  "with_ids V orderID idx ts = map (\<lambda>(i, t). t\<lparr>tr_TradeID := tradeID (ee_sha1 V) orderID i\<rparr>) (enumerate idx ts)"

lemma with_ids_simps [simp]:
  "with_ids V x n [] = []" "with_ids V x n (t # ts) = t\<lparr>tr_TradeID := tradeID (ee_sha1 V) x n\<rparr> # with_ids V x (Suc n) ts"
  "length (with_ids V x n ts) = length ts"
  by (simp_all add: with_ids_def)

lemma trade_messages_simps [simp]:
  "trade_messages V topic corr n [] = []"
  "trade_messages V topic corr n (t # ts) =
     (topic, tr_Symbol t, tradeEvent (ee_decimal V) (tradeEnvelope V n (tr_TradeID t) corr) t) # trade_messages V topic corr (Suc n) ts"
  by (simp_all add: trade_messages_def)

lemma with_ids_mem: "t \<in> tr_TradeID ` set (with_ids V x n ts) \<Longrightarrow> \<exists>i. t = tradeID (ee_sha1 V) x i"
  by (induction ts arbitrary: n) auto

lemma with_ids_distinct: "inj (ee_sha1 V) \<Longrightarrow> distinct (map tr_TradeID (with_ids V x n ts))"
proof -
  assume "inj (ee_sha1 V)"
  then have "inj_on (tradeID (ee_sha1 V) x) (set [n..<n + length ts])" by (simp add: inj_on_def tradeID_inject)
  moreover have "map tr_TradeID (with_ids V x n ts) = map (tradeID (ee_sha1 V) x) [n..<n + length ts]"
    by (rule nth_equalityI) (auto simp: with_ids_def nth_enumerate_eq)
  ultimately show ?thesis by (simp add: distinct_map)
qed

lemma publishTrades_ids:
  "publishTrades V producer topic x corr n ts p = (Inr ts', p') \<Longrightarrow> ts' = with_ids V x n ts"
  by (induction ts arbitrary: n p ts') (auto simp: Let_def split: prod.splits option.splits sum.splits)

lemma ProcessOrder_ids:
  "ProcessOrder V producer e p (Some o') corr = (Inr ts, e', p') \<Longrightarrow> \<exists>ts0. ts = with_ids V (ord_ID o') 0 ts0"
  by (auto simp: ProcessOrder_def Let_def dest: publishTrades_ids split: option.splits prod.splits)

lemma trade_messages_symbols:
  "map (fst \<circ> snd) (map (map_prod id (map_prod id f)) (trade_messages V topic corr n us)) = map tr_Symbol us"
  by (induction us arbitrary: n) auto

text \<open>The publishing loop over any producer that honours the contract of \<open>Publisher\<close>.\<close>

locale trade_publisher = publisher publish log enc serves
  for publish :: "('p, TradeExecutedEvent) publish" and log :: "'p \<Rightarrow> (string \<times> string \<times> 'm) list"
    and enc :: "TradeExecutedEvent \<Rightarrow> 'm" and serves :: "string \<Rightarrow> bool"
begin

lemma publishTrade_log:
  assumes "serves topic" "tr_TradeID t \<noteq> ''''" "publishTrade V (Some publish) topic n p t corr = (err, p')"
  shows "log p' = log p @ (if err = None
           then [(topic, tr_Symbol t, enc (tradeEvent (ee_decimal V) (tradeEnvelope V n (tr_TradeID t) corr) t))] else [])"
  using assms by (auto simp: publishTrade_def NewEnvelopeWithID_def Let_def tradeEnvelope_def
      dest: publish_ok publish_fail split: prod.splits sum.splits)

lemma publishTrades_log:
  assumes topic: "serves topic" and sha1: "\<And>name. ee_sha1 V name \<noteq> ''''" and "publishTrades V (Some publish) topic x corr n ts p = (res, p')"
  shows "\<exists>k. log p' = log p @ map (map_prod id (map_prod id enc)) (take k (trade_messages V topic corr n (with_ids V x n ts)))
    \<and> (\<forall>ts'. res = Inr ts' \<longrightarrow> k = length ts \<and> ts' = with_ids V x n ts)"
  using assms(3)
proof (induction ts arbitrary: n p res p')
  case Nil then show ?case by auto
next
  case (Cons t ts)
  let ?t = "t\<lparr>tr_TradeID := tradeID (ee_sha1 V) x n\<rparr>"
  have ne: "tr_TradeID ?t \<noteq> ''''" by (simp add: tradeID_nonempty sha1)
  obtain err p1 where p: "publishTrade V (Some publish) topic n p ?t corr = (err, p1)" by fastforce
  note l = publishTrade_log [OF topic ne p]
  show ?case
  proof (cases err)
    case (Some x)
    then show ?thesis using Cons.prems p l by (intro exI [of _ 0]) auto
  next
    case None
    obtain res1 p2 where r: "publishTrades V (Some publish) topic x corr (n + 1) ts p1 = (res1, p2)" by fastforce
    from Cons.IH [OF this] obtain k where k: "log p2 = log p1 @ map (map_prod id (map_prod id enc))
        (take k (trade_messages V topic corr (n + 1) (with_ids V x (n + 1) ts)))"
      "\<forall>ts'. res1 = Inr ts' \<longrightarrow> k = length ts \<and> ts' = with_ids V x (n + 1) ts" by blast
    have "p' = p2" "\<forall>ts'. res = Inr ts' \<longrightarrow> (\<exists>ts1. res1 = Inr ts1 \<and> ts' = ?t # ts1)"
      using Cons.prems p None r by (auto split: sum.splits)
    then show ?thesis using k l None by (intro exI [of _ "Suc k"]) auto
  qed
qed

end

interpretation sync_trades: trade_publisher "SyncProducer_PublishJSON B marshal" ps_sent "encoded marshal" "\<lambda>_. True" for B marshal
  by unfold_locales

text \<open>\<^verbatim>\<open>cmd/matching/main.go\<close> gives the engine a \<open>DLQPublisher\<close> with one producer in both roles.\<close>

interpretation dlq_trades: trade_publisher
    "DLQPublisher_PublishJSON marshal sprint errText now (Some (SyncProducer_PublishJSON B marshal))
       (Some (SyncProducer_PublishJSON B dlqMarshal)) dlqTopic"
    "main_log dlqTopic" "encoded marshal" "\<lambda>topic. topic \<noteq> dlqTopic"
  for B marshal dlqMarshal sprint errText now dlqTopic
  by unfold_locales

section \<open>Counting and loading\<close>

lemma side_name_inject: "side_name a = side_name b \<longleftrightarrow> a = b"
  by (simp add: side_name_def)

lemma Depth_counts:
  assumes inv: "ob_inv D ob"
  shows "Depth ob (side_name b) = card {i. \<exists>k. i \<in> ord_ID ` set (queues ob b k)}"
proof -
  let ?rs = "filter (\<lambda>(_, ref). ref_side ref = side_name b) (ob_orders ob)"
  have d: "distinct (map fst (ob_orders ob))" using inv by (simp add: ob_inv_def)
  then have "distinct (map fst ?rs)" by (rule distinct_map_filter)
  then have "Depth ob (side_name b) = card (fst ` set ?rs)"
    using distinct_card [of "map fst ?rs"] by (simp add: Depth_def)
  also have "fst ` set ?rs = {i. \<exists>r. map_of (ob_orders ob) i = Some r \<and> ref_side r = side_name b}"
    using d by (auto simp: image_iff intro: map_of_is_SomeI) (force dest: map_of_SomeD)
  also have "\<dots> = {i. \<exists>k. i \<in> ord_ID ` set (queues ob b k)}"
  proof (intro Collect_cong iffI)
    fix i assume "\<exists>r. map_of (ob_orders ob) i = Some r \<and> ref_side r = side_name b"
    then obtain r where r: "map_of (ob_orders ob) i = Some r" "ref_side r = side_name b" by blast
    then obtain b' k where q: "r = mkref b' k i" "i \<in> ord_ID ` set (queues ob b' k)" using ob_inv_ref [OF inv] by blast
    have "b' = b" using r(2) q(1) by (simp add: side_name_inject)
    then show "\<exists>k. i \<in> ord_ID ` set (queues ob b k)" using q(2) by blast
  next
    fix i assume "\<exists>k. i \<in> ord_ID ` set (queues ob b k)"
    then obtain k where "i \<in> ord_ID ` set (queues ob b k)" ..
    then have "map_of (ob_orders ob) i = Some (mkref b k i)" using ob_inv_ref [OF inv] by blast
    then show "\<exists>r. map_of (ob_orders ob) i = Some r \<and> ref_side r = side_name b" by simp
  qed
  finally show ?thesis .
qed

definition addAll :: "'d decimal_ops \<Rightarrow> 'd::linordered_idom Order list \<Rightarrow> 'd OrderBook \<Rightarrow> 'd OrderBook" where
  "addAll D os ob = fold (\<lambda>o' ob. case AddOrder D ob (Some o') of Inr ob1 \<Rightarrow> ob1 | Inl _ \<Rightarrow> ob) os ob"

lemma addAll_simps [simp]:
  "addAll D [] ob = ob" "addAll D (o' # os) ob = addAll D os (case AddOrder D ob (Some o') of Inr ob1 \<Rightarrow> ob1 | Inl _ \<Rightarrow> ob)"
  by (simp_all add: addAll_def)

lemma book_of_putBook: "book_of (putBook e s book) t = (if bookKey t = bookKey s then book else book_of e t)"
  by (simp add: book_of_def)

lemma book_of_getOrderBook: "getOrderBook e s = (book, e1) \<Longrightarrow> book = book_of e s \<and> book_of e1 t = book_of e t"
  by (auto simp: getOrderBook_def book_of_def Let_def split: option.splits if_splits)

lemma loadOrders_books:
  "book_of (snd (snd (loadOrders D orders loaded symbols e))) s =
   addAll D (filter (\<lambda>o'. bookKey (ord_Symbol o') = bookKey s) (map the (filter (\<lambda>x. x \<noteq> None) orders))) (book_of e s)"
proof (induction D orders loaded symbols e rule: loadOrders.induct)
  case (3 D o' rest loaded symbols e)
  obtain book e1 where g: "getOrderBook e (ord_Symbol o') = (book, e1)" by fastforce
  note b = book_of_getOrderBook [OF g]
  have k: "bookKey (ord_Symbol o') = bookKey s \<Longrightarrow> book_of e (ord_Symbol o') = book_of e s" by (simp add: book_of_def split: option.splits)
  show ?case
  proof (cases "AddOrder D book (Some o')")
    case (Inl a)
    then show ?thesis using "3.IH"(1) [OF g [symmetric] refl] g b k by auto
  next
    case (Inr book1)
    then show ?thesis using "3.IH"(2) [OF g [symmetric] refl, of book1] g b k by (auto simp: book_of_putBook)
  qed
qed auto

section \<open>Properties of the engine\<close>

text \<open>An engine with two books, an environment and a producer whose broker always answers.\<close>

definition sample_V :: "int engine_env" where
  "sample_V = \<lparr>ee_decimal = int_decimal, ee_sha1 = (\<lambda>n. CHR ''u'' # n), ee_fresh = (\<lambda>n. ''fresh''),
     ee_matchClock = int, ee_eventClock = int\<rparr>"

definition sample_engine :: "int Engine" where
  "sample_engine = \<lparr>eng_books = [(''BTC-USD'', sample_book), (''ETH-USD'', NewOrderBook ''ETH-USD'')], eng_tradeTopic = ''trades.executed''\<rparr>"

definition sample_broker :: broker where
  "sample_broker = \<lparr>br_ctx = (\<lambda>_. None), br_send = (\<lambda>_. Inr (0, 0))\<rparr>"

definition sample_producer :: "(producer_state, TradeExecutedEvent) publish" where
  "sample_producer = DLQPublisher_PublishJSON (\<lambda>ev. Inr (te_TradeID ev)) te_TradeID (\<lambda>_. ''failed'') 0
     (Some (SyncProducer_PublishJSON sample_broker (\<lambda>ev. Inr (te_TradeID ev))))
     (Some (SyncProducer_PublishJSON sample_broker (\<lambda>_. Inr ''{}''))) ''dlq''"

definition sample_process :: "(go_error + int Trade list) \<times> int Engine \<times> producer_state" where
  "sample_process = ProcessOrder sample_V (Some sample_producer) sample_engine \<lparr>ps_sent = [], ps_calls = 0\<rparr>
     (Some (sample_taker ''GTC'' 8)) ''corr''"

lemma sample_process_split:
  "ProcessOrder sample_V (Some sample_producer) sample_engine \<lparr>ps_sent = [], ps_calls = 0\<rparr> (Some (sample_taker ''GTC'' 8)) ''corr''
     = (fst sample_process, fst (snd sample_process), snd (snd sample_process))"
  by (simp add: sample_process_def)

lemma sample_engine_inv: "engine_inv int_decimal sample_engine"
  using sample_book_inv ob_inv_new by (auto simp: engine_inv_def sample_engine_def)

lemma sample_V_simps [simp]:
  "ee_decimal sample_V = int_decimal" "ee_sha1 sample_V n \<noteq> ''''" "inj (ee_sha1 sample_V)"
  by (simp_all add: sample_V_def inj_def)

text \<open>
  C7: In every engine state the service can reach, whatever orders, cancellations and snapshot loads
  came and whatever the producer did, all books are consistent and hold only orders with something
  left to trade.
\<close>

theorem engine_reachable_consistent:
  assumes "engine_reachable V producer e" "inj (DecString (ee_decimal V))"
  shows "engine_inv (ee_decimal V) e"
  using assms
proof induction
  case init then show ?case by (simp add: engine_inv_def NewEngine_def)
next
  case process then show ?case by (simp add: ProcessOrder_inv)
next
  case cancel then show ?case by (simp add: CancelOrder_inv)
next
  case load then show ?case by (simp add: LoadSnapshot_inv)
qed

theorem engine_reachable_consistent_witness:
  "engine_inv int_decimal (fst (snd (ProcessOrder sample_V (None :: (unit, TradeExecutedEvent) publish option) (NewEngine '''') ()
     (Some (sample_order ''o1'' ''alice'' ''buy'' 100 5)) ''corr'')))"
  using engine_reachable_consistent [OF engine_reachable.process [OF engine_reachable.init]] by (metis inj_int_string int_decimal_simps(2) sample_V_simps(1))

text \<open>
  A valid order changes only the book of its symbol, which becomes what \<open>MatchOrder\<close> makes of
  it, whether or not the trades can then be published: the trades' publication is not part of the
  book update. An invalid order changes nothing.
\<close>

theorem ProcessOrder_books_only:
  assumes "ProcessOrder V producer e p (Some o') corr = (res, e', p')"
  shows "if validateOrderFields (Some o') = None
    then map_of (eng_books e') = (map_of (eng_books e))(bookKey (ord_Symbol o') \<mapsto>
           fst (snd (snd (MatchOrder (ee_decimal V) (ee_matchClock V) (book_of e (ord_Symbol o')) (Some o')))))
    else e' = e \<and> p' = p \<and> (\<exists>err. res = Inl err)"
proof (cases "validateOrderFields (Some o')")
  case None
  obtain ts err book1 i where m: "MatchOrder (ee_decimal V) (ee_matchClock V) (book_of e (ord_Symbol o')) (Some o') = (ts, err, book1, i)"
    by (cases "MatchOrder (ee_decimal V) (ee_matchClock V) (book_of e (ord_Symbol o')) (Some o')")
  then show ?thesis using ProcessOrder_books [OF None m, of producer p corr] assms None by simp
next
  case (Some err) then show ?thesis using assms by (auto simp: ProcessOrder_def)
qed

theorem ProcessOrder_books_only_witness:
  "map_of (eng_books (fst (snd sample_process))) ''ETH-USD'' = Some (NewOrderBook ''ETH-USD'')
     \<and> validateOrderFields (Some (sample_taker ''GTC'' 8)) = None"
proof -
  have v: "validateOrderFields (Some (sample_taker ''GTC'' 8)) = None" "bookKey (ord_Symbol (sample_taker ''GTC'' 8)) = ''BTC-USD''"
    by code_simp+
  show ?thesis using ProcessOrder_books_only [OF sample_process_split] v by (simp add: sample_engine_def)
qed

text \<open>
  C8: When \<open>ProcessOrder\<close> succeeds, exactly its trades have been published on the trade topic, in
  order, each under its deterministic ID as trade and event ID; when it fails, what has been published is
  a prefix of the trades \<open>MatchOrder\<close> made. The producer is the one the service wires up, a dead-letter
  publisher over a synchronous producer.
\<close>

theorem ProcessOrder_publishes:
  assumes "\<And>name. ee_sha1 V name \<noteq> ''''" "eng_tradeTopic e \<noteq> dlqTopic"
    and "producer = DLQPublisher_PublishJSON marshal sprint errText now (Some (SyncProducer_PublishJSON B marshal))
           (Some (SyncProducer_PublishJSON B dlqMarshal)) dlqTopic"
    and "ProcessOrder V (Some producer) e p (Some o') corr = (res, e', p')"
    and "trades = with_ids V (ord_ID o') 0 (fst (MatchOrder (ee_decimal V) (ee_matchClock V) (book_of e (ord_Symbol o')) (Some o')))"
  shows "\<exists>k. main_log dlqTopic p' = main_log dlqTopic p @
           map (map_prod id (map_prod id (encoded marshal))) (take k (trade_messages V (eng_tradeTopic e) corr 0 trades))
    \<and> (\<forall>ts. res = Inr ts \<longrightarrow> ts = trades \<and> k = length trades)"
proof (cases "validateOrderFields (Some o')")
  case (Some err)
  then show ?thesis using assms(4) by (intro exI [of _ 0]) (auto simp: ProcessOrder_def)
next
  case None
  obtain ts err book1 i where m: "MatchOrder (ee_decimal V) (ee_matchClock V) (book_of e (ord_Symbol o')) (Some o') = (ts, err, book1, i)"
    by (cases "MatchOrder (ee_decimal V) (ee_matchClock V) (book_of e (ord_Symbol o')) (Some o')")
  obtain e1 where g: "getOrderBook e (ord_Symbol o') = (book_of e (ord_Symbol o'), e1)"
    using getOrderBook_book by (metis prod.collapse)
  have topic: "eng_tradeTopic e1 = eng_tradeTopic e" using g by (auto simp: getOrderBook_def Let_def split: option.splits)
  note run = assms(4) [unfolded ProcessOrder_unfold [OF None m g], simplified Let_def map_of_putBook topic]
  show ?thesis
  proof (cases err)
    case (Some x) then show ?thesis using run by (intro exI [of _ 0]) auto
  next
    case None
    obtain r p1 where r: "publishTrades V (Some producer) (eng_tradeTopic e) (ord_ID o') corr 0 ts p = (r, p1)" by fastforce
    then have "res = r" "p' = p1" using run None by simp_all
    then show ?thesis
      using dlq_trades.publishTrades_log [OF assms(2,1) r [unfolded assms(3)]] assms(5) m by (auto simp: with_ids_def)
  qed
qed

theorem ProcessOrder_publishes_witness:
  "map (fst \<circ> snd) (main_log ''dlq'' (snd (snd sample_process))) = [''BTC-USD'', ''BTC-USD'']"
proof -
  let ?ts = "with_ids sample_V ''t1'' 0 (fst (MatchOrder int_decimal int (book_of sample_engine ''BTC-USD'') (Some (sample_taker ''GTC'' 8))))"
  have c: "map tr_Symbol ?ts = [''BTC-USD'', ''BTC-USD'']" by code_simp
  have r: "isl (fst sample_process) = False" by code_simp
  then obtain ts where ts: "fst sample_process = Inr ts" by (cases "fst sample_process") auto
  have "eng_tradeTopic sample_engine \<noteq> ''dlq''" by (simp add: sample_engine_def)
  from ProcessOrder_publishes [OF sample_V_simps(2) this sample_producer_def sample_process_split refl] ts
  have l: "main_log ''dlq'' (snd (snd sample_process)) = map (map_prod id (map_prod id (encoded (\<lambda>ev. Inr (te_TradeID ev)))))
      (trade_messages sample_V (eng_tradeTopic sample_engine) ''corr'' 0 ?ts)"
    by (auto simp: main_log_def trade_messages_def sample_V_def sample_taker_def)
  show ?thesis by (simp only: l c trade_messages_symbols)
qed

text \<open>
  Trade IDs identify trades: provided the UUID hash does not collide, the trades of one order have
  different IDs, and trades of different orders never share one, whatever characters order IDs contain.
\<close>

theorem ProcessOrder_trade_ids:
  assumes "inj (ee_sha1 V)" "ProcessOrder V producer e p (Some a) corr = (Inr ts, e', p')"
    and "ProcessOrder V producer' f q (Some b) corr' = (Inr us, f', q')"
  shows "distinct (map tr_TradeID ts) \<and> (ord_ID a \<noteq> ord_ID b \<longrightarrow> tr_TradeID ` set ts \<inter> tr_TradeID ` set us = {})"
proof -
  obtain ts0 us0 where "ts = with_ids V (ord_ID a) 0 ts0" "us = with_ids V (ord_ID b) 0 us0"
    using ProcessOrder_ids [OF assms(2)] ProcessOrder_ids [OF assms(3)] by blast
  moreover have "ord_ID a = ord_ID b" if "x \<in> tr_TradeID ` set ts" "x \<in> tr_TradeID ` set us" for x
    using with_ids_mem [of x V] that tradeID_inject [OF assms(1)] calculation by metis
  ultimately show ?thesis using with_ids_distinct [OF assms(1)] by blast
qed

theorem ProcessOrder_trade_ids_witness:
  "\<exists>ts. fst sample_process = Inr ts \<and> distinct (map tr_TradeID ts) \<and> length ts = 2"
proof -
  have r: "(case fst sample_process of Inr ts \<Rightarrow> length ts = 2 | Inl _ \<Rightarrow> False)" by code_simp
  then obtain ts where ts: "fst sample_process = Inr ts" "length ts = 2" by (auto split: sum.splits)
  note run = sample_process_split [unfolded ts(1)]
  show ?thesis using ProcessOrder_trade_ids [OF sample_V_simps(3) run run] ts by blast
qed

text \<open>
  Loading a snapshot of all symbols rebuilds every book by adding the stored orders of its symbol,
  in the order the store returns them, to an empty book.
\<close>

theorem LoadSnapshot_rebuilds:
  assumes "TrimSpace symbol = ''''" "store symbol = Inr orders"
  shows "book_of (snd (LoadSnapshot D (Some store) e symbol)) s =
    addAll D (filter (\<lambda>o'. bookKey (ord_Symbol o') = bookKey s) (map the (filter (\<lambda>x. x \<noteq> None) orders))) (NewOrderBook (bookKey s))"
proof -
  have "book_of (e\<lparr>eng_books := []\<rparr>) s = NewOrderBook (bookKey s)" by (simp add: book_of_def)
  then show ?thesis
    using assms loadOrders_books [of D orders 0 "[]" "e\<lparr>eng_books := []\<rparr>" s]
    by (cases "loadOrders D orders 0 [] (e\<lparr>eng_books := []\<rparr>)") (simp add: LoadSnapshot_def)
qed

theorem LoadSnapshot_rebuilds_witness:
  "book_of (snd (LoadSnapshot int_decimal (Some (\<lambda>_. Inr [Some (sample_order ''o1'' ''alice'' ''buy'' 100 5), None])) sample_engine '''')) ''BTC-USD''
     = addAll int_decimal [sample_order ''o1'' ''alice'' ''buy'' 100 5] (NewOrderBook ''BTC-USD'')"
proof -
  have "bookKey ''BTC-USD'' = ''BTC-USD''" "TrimSpace '''' = ''''" by code_simp+
  then show ?thesis
    using LoadSnapshot_rebuilds [of "''''" "\<lambda>_. Inr [Some (sample_order ''o1'' ''alice'' ''buy'' 100 5), None]" _ int_decimal sample_engine "''BTC-USD''"]
    by simp
qed

text \<open>
  The health check's count is right: on a consistent engine \<open>TotalOrders\<close> is the number of
  orders resting on both sides of all books.
\<close>

theorem TotalOrders_counts:
  assumes "engine_inv D e"
  shows "TotalOrders e = (\<Sum>(sym, book) \<leftarrow> eng_books e. \<Sum>b \<leftarrow> [True, False]. card {i. \<exists>k. i \<in> ord_ID ` set (queues book b k)})"
proof -
  have "ob_inv D book" if "(sym, book) \<in> set (eng_books e)" for sym book
    using assms map_of_is_SomeI [OF _ that] by (auto simp: engine_inv_def)
  then have "Depth book SideBuy + Depth book SideSell = (\<Sum>b \<leftarrow> [True, False]. card {i. \<exists>k. i \<in> ord_ID ` set (queues book b k)})"
    if "(sym, book) \<in> set (eng_books e)" for sym book
    using that Depth_counts [of D book True] Depth_counts [of D book False] by (simp add: side_name_def)
  then show ?thesis unfolding TotalOrders_def by (intro arg_cong [where f = sum_list] map_cong) auto
qed

theorem TotalOrders_counts_witness:
  "(\<Sum>(sym, book) \<leftarrow> eng_books sample_engine. \<Sum>b \<leftarrow> [True, False]. card {i. \<exists>k. i \<in> ord_ID ` set (queues book b k)}) = 3"
proof -
  have "TotalOrders sample_engine = 3" by code_simp
  then show ?thesis using TotalOrders_counts [OF sample_engine_inv] by simp
qed

end
