(* ===== verification/Order_Consumer.thy ===== *)
theory Order_Consumer
  imports Engine
begin

text \<open>
  The matching service's consumer of order events (\<^verbatim>\<open>internal/consumer/order_consumer.go\<close>): the
  bounded deduper, the validation of events and the handlers that turn them into engine calls. The
  engine is reached through an interface, given as a locale and interpreted by the engine of
  \<open>Engine\<close>. JSON decoding is a parameter.
\<close>

section \<open>The deduper\<close>

record eventDeduper =
  dd_maxSize :: nat
  dd_order :: "string list"
  dd_seenByID :: "string set"

definition newEventDeduper :: "int \<Rightarrow> eventDeduper" where
  "newEventDeduper max' = \<lparr>dd_maxSize = nat (if max' \<le> 0 then 10000 else max'), dd_order = [], dd_seenByID = {}\<rparr>"

definition Seen :: "eventDeduper \<Rightarrow> string \<Rightarrow> bool" where
  "Seen d eventID = (if TrimSpace eventID = '''' then False else eventID \<in> dd_seenByID d)"

definition Mark :: "string \<Rightarrow> eventDeduper \<Rightarrow> eventDeduper" where
  "Mark eventID d =
     (if TrimSpace eventID = '''' then d
      else if eventID \<in> dd_seenByID d then d
      else
        let d1 = d\<lparr>dd_seenByID := insert eventID (dd_seenByID d), dd_order := dd_order d @ [eventID]\<rparr> in
        if length (dd_order d1) > dd_maxSize d1
        then d1\<lparr>dd_order := tl (dd_order d1), dd_seenByID := Set.remove (hd (dd_order d1)) (dd_seenByID d1)\<rparr>
        else d1)"

definition Size :: "eventDeduper \<Rightarrow> nat" where
  "Size d = card (dd_seenByID d)"

section \<open>Events\<close>

abbreviation "ordersAcceptedEventType \<equiv> ''orders.accepted''"
abbreviation "ordersCancelledEventType \<equiv> ''orders.cancelled''"

record OrderAcceptedEvent =
  oa_Envelope :: Envelope
  oa_OrderID :: string
  oa_ClientOrderID :: string
  oa_AccountID :: string
  oa_Symbol :: string
  oa_Side :: string
  oa_Type :: string
  oa_Price :: string
  oa_Quantity :: string
  oa_TimeInForce :: string
  oa_Status :: string
  oa_CreatedAt :: string

record OrderCancelledEvent =
  ocl_Envelope :: Envelope
  ocl_OrderID :: string
  ocl_ClientOrderID :: string
  ocl_AccountID :: string
  ocl_Symbol :: string
  ocl_Status :: string
  ocl_CancelledAt :: string

definition OrderAcceptedEvent_Validate :: "OrderAcceptedEvent \<Rightarrow> go_error option" where
  "OrderAcceptedEvent_Validate e =
     (case Envelope_Validate (oa_Envelope e) of
        Some err \<Rightarrow> Some err
      | None \<Rightarrow>
          if env_EventType (oa_Envelope e) \<noteq> ordersAcceptedEventType
          then Some (Errorf ''unexpected event_type: %s'' [AStr (env_EventType (oa_Envelope e))])
          else if TrimSpace (oa_OrderID e) = '''' then Some (Errorf ''order_id required'' [])
          else if TrimSpace (oa_Symbol e) = '''' then Some (Errorf ''symbol required'' [])
          else if TrimSpace (oa_Side e) = '''' then Some (Errorf ''side required'' [])
          else if TrimSpace (oa_Type e) = '''' then Some (Errorf ''type required'' [])
          else if TrimSpace (oa_Quantity e) = '''' then Some (Errorf ''quantity required'' [])
          else None)"

definition OrderCancelledEvent_Validate :: "OrderCancelledEvent \<Rightarrow> go_error option" where
  "OrderCancelledEvent_Validate e =
     (case Envelope_Validate (ocl_Envelope e) of
        Some err \<Rightarrow> Some err
      | None \<Rightarrow>
          if env_EventType (ocl_Envelope e) \<noteq> ordersCancelledEventType
          then Some (Errorf ''unexpected event_type: %s'' [AStr (env_EventType (ocl_Envelope e))])
          else if TrimSpace (ocl_OrderID e) = '''' then Some (Errorf ''order_id required'' [])
          else if TrimSpace (ocl_Symbol e) = '''' then Some (Errorf ''symbol required'' [])
          else None)"

section \<open>The handlers\<close>

record 'e OrderConsumer =
  oc_engine :: 'e
  oc_deduper :: eventDeduper
  oc_orderDeduper :: eventDeduper
  oc_acceptedTopic :: string
  oc_cancelledTopic :: string

definition NewOrderConsumer :: "'e \<Rightarrow> string \<Rightarrow> string \<Rightarrow> 'e OrderConsumer" where
  "NewOrderConsumer engine acceptedTopic cancelledTopic =
     \<lparr>oc_engine = engine, oc_deduper = newEventDeduper 100000, oc_orderDeduper = newEventDeduper 200000,
      oc_acceptedTopic = (if TrimSpace acceptedTopic = '''' then ordersAcceptedEventType else acceptedTopic),
      oc_cancelledTopic = (if TrimSpace cancelledTopic = '''' then ordersCancelledEventType else cancelledTopic)\<rparr>"

text \<open>
  The engine's interface and the other things the handlers call: the decoders stand for
  \<open>json.Unmarshal\<close>, \<open>now\<close> is the clock.
\<close>

record ('e, 'd) consumer_env =
  co_decimal :: "'d decimal_ops"
  co_now :: time
  co_decodeAccepted :: "string \<Rightarrow> go_error + OrderAcceptedEvent"
  co_decodeCancelled :: "string \<Rightarrow> go_error + OrderCancelledEvent"
  co_process :: "'e \<Rightarrow> 'd Order \<Rightarrow> string \<Rightarrow> go_error option \<times> 'e"
  co_cancel :: "'e \<Rightarrow> string \<Rightarrow> string \<Rightarrow> 'e"

definition acceptedOrder :: "time \<Rightarrow> OrderAcceptedEvent \<Rightarrow> 'd \<Rightarrow> 'd \<Rightarrow> 'd::linordered_idom Order" where
  "acceptedOrder now ev qty price =
     (let createdAt = (if IsZeroTime (env_Timestamp (oa_Envelope ev)) then now
                       else truncSecond (env_Timestamp (oa_Envelope ev)))
      in \<lparr>ord_ID = TrimSpace (oa_OrderID ev), ord_ClientOrderID = TrimSpace (oa_ClientOrderID ev),
          ord_AccountID = TrimSpace (oa_AccountID ev), ord_Symbol = TrimSpace (oa_Symbol ev),
          ord_Side = TrimSpace (oa_Side ev), ord_Type = TrimSpace (oa_Type ev), ord_Price = price,
          ord_Quantity = qty, ord_Filled = 0, ord_TimeInForce = TrimSpace (oa_TimeInForce ev),
          ord_CreatedAt = createdAt\<rparr>)"

definition handleOrderAccepted ::
  "('e, 'd::linordered_idom) consumer_env \<Rightarrow> string \<Rightarrow> 'e OrderConsumer \<Rightarrow> go_error option \<times> 'e OrderConsumer" where
  "handleOrderAccepted C payload c =
     (case co_decodeAccepted C payload of
        Inl err \<Rightarrow> (Some (DLQErr ''decode'' (Wrapf ''decode orders.accepted: %w'' err)), c)
      | Inr ev \<Rightarrow>
         (case OrderAcceptedEvent_Validate ev of
            Some err \<Rightarrow> (Some (DLQErr ''invalid_event'' err), c)
          | None \<Rightarrow>
              let eventID = env_EventID (oa_Envelope ev); orderID = TrimSpace (oa_OrderID ev) in
              if Seen (oc_deduper c) eventID then (None, c)
              else if orderID = '''' then (Some (DLQErr ''invalid_event'' (Errorf ''order_id required'' [])), c)
              else if Seen (oc_orderDeduper c) orderID then (None, c)
              else
                (case NewFromString (co_decimal C) (TrimSpace (oa_Quantity ev)) of
                   None \<Rightarrow> (Some (DLQErr ''invalid_event'' (Wrapf ''invalid quantity: %w'' decimal_error)), c)
                 | Some qty \<Rightarrow>
                    (case (if TrimSpace (oa_Price ev) \<noteq> '''' then NewFromString (co_decimal C) (TrimSpace (oa_Price ev)) else Some 0) of
                       None \<Rightarrow> (Some (DLQErr ''invalid_event'' (Wrapf ''invalid price: %w'' decimal_error)), c)
                     | Some price \<Rightarrow>
                         let order = acceptedOrder (co_now C) ev qty price;
                             correlationID = (if TrimSpace (env_CorrelationID (oa_Envelope ev)) = '''' then eventID
                                              else TrimSpace (env_CorrelationID (oa_Envelope ev)))
                         in (case co_process C (oc_engine c) order correlationID of
                               (Some err, e1) \<Rightarrow> (Some err, c\<lparr>oc_engine := e1\<rparr>)
                             | (None, e1) \<Rightarrow>
                                 (None, c\<lparr>oc_engine := e1, oc_deduper := Mark eventID (oc_deduper c),
                                          oc_orderDeduper := Mark orderID (oc_orderDeduper c)\<rparr>))))))"

definition handleOrderCancelled ::
  "('e, 'd::linordered_idom) consumer_env \<Rightarrow> string \<Rightarrow> 'e OrderConsumer \<Rightarrow> go_error option \<times> 'e OrderConsumer" where
  "handleOrderCancelled C payload c =
     (case co_decodeCancelled C payload of
        Inl err \<Rightarrow> (Some (DLQErr ''decode'' (Wrapf ''decode orders.cancelled: %w'' err)), c)
      | Inr ev \<Rightarrow>
         (case OrderCancelledEvent_Validate ev of
            Some err \<Rightarrow> (Some (DLQErr ''invalid_event'' err), c)
          | None \<Rightarrow>
              let eventID = env_EventID (ocl_Envelope ev) in
              if Seen (oc_deduper c) eventID then (None, c)
              else (None, c\<lparr>oc_engine := co_cancel C (oc_engine c) (TrimSpace (ocl_OrderID ev)) (TrimSpace (ocl_Symbol ev)),
                            oc_deduper := Mark eventID (oc_deduper c)\<rparr>)))"

definition HandleMessage ::
  "('e, 'd::linordered_idom) consumer_env \<Rightarrow> ConsumerMessage option \<Rightarrow> 'e OrderConsumer \<Rightarrow> go_error option \<times> 'e OrderConsumer" where
  "HandleMessage C msg c =
     (case msg of
        None \<Rightarrow> (Some (DLQErr ''empty_message'' (Errorf ''empty kafka message'' [])), c)
      | Some m \<Rightarrow>
          if length (cm_Value m) = 0 then (Some (DLQErr ''empty_message'' (Errorf ''empty kafka message'' [])), c)
          else if cm_Topic m = oc_acceptedTopic c then handleOrderAccepted C (cm_Value m) c
          else if cm_Topic m = oc_cancelledTopic c then handleOrderCancelled C (cm_Value m) c
          else (Some (Errorf ''unexpected topic: %s'' [AStr (cm_Topic m)]), c))"

section \<open>Facts about the deduper\<close>

definition dd_inv :: "eventDeduper \<Rightarrow> bool" where
  "dd_inv d \<longleftrightarrow> 0 < dd_maxSize d \<and> distinct (dd_order d) \<and> set (dd_order d) = dd_seenByID d \<and> length (dd_order d) \<le> dd_maxSize d"

lemma dd_inv_new: "dd_inv (newEventDeduper n)"
  by (simp add: dd_inv_def newEventDeduper_def)

lemma Mark_order:
  assumes "dd_inv d"
  shows "dd_order (Mark i d) =
    (if TrimSpace i = '''' \<or> i \<in> set (dd_order d) then dd_order d
     else if length (dd_order d) = dd_maxSize d then tl (dd_order d) @ [i] else dd_order d @ [i])"
    and "dd_inv (Mark i d)" "dd_maxSize (Mark i d) = dd_maxSize d"
proof -
  have o: "dd_order (Mark i d) =
    (if TrimSpace i = '''' \<or> i \<in> set (dd_order d) then dd_order d
     else if length (dd_order d) = dd_maxSize d then tl (dd_order d) @ [i] else dd_order d @ [i])"
    using assms by (cases "dd_order d") (auto simp: Mark_def dd_inv_def Let_def)
  then show "dd_order (Mark i d) = \<dots>" .
  show m: "dd_maxSize (Mark i d) = dd_maxSize d" by (simp add: Mark_def Let_def)
  have "set (dd_order (Mark i d)) = dd_seenByID (Mark i d)"
    using assms by (cases "dd_order d") (auto simp: Mark_def dd_inv_def Let_def)
  moreover have "distinct (dd_order (Mark i d))" "length (dd_order (Mark i d)) \<le> dd_maxSize d"
    using assms unfolding o by (cases "dd_order d"; auto simp: dd_inv_def)+
  ultimately show "dd_inv (Mark i d)" using assms m by (simp add: dd_inv_def)
qed

text \<open>\<open>i\<close> is remembered, with at most \<open>n\<close> IDs marked after it.\<close>

definition remembered :: "eventDeduper \<Rightarrow> string \<Rightarrow> nat \<Rightarrow> bool" where
  "remembered d i n \<longleftrightarrow> (\<exists>xs ys. dd_order d = xs @ i # ys \<and> length ys \<le> n)"

lemma remembered_Seen: "dd_inv d \<Longrightarrow> remembered d i n \<Longrightarrow> TrimSpace i \<noteq> '''' \<Longrightarrow> Seen d i"
  unfolding Seen_def dd_inv_def remembered_def by (metis in_set_conv_decomp)

lemma remembered_Mark_new:
  assumes "dd_inv d" "\<not> Seen d i" "TrimSpace i \<noteq> ''''"
  shows "remembered (Mark i d) i 0"
proof -
  have "i \<notin> set (dd_order d)" using assms by (simp add: Seen_def dd_inv_def)
  then have "\<exists>xs. dd_order (Mark i d) = xs @ [i]" using Mark_order(1) [OF assms(1), of i] assms(3) by auto
  then show ?thesis by (auto simp: remembered_def)
qed

lemma remembered_Mark:
  assumes "dd_inv d" "remembered d i n" "Suc n < dd_maxSize d"
  shows "remembered (Mark j d) i (Suc n)"
proof -
  obtain xs ys where o: "dd_order d = xs @ i # ys" "length ys \<le> n" using assms(2) by (auto simp: remembered_def)
  consider "dd_order (Mark j d) = dd_order d" | "dd_order (Mark j d) = dd_order d @ [j]"
    | "length (dd_order d) = dd_maxSize d" "dd_order (Mark j d) = tl (dd_order d) @ [j]"
    using Mark_order(1) [OF assms(1), of j] by (auto split: if_splits)
  then show ?thesis
  proof cases
    case 1 then show ?thesis using o unfolding remembered_def by (metis le_SucI)
  next
    case 2
    then have "dd_order (Mark j d) = xs @ i # (ys @ [j])" "length (ys @ [j]) \<le> Suc n" using o by simp_all
    then show ?thesis unfolding remembered_def by blast
  next
    case 3
    then obtain x xs' where "xs = x # xs'" using o assms(3) by (cases xs) auto
    then have "dd_order (Mark j d) = xs' @ i # (ys @ [j])" "length (ys @ [j]) \<le> Suc n" using 3 o by simp_all
    then show ?thesis unfolding remembered_def by blast
  qed
qed

section \<open>Facts about the handlers\<close>

lemma HandleMessage_frame:
  assumes "HandleMessage C msg c = (res, c')"
  shows "oc_acceptedTopic c' = oc_acceptedTopic c" "oc_cancelledTopic c' = oc_cancelledTopic c"
    and "oc_orderDeduper c' = oc_orderDeduper c \<or> (\<exists>i. oc_orderDeduper c' = Mark i (oc_orderDeduper c))"
    and "oc_deduper c' = oc_deduper c \<or> (\<exists>i. oc_deduper c' = Mark i (oc_deduper c))"
  using assms
  by (auto simp: HandleMessage_def handleOrderAccepted_def handleOrderCancelled_def Let_def
      split: option.splits sum.splits if_splits prod.splits)

definition consumeAll :: "('e, 'd::linordered_idom) consumer_env \<Rightarrow> ConsumerMessage option list \<Rightarrow> 'e OrderConsumer \<Rightarrow> 'e OrderConsumer" where
  "consumeAll C msgs c = fold (\<lambda>m c. snd (HandleMessage C m c)) msgs c"

lemma consumeAll_remembers:
  assumes "dd_inv (oc_orderDeduper c)" "remembered (oc_orderDeduper c) i n" "n + length msgs < dd_maxSize (oc_orderDeduper c)"
  shows "dd_inv (oc_orderDeduper (consumeAll C msgs c)) \<and> remembered (oc_orderDeduper (consumeAll C msgs c)) i (n + length msgs)
    \<and> oc_acceptedTopic (consumeAll C msgs c) = oc_acceptedTopic c"
  using assms
proof (induction msgs arbitrary: c n)
  case Nil then show ?case by (simp add: consumeAll_def)
next
  case (Cons m msgs)
  let ?c = "snd (HandleMessage C m c)"
  note f = HandleMessage_frame [OF surjective_pairing, of C m c]
  have r: "remembered (oc_orderDeduper c) i (Suc n)" using Cons.prems(2) unfolding remembered_def by (meson le_SucI)
  have "dd_inv (oc_orderDeduper ?c) \<and> remembered (oc_orderDeduper ?c) i (Suc n) \<and> dd_maxSize (oc_orderDeduper ?c) = dd_maxSize (oc_orderDeduper c)"
    using f(3) Cons.prems r remembered_Mark [OF Cons.prems(1,2)] Mark_order [OF Cons.prems(1)] by auto
  then show ?case using Cons.IH [of ?c "Suc n"] Cons.prems(3) f(1) by (simp add: consumeAll_def)
qed

text \<open>What the consumer relies on from the engine behind its interface.\<close>

locale engine_service =
  fixes process :: "'e \<Rightarrow> 'd::linordered_idom Order \<Rightarrow> string \<Rightarrow> go_error option \<times> 'e"
    and cancel :: "'e \<Rightarrow> string \<Rightarrow> string \<Rightarrow> 'e"
    and ok :: "'e \<Rightarrow> bool"
  assumes process_ok: "ok e \<Longrightarrow> ok (snd (process e o' corr))"
    and cancel_ok: "ok e \<Longrightarrow> ok (cancel e i s)"
begin

lemma HandleMessage_ok:
  assumes "co_process C = process" "co_cancel C = cancel" "ok (oc_engine c)"
  shows "ok (oc_engine (snd (HandleMessage C msg c)))"
proof -
  have "ok (oc_engine (snd (handleOrderAccepted C payload c)))" for payload
    using assms(1,3) process_ok [OF assms(3)]
    by (auto simp: handleOrderAccepted_def Let_def split: sum.splits option.splits prod.splits) (metis snd_conv)+
  moreover have "ok (oc_engine (snd (handleOrderCancelled C payload c)))" for payload
    using assms(2,3) cancel_ok [OF assms(3)]
    by (auto simp: handleOrderCancelled_def Let_def split: sum.splits option.splits)
  ultimately show ?thesis using assms(3) by (auto simp: HandleMessage_def split: option.splits)
qed

lemma consumeAll_ok:
  assumes "co_process C = process" "co_cancel C = cancel" "ok (oc_engine c)"
  shows "ok (oc_engine (consumeAll C msgs c))"
  using assms(3) by (induction msgs arbitrary: c) (simp_all add: consumeAll_def HandleMessage_ok [OF assms(1,2)])

end

text \<open>The engine of the service, with the producer it publishes to, behind that interface.\<close>

definition engine_process ::
  "'d::linordered_idom engine_env \<Rightarrow> ('p, TradeExecutedEvent) publish option \<Rightarrow> 'd Engine \<times> 'p \<Rightarrow> 'd Order \<Rightarrow> string \<Rightarrow>
   go_error option \<times> ('d Engine \<times> 'p)" where
  "engine_process V producer ep order corr =
     (case ProcessOrder V producer (fst ep) (snd ep) (Some order) corr of
        (Inl err, e', p') \<Rightarrow> (Some err, (e', p'))
      | (Inr _, e', p') \<Rightarrow> (None, (e', p')))"

definition engine_cancel :: "'d::linordered_idom Engine \<times> 'p \<Rightarrow> string \<Rightarrow> string \<Rightarrow> 'd Engine \<times> 'p" where
  "engine_cancel ep orderID symbol = (snd (CancelOrder (fst ep) orderID symbol), snd ep)"

interpretation engine: engine_service "engine_process V producer" engine_cancel
    "\<lambda>ep. engine_inv (ee_decimal V) (fst ep) \<and> inj (DecString (ee_decimal V))" for V producer
proof (unfold_locales, goal_cases)
  case (1 ep o' corr)
  then show ?case
    using ProcessOrder_inv [of V "fst ep" producer "snd ep" "Some o'" corr]
    by (auto simp: engine_process_def split: prod.splits sum.splits)
next
  case (2 ep i s)
  then show ?case by (simp add: engine_cancel_def CancelOrder_inv)
qed

section \<open>Properties of the consumer\<close>

text \<open>Events whose payload is their ID, a broker whose first delivery fails, and a consumer of them.\<close>

definition sample_accepted :: "string \<Rightarrow> OrderAcceptedEvent" where
  "sample_accepted i =
     \<lparr>oa_Envelope = \<lparr>env_EventID = i, env_EventType = ''orders.accepted'', env_EventVersion = 1, env_Timestamp = 1, env_CorrelationID = ''''\<rparr>,
      oa_OrderID = ''t1'', oa_ClientOrderID = '''', oa_AccountID = ''dave'', oa_Symbol = ''BTC-USD'', oa_Side = ''sell'',
      oa_Type = ''limit'', oa_Price = ''100'', oa_Quantity = ''5'', oa_TimeInForce = ''GTC'', oa_Status = '''', oa_CreatedAt = ''''\<rparr>"

definition flaky_broker :: broker where
  "flaky_broker = \<lparr>br_ctx = (\<lambda>_. None), br_send = (\<lambda>n. if n = 0 then Inl DBErr else Inr (0, 0))\<rparr>"

definition sample_service :: "broker \<Rightarrow> (int Engine \<times> producer_state, int) consumer_env" where
  "sample_service B = \<lparr>co_decimal = int_decimal, co_now = 0,
     co_decodeAccepted = (\<lambda>s. if s = ''bad'' then Inl DBErr else Inr (sample_accepted s)), co_decodeCancelled = (\<lambda>_. Inl DBErr),
     co_process = engine_process sample_V (Some (DLQPublisher_PublishJSON (\<lambda>ev. Inr (te_TradeID ev)) te_TradeID (\<lambda>_. ''failed'') 0
       (Some (SyncProducer_PublishJSON B (\<lambda>ev. Inr (te_TradeID ev)))) (Some (SyncProducer_PublishJSON B (\<lambda>_. Inr ''{}''))) ''dlq'')),
     co_cancel = engine_cancel\<rparr>"

definition sample_consumer :: "(int Engine \<times> producer_state) OrderConsumer" where
  "sample_consumer = \<lparr>oc_engine = (sample_engine, \<lparr>ps_sent = [], ps_calls = 0\<rparr>), oc_deduper = newEventDeduper 10,
     oc_orderDeduper = newEventDeduper 10, oc_acceptedTopic = ordersAcceptedEventType, oc_cancelledTopic = ordersCancelledEventType\<rparr>"



text \<open>
  A message the consumer cannot use (empty, undecodable, invalid or with unreadable numbers) is
  refused with a dead-letter error and changes nothing; an error without a dead-letter reason comes only from
  an unknown topic or from the engine.
\<close>

theorem HandleMessage_poison:
  assumes "HandleMessage C msg c = (Some err, c')"
  shows "(\<exists>reason e. err = DLQErr reason e) \<and> c' = c
    \<or> (\<exists>m. msg = Some m \<and> cm_Topic m \<noteq> oc_acceptedTopic c \<and> cm_Topic m \<noteq> oc_cancelledTopic c \<and> c' = c)
    \<or> (\<exists>order corr e1. co_process C (oc_engine c) order corr = (Some err, e1) \<and> c' = c\<lparr>oc_engine := e1\<rparr>)"
  using assms
  by (auto simp: HandleMessage_def handleOrderAccepted_def handleOrderCancelled_def Let_def
      split: option.splits sum.splits if_splits prod.splits) blast+

theorem HandleMessage_poison_witness:
  "snd (HandleMessage (sample_service sample_broker) (Some ((sample_msg 0)\<lparr>cm_Value := ''bad''\<rparr>)) sample_consumer) = sample_consumer"
proof -
  let ?r = "HandleMessage (sample_service sample_broker) (Some ((sample_msg 0)\<lparr>cm_Value := ''bad''\<rparr>)) sample_consumer"
  have r: "?r = (Some (DLQErr ''decode'' (Wrapf ''decode orders.accepted: %w'' DBErr)), snd ?r)" 
    by (simp add: HandleMessage_def handleOrderAccepted_def sample_msg_def sample_consumer_def sample_service_def)
  show ?thesis
    using HandleMessage_poison [OF r]
    by (auto simp: sample_service_def sample_consumer_def sample_msg_def HandleMessage_def handleOrderAccepted_def)
qed

text \<open>
  Whatever messages arrive, the consumer keeps the engine's books consistent.
\<close>

theorem consumer_keeps_books:
  assumes "engine_inv (ee_decimal V) (fst (oc_engine c))" "inj (DecString (ee_decimal V))"
    and "co_process C = engine_process V producer" "co_cancel C = engine_cancel"
  shows "engine_inv (ee_decimal V) (fst (oc_engine (consumeAll C msgs c)))"
  using engine.consumeAll_ok [OF assms(3,4), of c msgs] assms(1,2) by blast

theorem consumer_keeps_books_witness:
  "engine_inv int_decimal (fst (oc_engine (consumeAll (sample_service flaky_broker) [Some (sample_msg 0), Some (sample_msg 0)] sample_consumer)))"
  using consumer_keeps_books [of sample_V sample_consumer "sample_service flaky_broker"] sample_engine_inv
  by (simp add: sample_consumer_def sample_service_def)


end
