(* ===== verification/Ledger_Entries.thy ===== *)
theory Ledger_Entries
  imports Go_Prelude
begin

text \<open>
  The arithmetic of the ledger, without the database: the rows of
  \<^verbatim>\<open>services/ledger/internal/storage/models.go\<close> and the pure functions at the end of
  \<^verbatim>\<open>postgres.go\<close> that turn a trade into ledger entries and apply an entry to an account.
  The lemmas show that a settlement is a double entry: the entries of a trade have positive
  amounts, at most one per account and asset, the net effect on each account is the one of
  the trade's legs and fees, and the effects cancel out in every asset.
\<close>

named_theorems ledger_simps \<open>case analysis of the ledger's pure functions\<close>

section \<open>Rows and requests\<close>

record 'd LedgerAccount =
  la_ID :: uuid
  la_AccountID :: uuid
  la_Asset :: string
  la_BalanceAvailable :: 'd
  la_BalanceLocked :: 'd
  la_UpdatedAt :: time

record 'd LedgerEntry =
  le_ID :: uuid
  le_LedgerAccountID :: uuid
  le_AccountID :: uuid
  le_Asset :: string
  le_EntryType :: string
  le_Amount :: 'd
  le_ReferenceType :: string
  le_ReferenceID :: uuid
  le_CreatedAt :: time

record 'd BalanceReservation =
  br_ID :: uuid
  br_OrderID :: uuid
  br_AccountID :: uuid
  br_Asset :: string
  br_Amount :: 'd
  br_ConsumedAmount :: 'd
  br_Status :: string
  br_CreatedAt :: time
  br_UpdatedAt :: time

record 'd SettlementRequest =
  sr_TradeID :: uuid
  sr_MakerOrderID :: uuid
  sr_TakerOrderID :: uuid
  sr_MakerAccountID :: uuid
  sr_TakerAccountID :: uuid
  sr_Symbol :: string
  sr_Price :: 'd
  sr_Quantity :: 'd
  sr_MakerSide :: string
  sr_EventID :: string

record 'd SettlementResult =
  sres_EntryIDs :: "uuid list"
  sres_Entries :: "'d LedgerEntry list"
  sres_Balances :: "'d LedgerAccount list"
  sres_AlreadyProcessed :: bool
  sres_FeeAccountID :: uuid

record 'd feeQuote =
  fq_Asset :: string
  fq_Amount :: 'd

record 'd pendingEntry =
  pe_AccountID :: uuid
  pe_LedgerAccountID :: uuid
  pe_Asset :: string
  pe_EntryType :: string
  pe_Amount :: 'd

record 'd aggregatedEntry =
  ag_AccountID :: uuid
  ag_Asset :: string
  ag_Net :: 'd

section \<open>Symbols, sides and keys\<close>

definition splitSymbol :: "string \<Rightarrow> go_error + string \<times> string" where
  "splitSymbol symbol =
     (let trimmed = TrimSpace symbol in
      if trimmed = [] then Inl (Errorf ''symbol is required'' [])
      else
        (let parts = Split trimmed CHR ''-'' in
         if Contains trimmed CHR ''-'' \<and> length parts = 2 \<and> parts ! 0 \<noteq> [] \<and> parts ! 1 \<noteq> []
         then Inr (parts ! 0, parts ! 1)
         else
           (let parts = Split trimmed CHR ''/'' in
            if Contains trimmed CHR ''/'' \<and> length parts = 2 \<and> parts ! 0 \<noteq> [] \<and> parts ! 1 \<noteq> []
            then Inr (parts ! 0, parts ! 1)
            else Inl (Errorf ''symbol must be in BASE-QUOTE format'' []))))"

definition quoteAsset :: "string \<Rightarrow> string" where
  "quoteAsset symbol = (case splitSymbol symbol of Inl _ \<Rightarrow> [] | Inr (_, quote) \<Rightarrow> ToUpper (TrimSpace quote))"

definition oppositeSide :: "string \<Rightarrow> string" where
  "oppositeSide side = (if side = ''buy'' then ''sell'' else ''buy'')"

text \<open>
  \<open>accountID.String() + ":" + strings.ToUpper(asset)\<close>; the text of a UUID is a parameter. It
  is unambiguous when different UUIDs have different texts and none contains a colon.
\<close>

definition ledgerKey :: "(uuid \<Rightarrow> string) \<Rightarrow> uuid \<Rightarrow> string \<Rightarrow> string" where
  "ledgerKey str accountID asset = str accountID @ '':'' @ ToUpper asset"

definition uuid_text :: "(uuid \<Rightarrow> string) \<Rightarrow> bool" where
  "uuid_text str \<longleftrightarrow> inj str \<and> (\<forall>u. CHR '':'' \<notin> set (str u))"

section \<open>Building and applying entries\<close>

definition mkEntry :: "uuid \<Rightarrow> string \<Rightarrow> string \<Rightarrow> 'd \<Rightarrow> 'd pendingEntry" where
  "mkEntry accountID asset entryType amount =
     \<lparr>pe_AccountID = accountID, pe_LedgerAccountID = uuid_Nil, pe_Asset = asset,
      pe_EntryType = entryType, pe_Amount = amount\<rparr>"

fun aggregateLoop ::
  "(uuid \<Rightarrow> string) \<Rightarrow> (string \<times> nat) list \<Rightarrow> 'd::linordered_idom aggregatedEntry list
    \<Rightarrow> 'd pendingEntry list \<Rightarrow> 'd aggregatedEntry list" where
  "aggregateLoop str index ordered [] = ordered"
| "aggregateLoop str index ordered (entry # entries) =
     (let key = ledgerKey str (pe_AccountID entry) (pe_Asset entry);
          delta = (if pe_EntryType entry = ''debit'' then - pe_Amount entry else pe_Amount entry) in
      case map_of index key of
        Some idx \<Rightarrow>
          aggregateLoop str index (ordered[idx := (ordered ! idx)\<lparr>ag_Net := ag_Net (ordered ! idx) + delta\<rparr>]) entries
      | None \<Rightarrow>
          aggregateLoop str (AList.update key (length ordered) index)
            (ordered @ [\<lparr>ag_AccountID = pe_AccountID entry, ag_Asset = pe_Asset entry, ag_Net = delta\<rparr>]) entries)"

definition aggregatedResult :: "'d::linordered_idom aggregatedEntry \<Rightarrow> 'd pendingEntry" where
  "aggregatedResult agg =
     (if ag_Net agg < 0 then mkEntry (ag_AccountID agg) (ag_Asset agg) ''debit'' \<bar>ag_Net agg\<bar>
      else mkEntry (ag_AccountID agg) (ag_Asset agg) ''credit'' (ag_Net agg))"

definition aggregateEntries ::
  "(uuid \<Rightarrow> string) \<Rightarrow> 'd::linordered_idom pendingEntry list \<Rightarrow> 'd pendingEntry list" where
  "aggregateEntries str entries =
     map aggregatedResult (filter (\<lambda>agg. ag_Net agg \<noteq> 0) (aggregateLoop str [] [] entries))"

definition tradeLegs :: "uuid \<Rightarrow> uuid \<Rightarrow> string \<Rightarrow> string \<Rightarrow> string \<Rightarrow> 'd \<Rightarrow> 'd \<Rightarrow> 'd pendingEntry list" where
  "tradeLegs maker taker makerSide base quote notional quantity =
     (if makerSide = ''buy'' then
        [mkEntry maker quote ''debit'' notional, mkEntry maker base ''credit'' quantity,
         mkEntry taker quote ''credit'' notional, mkEntry taker base ''debit'' quantity]
      else
        [mkEntry maker quote ''credit'' notional, mkEntry maker base ''debit'' quantity,
         mkEntry taker quote ''debit'' notional, mkEntry taker base ''credit'' quantity])"

definition feeLegs :: "uuid \<Rightarrow> uuid \<Rightarrow> 'd::linordered_idom feeQuote \<Rightarrow> 'd pendingEntry list" where
  "feeLegs payer feeAccount fee =
     (if fq_Amount fee > 0 then
        [mkEntry payer (fq_Asset fee) ''debit'' (fq_Amount fee),
         mkEntry feeAccount (fq_Asset fee) ''credit'' (fq_Amount fee)]
      else [])"

definition buildSettlementEntries ::
  "(uuid \<Rightarrow> string) \<Rightarrow> uuid \<Rightarrow> uuid \<Rightarrow> uuid \<Rightarrow> string \<Rightarrow> string \<Rightarrow> string \<Rightarrow> 'd::linordered_idom \<Rightarrow> 'd
    \<Rightarrow> 'd feeQuote \<Rightarrow> 'd feeQuote \<Rightarrow> 'd pendingEntry list" where
  "buildSettlementEntries str makerAccountID takerAccountID feeAccountID makerSide base quote
     notional quantity makerFee takerFee =
     aggregateEntries str
       (tradeLegs makerAccountID takerAccountID makerSide base quote notional quantity
        @ feeLegs makerAccountID feeAccountID makerFee
        @ feeLegs takerAccountID feeAccountID takerFee)"

text \<open>
  \<open>applyEntry\<close> changes the account it points to before it may still fail, so the model returns
  the error and the account as they are when the function returns.
\<close>

definition insufficient :: "'d LedgerAccount \<Rightarrow> go_error" where
  "insufficient acct =
     Errorf ''insufficient balance for account %s asset %s'' [AUuid (la_AccountID acct), AStr (la_Asset acct)]"

definition debitLocked :: "'d::linordered_idom LedgerAccount \<Rightarrow> 'd \<Rightarrow> bool \<Rightarrow> 'd \<times> 'd LedgerAccount" where
  "debitLocked acct amount useLocked =
     (if useLocked \<and> la_BalanceLocked acct > 0 then
        if la_BalanceLocked acct \<ge> amount
        then (0, acct\<lparr>la_BalanceLocked := la_BalanceLocked acct - amount\<rparr>)
        else (amount - la_BalanceLocked acct, acct\<lparr>la_BalanceLocked := 0\<rparr>)
      else (amount, acct))"

definition applyEntry ::
  "'d::linordered_idom LedgerAccount \<Rightarrow> string \<Rightarrow> 'd \<Rightarrow> bool \<Rightarrow> go_error option \<times> 'd LedgerAccount" where
  "applyEntry acct entryType amount useLocked =
     (let finish = (\<lambda>a. if la_BalanceAvailable a < 0 \<or> la_BalanceLocked a < 0 then (Some (insufficient a), a) else (None, a)) in
      if amount \<le> 0 then (Some (Errorf ''amount must be positive'' []), acct)
      else if entryType = ''debit'' then
        (case debitLocked acct amount useLocked of (remaining, acct1) \<Rightarrow>
           if remaining > 0 then
             if la_BalanceAvailable acct1 < remaining then (Some (insufficient acct1), acct1)
             else finish (acct1\<lparr>la_BalanceAvailable := la_BalanceAvailable acct1 - remaining\<rparr>)
           else finish acct1)
      else if entryType = ''credit'' then
        finish (acct\<lparr>la_BalanceAvailable := la_BalanceAvailable acct + amount\<rparr>)
      else (Some (Errorf ''invalid entry type'' []), acct))"

section \<open>Keys\<close>

lemma append_sep_inject: "c \<notin> set xs \<Longrightarrow> c \<notin> set ys \<Longrightarrow> xs @ c # us = ys @ c # vs \<longleftrightarrow> xs = ys \<and> us = vs"
proof (induction xs arbitrary: ys)
  case Nil then show ?case by (cases ys) auto
next
  case (Cons x xs) then show ?case by (cases ys) auto
qed

lemma ledgerKey_inject:
  assumes "uuid_text str"
  shows "ledgerKey str u a = ledgerKey str v b \<longleftrightarrow> u = v \<and> ToUpper a = ToUpper b"
  using assms append_sep_inject [of "CHR '':''" "str u" "str v"]
  by (auto simp: ledgerKey_def uuid_text_def inj_eq)

text \<open>The decimal text of a UUID read as a number is an instance of such a printing function.\<close>

definition sample_uuid_text :: "uuid \<Rightarrow> string" where
  "sample_uuid_text u = nat_string (unat u)"

lemma colon_nat_string [simp]: "CHR '':'' \<notin> set (nat_string n)"
proof (induction n rule: nat_string.induct)
  case (1 n)
  have "digit_val CHR '':'' = None" by (simp add: digit_val_def)
  then have "CHR '':'' \<noteq> digit_char k" if "k < 10" for k
    using digit_val_digit_char [OF that] by (metis option.distinct(1))
  with 1 show ?case by (subst nat_string.simps) auto
qed

lemma sample_uuid_text_ok [simp]: "uuid_text sample_uuid_text"
  by (auto simp: uuid_text_def sample_uuid_text_def inj_def word_unat_eq_iff)

section \<open>Net effect of entries\<close>

text \<open>What a list of entries does to one account in one asset, assets compared in upper case as in \<open>ledgerKey\<close>.\<close>

definition signed :: "'d::linordered_idom pendingEntry \<Rightarrow> 'd" where
  "signed e = (if pe_EntryType e = ''debit'' then - pe_Amount e else pe_Amount e)"

definition affects :: "uuid \<Rightarrow> string \<Rightarrow> 'd pendingEntry \<Rightarrow> bool" where
  "affects u A e \<longleftrightarrow> pe_AccountID e = u \<and> ToUpper (pe_Asset e) = A"

definition net_of :: "uuid \<Rightarrow> string \<Rightarrow> 'd::linordered_idom pendingEntry list \<Rightarrow> 'd" where
  "net_of u A es = sum_list (map (\<lambda>e. if affects u A e then signed e else 0) es)"

definition asset_net :: "string \<Rightarrow> 'd::linordered_idom pendingEntry list \<Rightarrow> 'd" where
  "asset_net A es = sum_list (map (\<lambda>e. if ToUpper (pe_Asset e) = A then signed e else 0) es)"

definition entry_key :: "(uuid \<Rightarrow> string) \<Rightarrow> 'd pendingEntry \<Rightarrow> string" where
  "entry_key str e = ledgerKey str (pe_AccountID e) (pe_Asset e)"

definition ag_key :: "(uuid \<Rightarrow> string) \<Rightarrow> 'd aggregatedEntry \<Rightarrow> string" where
  "ag_key str a = ledgerKey str (ag_AccountID a) (ag_Asset a)"

definition ag_sum :: "(uuid \<Rightarrow> string \<Rightarrow> bool) \<Rightarrow> 'd::linordered_idom aggregatedEntry list \<Rightarrow> 'd" where
  "ag_sum P as = sum_list (map (\<lambda>a. if P (ag_AccountID a) (ToUpper (ag_Asset a)) then ag_Net a else 0) as)"

definition pe_sum :: "(uuid \<Rightarrow> string \<Rightarrow> bool) \<Rightarrow> 'd::linordered_idom pendingEntry list \<Rightarrow> 'd" where
  "pe_sum P es = sum_list (map (\<lambda>e. if P (pe_AccountID e) (ToUpper (pe_Asset e)) then signed e else 0) es)"

lemma net_of_pe_sum: "net_of u A es = pe_sum (\<lambda>v B. v = u \<and> B = A) es"
  by (simp add: net_of_def pe_sum_def affects_def)

lemma asset_net_pe_sum: "asset_net A es = pe_sum (\<lambda>v B. B = A) es"
  by (simp add: asset_net_def pe_sum_def)

lemma pe_sum_simps [simp]:
  "pe_sum P [] = 0"
  "pe_sum P (e # es) = (if P (pe_AccountID e) (ToUpper (pe_Asset e)) then signed e else 0) + pe_sum P es"
  "pe_sum P (xs @ ys) = pe_sum P xs + pe_sum P ys"
  by (simp_all add: pe_sum_def)

lemma ag_sum_simps [simp]:
  "ag_sum P [] = 0"
  "ag_sum P (a # as) = (if P (ag_AccountID a) (ToUpper (ag_Asset a)) then ag_Net a else 0) + ag_sum P as"
  "ag_sum P (xs @ ys) = ag_sum P xs + ag_sum P ys"
  by (simp_all add: ag_sum_def)

lemma ag_sum_update:
  "i < length as \<Longrightarrow>
   ag_sum P (as[i := (as ! i)\<lparr>ag_Net := ag_Net (as ! i) + d\<rparr>]) =
   ag_sum P as + (if P (ag_AccountID (as ! i)) (ToUpper (ag_Asset (as ! i))) then d else 0)"
  by (induction as arbitrary: i) (auto split: nat.splits)

text \<open>The index of \<open>aggregateEntries\<close> holds the position of every key collected so far.\<close>

definition index_ok :: "(uuid \<Rightarrow> string) \<Rightarrow> (string \<times> nat) list \<Rightarrow> 'd aggregatedEntry list \<Rightarrow> bool" where
  "index_ok str index ordered \<longleftrightarrow>
     distinct (map (ag_key str) ordered) \<and>
     (\<forall>k i. map_of index k = Some i \<longleftrightarrow> i < length ordered \<and> ag_key str (ordered ! i) = k)"

lemma index_ok_Nil: "index_ok str [] []"
  by (simp add: index_ok_def)

lemma index_ok_update:
  assumes "index_ok str index ordered"
  shows "index_ok str index (ordered[i := (ordered ! i)\<lparr>ag_Net := n\<rparr>])"
proof -
  have "map (ag_key str) (ordered[i := (ordered ! i)\<lparr>ag_Net := n\<rparr>]) = map (ag_key str) ordered"
  proof (cases "i < length ordered")
    case True
    have "ag_key str ((ordered ! i)\<lparr>ag_Net := n\<rparr>) = map (ag_key str) ordered ! i" using True by (simp add: ag_key_def)
    then show ?thesis by (simp only: map_update list_update_id)
  qed (simp add: list_update_beyond)
  moreover from this have "j < length ordered \<Longrightarrow>
      ag_key str (ordered[i := (ordered ! i)\<lparr>ag_Net := n\<rparr>] ! j) = ag_key str (ordered ! j)" for j
    by (metis length_list_update nth_map)
  ultimately show ?thesis
    using assms unfolding index_ok_def by (metis length_list_update)
qed

lemma index_ok_append:
  assumes "index_ok str index ordered" and "map_of index (ag_key str a) = None"
  shows "index_ok str (AList.update (ag_key str a) (length ordered) index) (ordered @ [a])"
proof -
  have new: "ag_key str a \<notin> set (map (ag_key str) ordered)"
  proof
    assume "ag_key str a \<in> set (map (ag_key str) ordered)"
    then obtain i where "i < length ordered" "ag_key str (ordered ! i) = ag_key str a"
      by (auto simp: in_set_conv_nth)
    then have "map_of index (ag_key str a) = Some i" using assms(1) unfolding index_ok_def by blast
    with assms(2) show False by simp
  qed
  then have "i < length ordered \<Longrightarrow> ag_key str (ordered ! i) \<noteq> ag_key str a" for i
    by (metis length_map nth_map nth_mem)
  with new show ?thesis
    using assms(1) unfolding index_ok_def by (auto simp: nth_append less_Suc_eq)
qed

lemma aggregateLoop_ok:
  assumes "uuid_text str" and "index_ok str index ordered"
  shows "distinct (map (ag_key str) (aggregateLoop str index ordered es)) \<and>
         ag_sum P (aggregateLoop str index ordered es) = ag_sum P ordered + pe_sum P es"
  using assms(2)
proof (induction es arbitrary: index ordered)
  case Nil
  then show ?case by (simp add: index_ok_def)
next
  case (Cons e es)
  let ?key = "ledgerKey str (pe_AccountID e) (pe_Asset e)"
  let ?delta = "if pe_EntryType e = ''debit'' then - pe_Amount e else pe_Amount e"
  show ?case
  proof (cases "map_of index ?key")
    case None
    let ?a = "\<lparr>ag_AccountID = pe_AccountID e, ag_Asset = pe_Asset e, ag_Net = ?delta\<rparr>"
    have key: "ag_key str ?a = ?key" by (simp add: ag_key_def)
    have "index_ok str (AList.update ?key (length ordered) index) (ordered @ [?a])"
      using index_ok_append [OF Cons.prems, of ?a] None key by simp
    from Cons.IH [OF this] None show ?thesis by (simp add: Let_def signed_def)
  next
    case (Some i)
    then have i: "i < length ordered" and k: "ag_key str (ordered ! i) = ?key"
      using Cons.prems by (auto simp: index_ok_def)
    from k have "ag_AccountID (ordered ! i) = pe_AccountID e"
      and "ToUpper (ag_Asset (ordered ! i)) = ToUpper (pe_Asset e)"
      using ledgerKey_inject [OF assms(1)] by (simp_all add: ag_key_def)
    with Cons.IH [OF index_ok_update [OF Cons.prems]] Some i show ?thesis
      by (simp add: Let_def signed_def ag_sum_update)
  qed
qed

lemma aggregatedResult_simps [simp]:
  "pe_AccountID (aggregatedResult a) = ag_AccountID a"
  "pe_Asset (aggregatedResult a) = ag_Asset a"
  "signed (aggregatedResult a) = ag_Net a"
  by (simp_all add: aggregatedResult_def mkEntry_def signed_def)

lemma pe_sum_aggregatedResult: "pe_sum P (map aggregatedResult (filter (\<lambda>a. ag_Net a \<noteq> 0) as)) = ag_sum P as"
  by (induction as) auto

text \<open>Aggregation keeps every sum that groups by account and upper-case asset.\<close>

lemma aggregateEntries_sum:
  "uuid_text str \<Longrightarrow> pe_sum P (aggregateEntries str es) = pe_sum P es"
  using aggregateLoop_ok [OF _ index_ok_Nil, where str = str and P = P and es = es] by (simp add: aggregateEntries_def pe_sum_aggregatedResult)

definition entry_ok :: "'d::linordered_idom pendingEntry \<Rightarrow> bool" where
  "entry_ok e \<longleftrightarrow> 0 < pe_Amount e \<and> (pe_EntryType e = ''debit'' \<or> pe_EntryType e = ''credit'')"

lemma entry_key_aggregatedResult: "entry_key str (aggregatedResult a) = ag_key str a"
  by (simp add: entry_key_def ag_key_def)

lemma aggregateEntries_distinct:
  "uuid_text str \<Longrightarrow> distinct (map (entry_key str) (aggregateEntries str es))"
  using aggregateLoop_ok [OF _ index_ok_Nil, where str = str and es = es]
  by (auto simp: aggregateEntries_def comp_def entry_key_aggregatedResult distinct_map inj_on_def)

lemma aggregateEntries_entry_ok: "list_all entry_ok (aggregateEntries str es)"
  by (auto simp: list_all_iff aggregateEntries_def aggregatedResult_def mkEntry_def entry_ok_def)

section \<open>Settlement entries\<close>

lemma signed_mkEntry [simp]: "signed (mkEntry u a t x) = (if t = ''debit'' then - x else x)"
  by (simp add: signed_def mkEntry_def)

lemma mkEntry_simps [simp]:
  "pe_AccountID (mkEntry u a t x) = u" "pe_Asset (mkEntry u a t x) = a"
  "pe_EntryType (mkEntry u a t x) = t" "pe_Amount (mkEntry u a t x) = x"
  by (simp_all add: mkEntry_def)

lemma feeLegs_sum:
  "fq_Amount fee \<ge> 0 \<Longrightarrow> pe_sum P (feeLegs payer feeAccount fee) =
   (if P feeAccount (ToUpper (fq_Asset fee)) then fq_Amount fee else 0)
   - (if P payer (ToUpper (fq_Asset fee)) then fq_Amount fee else 0)"
  by (auto simp: feeLegs_def)

lemma feeLegs_balanced: "pe_sum (\<lambda>_ B. B = A) (feeLegs payer feeAccount fee) = 0"
  by (simp add: feeLegs_def)

lemma buildSettlementEntries_sum:
  "uuid_text str \<Longrightarrow>
   pe_sum P (buildSettlementEntries str maker taker feeAccount side base quote notional quantity makerFee takerFee) =
   pe_sum P (tradeLegs maker taker side base quote notional quantity)
   + pe_sum P (feeLegs maker feeAccount makerFee) + pe_sum P (feeLegs taker feeAccount takerFee)"
  by (simp add: buildSettlementEntries_def aggregateEntries_sum add.assoc)

lemma settlement_balanced:
  "uuid_text str \<Longrightarrow>
   asset_net A (buildSettlementEntries str maker taker feeAccount side base quote notional quantity makerFee takerFee) = 0"
  by (simp add: asset_net_pe_sum buildSettlementEntries_sum feeLegs_balanced tradeLegs_def)

lemma settlement_entries_ok:
  "list_all entry_ok (buildSettlementEntries str maker taker feeAccount side base quote notional quantity makerFee takerFee)"
  by (simp add: buildSettlementEntries_def aggregateEntries_entry_ok)

lemma settlement_distinct:
  "uuid_text str \<Longrightarrow>
   distinct (map (entry_key str)
     (buildSettlementEntries str maker taker feeAccount side base quote notional quantity makerFee takerFee))"
  by (simp add: buildSettlementEntries_def aggregateEntries_distinct)

text \<open>
  C13: The entries of a settlement are a double entry. Whatever the parties, side, assets and fees
  (accounts may coincide and fees may be in any asset), every entry has a positive amount and a valid
  type, there is at most one per account and asset, and in each asset debits and credits cancel out.
\<close>

theorem settlement_double_entry:
  assumes "uuid_text str"
  shows "let es = buildSettlementEntries str maker taker feeAccount side base quote notional quantity makerFee takerFee in
     asset_net A es = 0 \<and> list_all entry_ok es \<and> distinct (map (entry_key str) es)"
  using assms unfolding Let_def
  by (simp add: settlement_balanced settlement_entries_ok settlement_distinct)

theorem settlement_double_entry_witness:
  "asset_net ''USD'' (buildSettlementEntries sample_uuid_text 1 2 3 ''buy'' ''BTC'' ''usd'' (50::int) 5
     \<lparr>fq_Asset = ''USD'', fq_Amount = 2\<rparr> \<lparr>fq_Asset = ''USD'', fq_Amount = 1\<rparr>) = 0"
  using settlement_double_entry [OF sample_uuid_text_ok, where A = "''USD''" and maker = 1 and taker = 2
      and feeAccount = 3 and side = "''buy''" and base = "''BTC''" and quote = "''usd''"
      and notional = "50::int" and quantity = 5 and makerFee = "\<lparr>fq_Asset = ''USD'', fq_Amount = 2\<rparr>"
      and takerFee = "\<lparr>fq_Asset = ''USD'', fq_Amount = 1\<rparr>"] by (simp add: Let_def)

text \<open>
  A settlement moves to each account exactly what the trade says: the buyer receives the quantity in
  the base asset and pays the notional in the quote asset, the seller the other way round, each side
  pays its own fee in the asset of its fee, and the fee account receives both fees; nothing else changes.
\<close>

theorem settlement_moves:
  assumes "uuid_text str" and "side = ''buy'' \<or> side = ''sell''"
    and "0 \<le> fq_Amount makerFee" and "0 \<le> fq_Amount takerFee"
  shows "net_of u A (buildSettlementEntries str maker taker feeAccount side base quote notional quantity makerFee takerFee) =
     (let buyer = (if side = ''buy'' then maker else taker); seller = (if side = ''buy'' then taker else maker);
          at = (\<lambda>v B x. if u = v \<and> ToUpper B = A then x else 0) in
      at buyer base quantity - at seller base quantity
      + at seller quote notional - at buyer quote notional
      + at feeAccount (fq_Asset makerFee) (fq_Amount makerFee) - at maker (fq_Asset makerFee) (fq_Amount makerFee)
      + at feeAccount (fq_Asset takerFee) (fq_Amount takerFee) - at taker (fq_Asset takerFee) (fq_Amount takerFee))"
  using assms(2)
  by (auto simp: net_of_pe_sum buildSettlementEntries_sum [OF assms(1)] feeLegs_sum [OF assms(3)]
      feeLegs_sum [OF assms(4)] tradeLegs_def Let_def)

lemma upper_usd: "ToUpper ''usd'' = ''USD''" "ToUpper ''USD'' = ''USD''" "ToUpper ''BTC'' = ''BTC''"
  by code_simp+

theorem settlement_moves_witness:
  "net_of 1 ''USD'' (buildSettlementEntries sample_uuid_text 1 2 3 ''buy'' ''BTC'' ''usd'' (50::int) 5
     \<lparr>fq_Asset = ''USD'', fq_Amount = 2\<rparr> \<lparr>fq_Asset = ''USD'', fq_Amount = 1\<rparr>) = - 52"
  using settlement_moves [OF sample_uuid_text_ok, where u = 1 and A = "''USD''" and maker = 1 and taker = 2
      and feeAccount = 3 and side = "''buy''" and base = "''BTC''" and quote = "''usd''"
      and notional = "50::int" and quantity = 5 and makerFee = "\<lparr>fq_Asset = ''USD'', fq_Amount = 2\<rparr>"
      and takerFee = "\<lparr>fq_Asset = ''USD'', fq_Amount = 1\<rparr>"]
  by (simp add: upper_usd)

section \<open>Applying an entry\<close>

definition acct_total :: "'d::linordered_idom LedgerAccount \<Rightarrow> 'd" where
  "acct_total a = la_BalanceAvailable a + la_BalanceLocked a"

definition acct_nonneg :: "'d::linordered_idom LedgerAccount \<Rightarrow> bool" where
  "acct_nonneg a \<longleftrightarrow> 0 \<le> la_BalanceAvailable a \<and> 0 \<le> la_BalanceLocked a"

lemma debitLocked_spec:
  assumes "debitLocked a x l = (r, a')" and "0 < x"
  shows "la_BalanceAvailable a' = la_BalanceAvailable a" and "la_ID a' = la_ID a"
    and "la_AccountID a' = la_AccountID a" and "la_Asset a' = la_Asset a" and "la_UpdatedAt a' = la_UpdatedAt a"
    and "la_BalanceLocked a' - r = la_BalanceLocked a - x" and "0 \<le> r"
  using assms by (auto simp: debitLocked_def split: if_splits)

lemma debitLocked_amounts:
  assumes "debitLocked a x l = (r, a')" and "0 < x" and "0 \<le> la_BalanceLocked a"
  shows "r = (if l then max 0 (x - la_BalanceLocked a) else x)"
    and "la_BalanceLocked a' = (if l then max 0 (la_BalanceLocked a - x) else la_BalanceLocked a)"
  using assms by (auto simp: debitLocked_def max_def split: if_splits)

lemma applyEntry_identity:
  assumes "applyEntry a t x l = (e, a')"
  shows "la_ID a' = la_ID a" "la_AccountID a' = la_AccountID a" "la_Asset a' = la_Asset a" "la_UpdatedAt a' = la_UpdatedAt a"
  using assms by (auto simp: applyEntry_def debitLocked_def Let_def split: if_splits)

text \<open>How an entry is applied, case by case.\<close>

lemma applyEntry_cases [consumes 1, case_names invalid credit debit]:
  assumes "applyEntry a t x l = (e, a')"
    and "x \<le> 0 \<or> (t \<noteq> ''debit'' \<and> t \<noteq> ''credit'') \<Longrightarrow> e \<noteq> None \<Longrightarrow> a' = a \<Longrightarrow> P"
    and "0 < x \<Longrightarrow> t = ''credit'' \<Longrightarrow> a' = a\<lparr>la_BalanceAvailable := la_BalanceAvailable a + x\<rparr>
      \<Longrightarrow> e = None \<longleftrightarrow> acct_nonneg a' \<Longrightarrow> P"
    and "\<And>r a1. 0 < x \<Longrightarrow> t = ''debit'' \<Longrightarrow> debitLocked a x l = (r, a1)
      \<Longrightarrow> a' = (if la_BalanceAvailable a1 < r then a1 else a1\<lparr>la_BalanceAvailable := la_BalanceAvailable a1 - r\<rparr>)
      \<Longrightarrow> e = None \<longleftrightarrow> r \<le> la_BalanceAvailable a1 \<and> 0 \<le> la_BalanceLocked a1 \<Longrightarrow> P"
  shows P
proof -
  consider "x \<le> 0 \<or> (t \<noteq> ''debit'' \<and> t \<noteq> ''credit'')" | "0 < x" "t = ''credit''" | "0 < x" "t = ''debit''"
    by fastforce
  then show P
  proof cases
    case 1
    then show P using assms(1) by (intro assms(2)) (auto simp: applyEntry_def Let_def split: if_splits)
  next
    case 2
    then show P using assms(1) by (intro assms(3)) (auto simp: applyEntry_def Let_def acct_nonneg_def split: if_splits)
  next
    case 3
    obtain r a1 where d: "debitLocked a x l = (r, a1)" by (cases "debitLocked a x l")
    then have "0 \<le> r" using 3 debitLocked_spec(7) by blast
    with 3 d show P using assms(1) by (intro assms(4) [of r a1]) (auto simp: applyEntry_def Let_def split: if_splits)
  qed
qed

lemma applyEntry_None:
  assumes "applyEntry a t x l = (None, a')"
  shows "acct_nonneg a'" and "acct_total a' = acct_total a + (if t = ''debit'' then - x else x)"
proof -
  show "acct_nonneg a'"
    using assms
  proof (cases rule: applyEntry_cases)
    case (debit r a1)
    then show ?thesis by (simp add: acct_nonneg_def)
  qed simp_all
  show "acct_total a' = acct_total a + (if t = ''debit'' then - x else x)"
    using assms
  proof (cases rule: applyEntry_cases)
    case (debit r a1)
    then have "la_BalanceLocked a1 = la_BalanceLocked a - x + r" "la_BalanceAvailable a1 = la_BalanceAvailable a"
      using debitLocked_spec [OF debit(3) debit(1)] by (simp_all add: algebra_simps)
    with debit show ?thesis by (simp add: acct_total_def)
  qed (simp_all add: acct_total_def)
qed

text \<open>
  Applying an entry to an account with non-negative balances succeeds exactly when the amount is positive,
  the type is valid and, for a debit, the balances it may draw on cover it: the available balance, and the
  locked one as well when the entry is backed by a reservation. On success the balances stay non-negative and
  the total changes by exactly the amount; locked funds are drawn first and credits never touch them.
\<close>

theorem applyEntry_exact:
  assumes "acct_nonneg a"
  shows "case applyEntry a t x l of
      (None, a') \<Rightarrow> 0 < x \<and> acct_nonneg a' \<and>
        (if t = ''debit''
         then x \<le> la_BalanceAvailable a + (if l then la_BalanceLocked a else 0)
           \<and> la_BalanceLocked a' = (if l then max 0 (la_BalanceLocked a - x) else la_BalanceLocked a)
           \<and> acct_total a' = acct_total a - x
         else t = ''credit'' \<and> la_BalanceLocked a' = la_BalanceLocked a \<and> acct_total a' = acct_total a + x)
    | (Some e, _) \<Rightarrow> x \<le> 0 \<or> (t \<noteq> ''debit'' \<and> t \<noteq> ''credit'')
        \<or> (t = ''debit'' \<and> x > la_BalanceAvailable a + (if l then la_BalanceLocked a else 0))"
proof -
  obtain e a' where e: "applyEntry a t x l = (e, a')" by (cases "applyEntry a t x l")
  have nn: "0 \<le> la_BalanceAvailable a" "0 \<le> la_BalanceLocked a" using assms by (simp_all add: acct_nonneg_def)
  show ?thesis
    using e
  proof (cases rule: applyEntry_cases)
    case invalid
    then show ?thesis using e by (auto split: option.splits)
  next
    case credit
    then have "e = None" using nn by (simp add: acct_nonneg_def)
    with credit e nn show ?thesis by (simp add: acct_nonneg_def acct_total_def)
  next
    case (debit r a1)
    note amounts = debitLocked_amounts [OF debit(3,1) nn(2)] and spec = debitLocked_spec [OF debit(3,1)]
    have ok: "e = None \<longleftrightarrow> x \<le> la_BalanceAvailable a + (if l then la_BalanceLocked a else 0)"
      using debit(5) nn by (auto simp: amounts spec(1) max_def)
    show ?thesis
    proof (cases e)
      case None
      then show ?thesis
        using e debit ok applyEntry_None [of a t x l a'] amounts by simp
    next
      case (Some err)
      then show ?thesis using e debit(2) ok by simp
    qed
  qed
qed

theorem applyEntry_exact_witness:
  "applyEntry \<lparr>la_ID = 1, la_AccountID = 2, la_Asset = ''USD'', la_BalanceAvailable = 5::int, la_BalanceLocked = 3, la_UpdatedAt = 0\<rparr> ''debit'' 4 True
   = (None, \<lparr>la_ID = 1, la_AccountID = 2, la_Asset = ''USD'', la_BalanceAvailable = 4, la_BalanceLocked = 0, la_UpdatedAt = 0\<rparr>)"
  using applyEntry_exact [where a = "\<lparr>la_ID = 1, la_AccountID = 2, la_Asset = ''USD'', la_BalanceAvailable = 5::int, la_BalanceLocked = 3, la_UpdatedAt = 0\<rparr>"
      and t = "''debit''" and x = 4 and l = True]
  by (simp add: applyEntry_def debitLocked_def acct_nonneg_def)

end
