(* ===== verification/Go_Database.thy ===== *)
theory Go_Database
  imports Go_Prelude
begin

text \<open>
  Programs that can fail, and the database they work on. An operation of a service is a state-passing function that returns a Go error or a value,
  with its weakest precondition \<open>wp\<close>. Every interaction with the outside (a statement, \<open>Begin\<close>, \<open>Commit\<close>, the clock,
  a fresh UUID, a call of another service) takes one step, and the environment decides for each step number what
  happens there: whether the statement fails, what the clock shows, which UUID is drawn. A property
  proved for every environment holds for every pattern of failures. The tables are a type parameter; every service extends the records of
  state and environment by its own parts.
\<close>

named_theorems wp_simps \<open>weakest preconditions of the program constructs\<close>
named_theorems wp_intro \<open>introduction rules that follow a program\<close>

section \<open>Programs\<close>

type_synonym ('s, 'a) prog = "'s \<Rightarrow> (go_error + 'a) \<times> 's"

definition ret :: "'a \<Rightarrow> ('s, 'a) prog" where
  "ret a s = (Inr a, s)"

definition fail :: "go_error \<Rightarrow> ('s, 'a) prog" where
  "fail e s = (Inl e, s)"

text \<open>\<open>bindM m k\<close> is \<open>x, err := m; if err != nil { return err }; k x\<close>.\<close>

definition bindM :: "('s, 'a) prog \<Rightarrow> ('a \<Rightarrow> ('s, 'b) prog) \<Rightarrow> ('s, 'b) prog" where
  "bindM m k s = (case m s of (Inl e, s') \<Rightarrow> (Inl e, s') | (Inr a, s') \<Rightarrow> k a s')"

text \<open>\<open>attempt m h k\<close> is \<open>x, err := m; if err != nil { h err }; k x\<close>, where the error is looked at.\<close>

definition attempt :: "('s, 'a) prog \<Rightarrow> (go_error \<Rightarrow> ('s, 'b) prog) \<Rightarrow> ('a \<Rightarrow> ('s, 'b) prog) \<Rightarrow> ('s, 'b) prog" where
  "attempt m h k s = (case m s of (Inl e, s') \<Rightarrow> h e s' | (Inr a, s') \<Rightarrow> k a s')"

fun foldM :: "('b \<Rightarrow> 'a \<Rightarrow> ('s, 'b) prog) \<Rightarrow> 'a list \<Rightarrow> 'b \<Rightarrow> ('s, 'b) prog" where
  "foldM f [] acc = ret acc"
| "foldM f (x # xs) acc = bindM (f acc x) (foldM f xs)"

text \<open>
  The weakest precondition of a program for a condition on its result and one on its error: what has to
  hold before so that they hold after.
\<close>

definition wp :: "('s, 'a) prog \<Rightarrow> ('a \<Rightarrow> 's \<Rightarrow> bool) \<Rightarrow> (go_error \<Rightarrow> 's \<Rightarrow> bool) \<Rightarrow> 's \<Rightarrow> bool" where
  "wp m Q X s = (case m s of (Inl e, s') \<Rightarrow> X e s' | (Inr a, s') \<Rightarrow> Q a s')"

lemma wp_ret [simp, wp_simps]: "wp (ret a) Q X s = Q a s"
  by (simp add: wp_def ret_def)

lemma wp_fail [simp, wp_simps]: "wp (fail e) Q X s = X e s"
  by (simp add: wp_def fail_def)

lemma wp_bindM [simp, wp_simps]: "wp (bindM m k) Q X s = wp m (\<lambda>a. wp (k a) Q X) X s"
  by (simp add: wp_def bindM_def split: prod.splits sum.splits)

lemma wp_attempt [simp, wp_simps]:
  "wp (attempt m h k) Q X s = wp m (\<lambda>a. wp (k a) Q X) (\<lambda>e. wp (h e) Q X) s"
  by (simp add: wp_def attempt_def split: prod.splits sum.splits)

text \<open>The same as introduction rules, which follow a program and leave its end states as goals.\<close>

lemma wp_intro_structural [wp_intro]:
  "Q a s \<Longrightarrow> wp (ret a) Q X s"
  "X e s \<Longrightarrow> wp (fail e) Q X s"
  "wp m (\<lambda>a. wp (k a) Q X) X s \<Longrightarrow> wp (bindM m k) Q X s"
  "wp m (\<lambda>a. wp (k' a) Q' X') (\<lambda>e. wp (h e) Q' X') s \<Longrightarrow> wp (attempt m h k') Q' X' s"
  by simp_all

lemma wp_if [wp_intro]:
  "(b \<Longrightarrow> wp m Q X s) \<Longrightarrow> (\<not> b \<Longrightarrow> wp n Q X s) \<Longrightarrow> wp (if b then m else n) Q X s"
  by simp

lemma wp_case_option [wp_intro]:
  "(x = None \<Longrightarrow> wp m Q X s) \<Longrightarrow> (\<And>a. x = Some a \<Longrightarrow> wp (f a) Q X s) \<Longrightarrow> wp (case x of None \<Rightarrow> m | Some a \<Rightarrow> f a) Q X s"
  by (cases x) simp_all

lemma wp_conseq:
  "wp m Q X s \<Longrightarrow> (\<And>a t. Q a t \<Longrightarrow> Q' a t) \<Longrightarrow> (\<And>e t. X e t \<Longrightarrow> X' e t) \<Longrightarrow> wp m Q' X' s"
  by (simp add: wp_def split: prod.splits sum.splits)

lemma wp_Inr: "wp m Q X s \<Longrightarrow> m s = (Inr a, t) \<Longrightarrow> Q a t"
  by (simp add: wp_def)

lemma wp_Inl: "wp m Q X s \<Longrightarrow> m s = (Inl e, t) \<Longrightarrow> X e t"
  by (simp add: wp_def)

lemma wp_I: "(\<And>a t. m s = (Inr a, t) \<Longrightarrow> Q a t) \<Longrightarrow> (\<And>e t. m s = (Inl e, t) \<Longrightarrow> X e t) \<Longrightarrow> wp m Q X s"
  by (simp add: wp_def split: prod.splits sum.splits)

lemma wp_True [simp]: "wp m (\<lambda>_ _. True) (\<lambda>_ _. True) s"
  by (simp add: wp_def split: prod.splits sum.splits)

lemma wp_foldM:
  assumes "I [] acc s"
    and "\<And>done x rest acc s. xs = done @ x # rest \<Longrightarrow> I done acc s \<Longrightarrow> wp (f acc x) (I (done @ [x])) X s"
  shows "wp (foldM f xs acc) (I xs) X s"
proof -
  have "I done acc s \<Longrightarrow> xs = done @ rest \<Longrightarrow> wp (foldM f rest acc) (I xs) X s" for "done" rest acc s
  proof (induction rest arbitrary: "done" acc s)
    case (Cons x rest)
    have "wp (f acc x) (I (done @ [x])) X s" using Cons.prems assms(2) by blast
    then show ?case
      using Cons.IH [of "done @ [x]"] Cons.prems(2) by (auto intro: wp_conseq)
  qed simp
  with assms(1) show ?thesis by fastforce
qed

section \<open>Database clients\<close>

text \<open>
  The state a client sees: the tables (inside a transaction, its own view of them), whether the
  open transaction is aborted (PostgreSQL then refuses every further statement of it), and the number of the next step.
\<close>

record 'db sql_state =
  ss_db :: 'db
  ss_aborted :: bool
  ss_step :: nat

text \<open>
  The environment. \<open>se_uniqueErr\<close> is the error the driver returns for a violated unique constraint.
\<close>

record 'd sql_env =
  se_fault :: "nat \<Rightarrow> bool"
  se_clock :: "nat \<Rightarrow> time"
  se_uuid :: "nat \<Rightarrow> uuid"
  se_uniqueErr :: go_error
  se_uuidString :: "uuid \<Rightarrow> string"
  se_dec :: "'d decimal_ops"

definition Now :: "('d, 'e) sql_env_scheme \<Rightarrow> (('db, 'z) sql_state_scheme, time) prog" where
  "Now E s = (Inr (se_clock E (ss_step s)), s\<lparr>ss_step := Suc (ss_step s)\<rparr>)"

definition NewUUID :: "('d, 'e) sql_env_scheme \<Rightarrow> (('db, 'z) sql_state_scheme, uuid) prog" where
  "NewUUID E s = (Inr (se_uuid E (ss_step s)), s\<lparr>ss_step := Suc (ss_step s)\<rparr>)"

text \<open>
  A statement is given by what it does to the tables when the server executes it; the step number gives the
  defaults \<open>uuid_generate_v4()\<close> and \<open>now()\<close>. \<open>txStmt\<close> runs it in the open transaction, \<open>poolQuery\<close> outside of
  any. \<open>NoRows\<close> is an answer and not a failure of the transaction.
\<close>

type_synonym ('db, 'a) stmt = "nat \<Rightarrow> 'db \<Rightarrow> go_error + 'a \<times> 'db"

definition txStmt :: "('d, 'e) sql_env_scheme \<Rightarrow> ('db, 'a) stmt \<Rightarrow> (('db, 'z) sql_state_scheme, 'a) prog" where
  "txStmt E f s =
     (let n = ss_step s; s1 = s\<lparr>ss_step := Suc n\<rparr> in
      if ss_aborted s \<or> se_fault E n then (Inl DBErr, s1\<lparr>ss_aborted := True\<rparr>)
      else case f n (ss_db s) of
          Inl e \<Rightarrow> (Inl e, if e = NoRows then s1 else s1\<lparr>ss_aborted := True\<rparr>)
        | Inr (a, db) \<Rightarrow> (Inr a, s1\<lparr>ss_db := db\<rparr>))"

definition poolQuery :: "('d, 'e) sql_env_scheme \<Rightarrow> ('db, 'a) stmt \<Rightarrow> (('db, 'z) sql_state_scheme, 'a) prog" where
  "poolQuery E f s =
     (let n = ss_step s; s1 = s\<lparr>ss_step := Suc n\<rparr> in
      if se_fault E n then (Inl DBErr, s1)
      else case f n (ss_db s) of Inl e \<Rightarrow> (Inl e, s1) | Inr (a, db) \<Rightarrow> (Inr a, s1\<lparr>ss_db := db\<rparr>))"

text \<open>
  \<open>BeginTx\<close>, the body, and \<open>Commit\<close>: the body ends with \<open>TxCommit a\<close> where the code calls \<open>tx.Commit\<close>
  and returns \<open>a\<close>, and with \<open>TxRollback k\<close> where it gives the transaction up and goes on
  with \<open>k\<close> outside of it. Every other return runs the deferred \<open>Rollback\<close>. A failing \<open>Commit\<close> leaves
  the tables as they were.
\<close>

datatype ('s, 'a) tx_end = TxCommit 'a | TxRollback "('s, 'a) prog"

definition withTx ::
  "('d, 'e) sql_env_scheme \<Rightarrow> (('db, 'z) sql_state_scheme, (('db, 'z) sql_state_scheme, 'a) tx_end) prog \<Rightarrow> (('db, 'z) sql_state_scheme, 'a) prog" where
  "withTx E body s =
     (let n = ss_step s; s1 = s\<lparr>ss_step := Suc n, ss_aborted := False\<rparr>;
          rollback = (\<lambda>t. t\<lparr>ss_db := ss_db s, ss_aborted := False\<rparr>) in
      if se_fault E n then (Inl DBErr, s1)
      else case body s1 of
          (Inl e, t) \<Rightarrow> (Inl e, rollback t)
        | (Inr (TxRollback k), t) \<Rightarrow> k (rollback t)
        | (Inr (TxCommit a), t) \<Rightarrow>
            if ss_aborted t \<or> se_fault E (ss_step t) then (Inl DBErr, rollback (t\<lparr>ss_step := Suc (ss_step t)\<rparr>))
            else (Inr a, t\<lparr>ss_step := Suc (ss_step t)\<rparr>))"

lemma wp_Now [simp, wp_simps]:
  "wp (Now E) Q X s = Q (se_clock E (ss_step s)) (s\<lparr>ss_step := Suc (ss_step s)\<rparr>)"
  by (simp add: wp_def Now_def)

lemma wp_NewUUID [simp, wp_simps]:
  "wp (NewUUID E) Q X s = Q (se_uuid E (ss_step s)) (s\<lparr>ss_step := Suc (ss_step s)\<rparr>)"
  by (simp add: wp_def NewUUID_def)

lemma wp_steps [wp_intro]:
  "Q (se_clock E (ss_step s)) (s\<lparr>ss_step := Suc (ss_step s)\<rparr>) \<Longrightarrow> wp (Now E) Q X s"
  "Q' (se_uuid E (ss_step s)) (s\<lparr>ss_step := Suc (ss_step s)\<rparr>) \<Longrightarrow> wp (NewUUID E) Q' X s"
  by simp_all

lemma wp_txStmt:
  assumes "\<And>n a db t. \<not> se_fault E n \<Longrightarrow> f n (ss_db s) = Inr (a, db) \<Longrightarrow> ss_db t = db
      \<Longrightarrow> Q a t"
    and "\<And>n e t. f n (ss_db s) = Inl e \<or> e = DBErr \<Longrightarrow> ss_db t = ss_db s \<Longrightarrow> X e t"
  shows "wp (txStmt E f) Q X s"
proof (cases "ss_aborted s \<or> se_fault E (ss_step s)")
  case True
  then show ?thesis by (simp add: wp_def txStmt_def Let_def assms(2))
next
  case False
  show ?thesis
  proof (cases "f (ss_step s) (ss_db s)")
    case (Inl e)
    then show ?thesis using False by (simp add: wp_def txStmt_def Let_def assms(2) [of "ss_step s"])
  next
    case (Inr p)
    then show ?thesis using False by (cases p) (simp add: wp_def txStmt_def Let_def assms(1) [of "ss_step s"])
  qed
qed

lemma wp_poolQuery:
  assumes "\<And>n a db t. \<not> se_fault E n \<Longrightarrow> f n (ss_db s) = Inr (a, db) \<Longrightarrow> ss_db t = db
      \<Longrightarrow> Q a t"
    and "\<And>n e t. f n (ss_db s) = Inl e \<or> e = DBErr \<Longrightarrow> ss_db t = ss_db s \<Longrightarrow> X e t"
  shows "wp (poolQuery E f) Q X s"
proof (cases "se_fault E (ss_step s)")
  case True
  then show ?thesis by (simp add: wp_def poolQuery_def Let_def assms(2))
next
  case False
  show ?thesis
  proof (cases "f (ss_step s) (ss_db s)")
    case (Inl e)
    then show ?thesis using False by (simp add: wp_def poolQuery_def Let_def assms(2) [of "ss_step s"])
  next
    case (Inr p)
    then show ?thesis using False by (cases p) (simp add: wp_def poolQuery_def Let_def assms(1) [of "ss_step s"])
  qed
qed

text \<open>The first row of an ordered result, \<open>QueryRow\<close>, is one of its rows.\<close>

lemma first_row:
  "(case xs of [] \<Rightarrow> Inl e | x # _ \<Rightarrow> Inr (f x, db)) = Inr (y, db') \<Longrightarrow> db' = db \<and> (\<exists>x \<in> set xs. y = f x)"
  by (cases xs) auto

text \<open>A statement that only reads leaves everything but the step number as it is.\<close>

lemma wp_poolRead:
  assumes "\<And>a db. f (ss_step s) (ss_db s) = Inr (a, db) \<Longrightarrow> db = ss_db s"
    and "\<And>a. f (ss_step s) (ss_db s) = Inr (a, ss_db s) \<Longrightarrow> Q a (s\<lparr>ss_step := Suc (ss_step s)\<rparr>)"
    and "\<And>e. f (ss_step s) (ss_db s) = Inl e \<or> e = DBErr \<Longrightarrow> X e (s\<lparr>ss_step := Suc (ss_step s)\<rparr>)"
  shows "wp (poolQuery E f) Q X s"
  using assms by (auto simp: wp_def poolQuery_def Let_def split: sum.split)

text \<open>
  The rule for transactions: the body is followed from the current tables; what it commits has to satisfy the
  condition on the result, a body given up goes on from the tables as they were, and any error finds
  them as they were.
\<close>

definition tx_post ::
  "'db \<Rightarrow> ('a \<Rightarrow> ('db, 'z) sql_state_scheme \<Rightarrow> bool) \<Rightarrow> (go_error \<Rightarrow> ('db, 'z) sql_state_scheme \<Rightarrow> bool)
    \<Rightarrow> (('db, 'z) sql_state_scheme, 'a) tx_end \<Rightarrow> ('db, 'z) sql_state_scheme \<Rightarrow> bool" where
  "tx_post db Q X r t = (case r of
     TxCommit a \<Rightarrow> (\<forall>t'. ss_db t' = ss_db t \<longrightarrow> Q a t')
   | TxRollback k \<Rightarrow> (\<forall>t'. ss_db t' = db \<longrightarrow> wp k Q X t'))"

lemma tx_postI [wp_intro]:
  "(\<And>t'. ss_db t' = ss_db t \<Longrightarrow> Q a t') \<Longrightarrow> tx_post db Q X (TxCommit a) t"
  "(\<And>t'. ss_db t' = db \<Longrightarrow> wp k Q X t') \<Longrightarrow> tx_post db Q X (TxRollback k) t"
  by (simp_all add: tx_post_def)

lemma tx_post_mono: "tx_post db Q X r t \<Longrightarrow> (\<And>a t. Q a t \<Longrightarrow> Q' a t) \<Longrightarrow> tx_post db Q' X r t"
  by (cases r) (auto simp: tx_post_def intro: wp_conseq)

lemma wp_withTx_errors:
  assumes "\<And>s1. ss_db s1 = ss_db s \<Longrightarrow> wp body (tx_post (ss_db s) Q X) (\<lambda>e t. \<forall>t'. ss_db t' = ss_db s \<longrightarrow> X e t') s1"
    and "\<And>t. ss_db t = ss_db s \<Longrightarrow> X DBErr t"
  shows "wp (withTx E body) Q X s"
proof (cases "se_fault E (ss_step s)")
  case True
  then show ?thesis by (simp add: wp_def withTx_def Let_def assms(2))
next
  case False
  let ?s1 = "s\<lparr>ss_step := Suc (ss_step s), ss_aborted := False\<rparr>"
  obtain r t where r: "body ?s1 = (r, t)" by (cases "body ?s1")
  have b: "wp body (tx_post (ss_db s) Q X) (\<lambda>e t. \<forall>t'. ss_db t' = ss_db s \<longrightarrow> X e t') ?s1" by (rule assms(1)) simp_all
  show ?thesis
  proof (cases r)
    case (Inl e)
    then show ?thesis using False r wp_Inl [OF b] by (simp add: wp_def withTx_def Let_def)
  next
    case (Inr o')
    then have post: "tx_post (ss_db s) Q X o' t" using wp_Inr [OF b] r by simp
    show ?thesis
    proof (cases o')
      case (TxCommit a)
      then show ?thesis using False r Inr post by (simp add: wp_def withTx_def Let_def assms(2) tx_post_def)
    next
      case (TxRollback k)
      have "wp k Q X (t\<lparr>ss_db := ss_db s, ss_aborted := False\<rparr>)"
        using post TxRollback by (simp add: tx_post_def)
      then show ?thesis using False r Inr TxRollback by (simp add: wp_def withTx_def Let_def)
    qed
  qed
qed

lemma wp_withTx [wp_intro]:
  assumes "\<And>s1. ss_db s1 = ss_db s \<Longrightarrow> wp body (tx_post (ss_db s) Q X) (\<lambda>e t. True) s1"
    and "\<And>e t. ss_db t = ss_db s \<Longrightarrow> X e t"
  shows "wp (withTx E body) Q X s"
  by (rule wp_withTx_errors) (auto intro: assms(2) wp_conseq [OF assms(1)])

section \<open>Decimal columns\<close>

text \<open>
  Decimals leave the database as text (\<open>balance_available::text\<close>) and are parsed; the columns are unconstrained
  \<open>numeric\<close>, so writing is exact. Reading back is exact when parsing inverts printing.
\<close>

definition parseColumn :: "('d, 'e) sql_env_scheme \<Rightarrow> string \<Rightarrow> 'd \<Rightarrow> ('s, 'd) prog" where
  "parseColumn E what v =
     (case NewFromString (se_dec E) (DecString (se_dec E) v) of
        None \<Rightarrow> fail (Wrapf what decimal_error) | Some d \<Rightarrow> ret d)"

definition exact_text :: "'d decimal_ops \<Rightarrow> bool" where
  "exact_text D \<longleftrightarrow> (\<forall>v. NewFromString D (DecString D v) = Some v)"

lemma wp_parseColumn [simp, wp_simps]: "exact_text (se_dec E) \<Longrightarrow> wp (parseColumn E what v) Q X s = Q v s"
  by (simp add: parseColumn_def exact_text_def)

lemma exact_text_int [simp]: "exact_text int_decimal"
  by (simp add: exact_text_def parse_int_string)

end
