(* ===== verification/Ledger_DB.thy ===== *)
theory Ledger_DB
  imports Ledger_Entries Go_Database
begin

text \<open>
  The tables below \<^verbatim>\<open>services/ledger/internal/storage/postgres.go\<close> with the constraints of \<^verbatim>\<open>src/migrations\<close>, one definition per SQL
  statement of the store, and the store's state and environment, which extend those of every database client.
\<close>

section \<open>Tables and state\<close>

record account_row =
  acc_id :: uuid
  acc_user_id :: uuid
  acc_type :: string
  acc_created_at :: time

record 'd entry_row =
  er_id :: uuid
  er_ledger_account_id :: uuid
  er_entry_type :: string
  er_amount :: 'd
  er_reference_type :: string
  er_reference_id :: uuid
  er_created_at :: time

record 'd ledger_db =
  t_users :: "(uuid \<times> string) list"
  t_accounts :: "account_row list"
  t_orders :: "(uuid \<times> uuid) list"
  t_ledger_accounts :: "'d LedgerAccount list"
  t_ledger_entries :: "'d entry_row list"
  t_reservations :: "'d BalanceReservation list"
  t_processed_events :: "string list"

record CalculateFeesRequest =
  cf_AccountId :: string
  cf_Symbol :: string
  cf_Side :: string
  cf_OrderType :: string
  cf_Quantity :: string
  cf_Price :: string

record CalculateFeesResponse =
  cr_FeeAmount :: string
  cr_FeeAsset :: string

record 'd feeRateCacheEntry =
  fe_rate :: 'd
  fe_asset :: string
  fe_expires :: time

record 'd feeRateCache =
  fc_ttl :: duration
  fc_entries :: "(string \<times> 'd feeRateCacheEntry) list"

text \<open>
  The state of the store: that of the database, the fee rate cache and the calls made to the fee service.
\<close>

record 'd store_state = "'d ledger_db sql_state" +
  ss_feeCache :: "'d feeRateCache"
  ss_feeCalls :: "CalculateFeesRequest list"

text \<open>
  The environment. \<open>se_feeClient\<close> is \<open>None\<close> for a nil client, and otherwise gives the outcome of each call of the
  generated gRPC client: an error, or a response that may be nil.
\<close>

record 'd store_env = "'d sql_env" +
  se_feeClient :: "(nat \<Rightarrow> CalculateFeesRequest \<Rightarrow> go_error + CalculateFeesResponse option) option"

type_synonym ('d, 'a) store = "('d store_state, 'a) prog"

type_synonym ('d, 'a) sql = "('d ledger_db, 'a) stmt"

section \<open>SQL statements\<close>

subsection \<open>Accounts, orders and users\<close>

definition sql_order_account :: "uuid \<Rightarrow> ('d, uuid) sql" where
  "sql_order_account orderID n db =
     (case map_of (t_orders db) orderID of None \<Rightarrow> Inl NoRows | Some a \<Rightarrow> Inr (a, db))"

definition sql_account_by_type :: "string \<Rightarrow> ('d, uuid) sql" where
  "sql_account_by_type ty n db =
     (case sort_key acc_created_at (filter (\<lambda>a. acc_type a = ty) (t_accounts db)) of
        [] \<Rightarrow> Inl NoRows | a # _ \<Rightarrow> Inr (acc_id a, db))"

definition sql_user_by_email :: "string \<Rightarrow> ('d, uuid) sql" where
  "sql_user_by_email email n db =
     (case find (\<lambda>u. snd u = email) (t_users db) of None \<Rightarrow> Inl NoRows | Some u \<Rightarrow> Inr (fst u, db))"

definition sql_insert_user :: "'d store_env \<Rightarrow> string \<Rightarrow> ('d, uuid) sql" where
  "sql_insert_user E email n db =
     (let rid = se_uuid E n in
      if rid \<in> set (map fst (t_users db)) \<or> email \<in> set (map snd (t_users db)) then Inl (se_uniqueErr E)
      else Inr (rid, db\<lparr>t_users := t_users db @ [(rid, email)]\<rparr>))"

definition sql_insert_account :: "'d store_env \<Rightarrow> uuid \<Rightarrow> string \<Rightarrow> ('d, uuid) sql" where
  "sql_insert_account E userID ty n db =
     (let rid = se_uuid E n in
      if rid \<in> set (map acc_id (t_accounts db)) then Inl (se_uniqueErr E)
      else if userID \<notin> set (map fst (t_users db)) then Inl DBErr
      else Inr (rid, db\<lparr>t_accounts := t_accounts db @
             [\<lparr>acc_id = rid, acc_user_id = userID, acc_type = ty, acc_created_at = se_clock E n\<rparr>]\<rparr>))"

subsection \<open>Ledger accounts\<close>

definition sql_ledger_account :: "uuid \<Rightarrow> string \<Rightarrow> ('d, 'd LedgerAccount) sql" where
  "sql_ledger_account accountID asset n db =
     (case find (\<lambda>r. la_AccountID r = accountID \<and> la_Asset r = asset) (t_ledger_accounts db) of
        None \<Rightarrow> Inl NoRows | Some r \<Rightarrow> Inr (r, db))"

definition sql_insert_ledger_account :: "'d::linordered_idom store_env \<Rightarrow> uuid \<Rightarrow> string \<Rightarrow> ('d, unit) sql" where
  "sql_insert_ledger_account E accountID asset n db =
     (let rid = se_uuid E n; rows = t_ledger_accounts db in
      if list_ex (\<lambda>r. la_AccountID r = accountID \<and> la_Asset r = asset) rows then Inr ((), db)
      else if rid \<in> set (map la_ID rows) then Inl (se_uniqueErr E)
      else if accountID \<notin> set (map acc_id (t_accounts db)) then Inl DBErr
      else Inr ((), db\<lparr>t_ledger_accounts := rows @
             [\<lparr>la_ID = rid, la_AccountID = accountID, la_Asset = asset, la_BalanceAvailable = 0,
               la_BalanceLocked = 0, la_UpdatedAt = se_clock E n\<rparr>]\<rparr>))"

definition setBalances :: "'d \<Rightarrow> 'd \<Rightarrow> time \<Rightarrow> uuid \<Rightarrow> 'd LedgerAccount \<Rightarrow> 'd LedgerAccount" where
  "setBalances available locked now rid r =
     (if la_ID r = rid then r\<lparr>la_BalanceAvailable := available, la_BalanceLocked := locked, la_UpdatedAt := now\<rparr> else r)"

definition sql_update_balances :: "'d \<Rightarrow> 'd \<Rightarrow> time \<Rightarrow> uuid \<Rightarrow> ('d, unit) sql" where
  "sql_update_balances available locked now rid n db =
     Inr ((), db\<lparr>t_ledger_accounts := map (setBalances available locked now rid) (t_ledger_accounts db)\<rparr>)"

definition sql_balances_in :: "(uuid \<times> string) list \<Rightarrow> ('d, 'd LedgerAccount list) sql" where
  "sql_balances_in keys n db =
     Inr (filter (\<lambda>r. (la_AccountID r, la_Asset r) \<in> set keys) (t_ledger_accounts db), db)"

subsection \<open>Ledger entries and processed events\<close>

definition sql_entry_exists :: "string \<Rightarrow> uuid \<Rightarrow> ('d, bool) sql" where
  "sql_entry_exists refType refID n db =
     Inr (list_ex (\<lambda>e. er_reference_type e = refType \<and> er_reference_id e = refID) (t_ledger_entries db), db)"

definition sql_insert_entry :: "'d::linordered_idom store_env \<Rightarrow> uuid \<Rightarrow> uuid \<Rightarrow> string \<Rightarrow> 'd \<Rightarrow> string \<Rightarrow> uuid \<Rightarrow> ('d, unit) sql" where
  "sql_insert_entry E rid ledgerAccountID entryType amount refType refID n db =
     (let rows = t_ledger_entries db in
      if \<not> (0 < amount \<and> (entryType = ''debit'' \<or> entryType = ''credit'')) then Inl DBErr
      else if list_ex (\<lambda>e. er_id e = rid \<or>
              (er_reference_type e = refType \<and> er_reference_id e = refID \<and> er_ledger_account_id e = ledgerAccountID)) rows
      then Inl (se_uniqueErr E)
      else if ledgerAccountID \<notin> set (map la_ID (t_ledger_accounts db)) then Inl DBErr
      else Inr ((), db\<lparr>t_ledger_entries := rows @
             [\<lparr>er_id = rid, er_ledger_account_id = ledgerAccountID, er_entry_type = entryType, er_amount = amount,
               er_reference_type = refType, er_reference_id = refID, er_created_at = se_clock E n\<rparr>]\<rparr>))"

definition joinEntry :: "'d LedgerAccount list \<Rightarrow> 'd entry_row \<Rightarrow> 'd LedgerEntry list" where
  "joinEntry accts e =
     map (\<lambda>a. \<lparr>le_ID = er_id e, le_LedgerAccountID = er_ledger_account_id e, le_AccountID = la_AccountID a,
               le_Asset = la_Asset a, le_EntryType = er_entry_type e, le_Amount = er_amount e,
               le_ReferenceType = er_reference_type e, le_ReferenceID = er_reference_id e, le_CreatedAt = er_created_at e\<rparr>)
       (filter (\<lambda>a. la_ID a = er_ledger_account_id e) accts)"

definition sql_entries_by_reference :: "string \<Rightarrow> uuid \<Rightarrow> ('d, 'd LedgerEntry list) sql" where
  "sql_entries_by_reference refType refID n db =
     Inr (sort_key le_CreatedAt (concat (map (joinEntry (t_ledger_accounts db))
            (filter (\<lambda>e. er_reference_type e = refType \<and> er_reference_id e = refID) (t_ledger_entries db)))), db)"

definition sql_event_exists :: "string list \<Rightarrow> ('d, bool) sql" where
  "sql_event_exists keys n db = Inr (list_ex (\<lambda>k. List.member (t_processed_events db) k) keys, db)"

text \<open>\<open>ON CONFLICT DO NOTHING\<close>: only new keys are inserted; the result is the number of rows affected.\<close>

definition sql_insert_events :: "string list \<Rightarrow> ('d, nat) sql" where
  "sql_insert_events keys n db =
     (let new = filter (\<lambda>k. \<not> List.member (t_processed_events db) k) keys in
      Inr (length new, db\<lparr>t_processed_events := t_processed_events db @ new\<rparr>))"

subsection \<open>Reservations\<close>

definition sql_reservation :: "uuid \<Rightarrow> ('d, 'd BalanceReservation) sql" where
  "sql_reservation orderID n db =
     (case find (\<lambda>r. br_OrderID r = orderID) (t_reservations db) of None \<Rightarrow> Inl NoRows | Some r \<Rightarrow> Inr (r, db))"

definition valid_status :: "string \<Rightarrow> bool" where
  "valid_status st \<longleftrightarrow> st = ''active'' \<or> st = ''released'' \<or> st = ''consumed''"

definition sql_insert_reservation ::
  "'d::linordered_idom store_env \<Rightarrow> uuid \<Rightarrow> uuid \<Rightarrow> uuid \<Rightarrow> string \<Rightarrow> 'd \<Rightarrow> time \<Rightarrow> ('d, unit) sql" where
  "sql_insert_reservation E rid orderID accountID asset amount now n db =
     (let rows = t_reservations db in
      if \<not> 0 < amount then Inl DBErr
      else if list_ex (\<lambda>r. br_ID r = rid \<or> br_OrderID r = orderID) rows then Inl (se_uniqueErr E)
      else if accountID \<notin> set (map acc_id (t_accounts db)) then Inl DBErr
      else Inr ((), db\<lparr>t_reservations := rows @
             [\<lparr>br_ID = rid, br_OrderID = orderID, br_AccountID = accountID, br_Asset = asset, br_Amount = amount,
               br_ConsumedAmount = 0, br_Status = ''active'', br_CreatedAt = now, br_UpdatedAt = now\<rparr>]\<rparr>))"

definition setReservation :: "'d \<Rightarrow> string \<Rightarrow> time \<Rightarrow> uuid \<Rightarrow> 'd BalanceReservation \<Rightarrow> 'd BalanceReservation" where
  "setReservation consumed status now rid r =
     (if br_ID r = rid then r\<lparr>br_ConsumedAmount := consumed, br_Status := status, br_UpdatedAt := now\<rparr> else r)"

definition sql_update_reservation :: "'d::linordered_idom \<Rightarrow> string \<Rightarrow> time \<Rightarrow> uuid \<Rightarrow> ('d, unit) sql" where
  "sql_update_reservation consumed status now rid n db =
     (if list_ex (\<lambda>r. br_ID r = rid \<and> \<not> (0 \<le> consumed \<and> consumed \<le> br_Amount r \<and> valid_status status)) (t_reservations db)
      then Inl DBErr
      else Inr ((), db\<lparr>t_reservations := map (setReservation consumed status now rid) (t_reservations db)\<rparr>))"

text \<open>\<open>SELECT pg_advisory_xact_lock(...)\<close>: transactions are serial here, so the lock only can fail.\<close>

definition sql_lock :: "('d, unit) sql" where
  "sql_lock n db = Inr ((), db)"

end
