(* ===== verification/Ledger_Reservations.thy ===== *)
theory Ledger_Reservations
  imports Ledger_DB
begin

text \<open>
  Balances and reservations, from \<^verbatim>\<open>services/ledger/internal/storage/postgres.go\<close>: reading balances, entries and
  orders, reserving funds for an order, releasing what is left of a reservation and, for settlements, how much
  of a debit a reservation covers. The lemmas give the effect of each operation on the balances as
  \<open>GetBalance\<close> reports them, and that every operation keeps the tables consistent; an error
  leaves them untouched.
\<close>

section \<open>Operations\<close>

definition ErrOrderNotFound :: go_error where
  "ErrOrderNotFound = Sentinel ''order not found''"

definition ErrInsufficientBalance :: go_error where
  "ErrInsufficientBalance = Sentinel ''insufficient balance''"

definition ErrReservationNotFound :: go_error where
  "ErrReservationNotFound = Sentinel ''reservation not found''"

definition ErrReservationClosed :: go_error where
  "ErrReservationClosed = Sentinel ''reservation closed''"

definition isUniqueViolation :: "go_error \<Rightarrow> bool" where
  "isUniqueViolation err = errors_Is err UniqueViolation"

definition scanAccount :: "'d store_env \<Rightarrow> 'd LedgerAccount \<Rightarrow> ('d, 'd LedgerAccount) store" where
  "scanAccount E row =
     bindM (parseColumn E ''parse available balance: %w'' (la_BalanceAvailable row)) (\<lambda>available.
     bindM (parseColumn E ''parse locked balance: %w'' (la_BalanceLocked row)) (\<lambda>locked.
     ret (row\<lparr>la_BalanceAvailable := available, la_BalanceLocked := locked\<rparr>)))"

definition scanReservation :: "'d store_env \<Rightarrow> 'd BalanceReservation \<Rightarrow> ('d, 'd BalanceReservation) store" where
  "scanReservation E row =
     bindM (parseColumn E ''parse reservation amount: %w'' (br_Amount row)) (\<lambda>amount.
     bindM (parseColumn E ''parse reservation consumed amount: %w'' (br_ConsumedAmount row)) (\<lambda>consumed.
     ret (row\<lparr>br_Amount := amount, br_ConsumedAmount := consumed\<rparr>)))"

definition GetBalance :: "'d::linordered_idom store_env \<Rightarrow> uuid \<Rightarrow> string \<Rightarrow> ('d, 'd LedgerAccount) store" where
  "GetBalance E accountID asset =
     attempt (poolQuery E (sql_ledger_account accountID asset))
       (\<lambda>err.
         if errors_Is err NoRows then
           ret \<lparr>la_ID = uuid_Nil, la_AccountID = accountID, la_Asset = asset, la_BalanceAvailable = 0,
                la_BalanceLocked = 0, la_UpdatedAt = 0\<rparr>
         else fail err)
       (scanAccount E)"

definition getLedgerAccountForUpdate :: "'d::linordered_idom store_env \<Rightarrow> uuid \<Rightarrow> string \<Rightarrow> ('d, 'd LedgerAccount) store" where
  "getLedgerAccountForUpdate E accountID asset =
     bindM (txStmt E (sql_ledger_account accountID asset)) (scanAccount E)"

definition getOrCreateLedgerAccountForUpdate ::
  "'d::linordered_idom store_env \<Rightarrow> uuid \<Rightarrow> string \<Rightarrow> ('d, 'd LedgerAccount) store" where
  "getOrCreateLedgerAccountForUpdate E accountID asset =
     attempt (getLedgerAccountForUpdate E accountID asset)
       (\<lambda>err.
         if \<not> errors_Is err NoRows then fail err
         else bindM (txStmt E (sql_insert_ledger_account E accountID asset)) (\<lambda>_.
              getLedgerAccountForUpdate E accountID asset))
       ret"

definition getReservationForUpdate :: "'d::linordered_idom store_env \<Rightarrow> uuid \<Rightarrow> ('d, 'd BalanceReservation) store" where
  "getReservationForUpdate E orderID = bindM (txStmt E (sql_reservation orderID)) (scanReservation E)"

definition getReservation :: "'d::linordered_idom store_env \<Rightarrow> uuid \<Rightarrow> ('d, 'd BalanceReservation) store" where
  "getReservation E orderID = bindM (poolQuery E (sql_reservation orderID)) (scanReservation E)"

definition updateReservation ::
  "'d::linordered_idom store_env \<Rightarrow> 'd BalanceReservation \<Rightarrow> 'd \<Rightarrow> string \<Rightarrow> ('d, unit) store" where
  "updateReservation E reservation consumed status =
     bindM (Now E) (\<lambda>now. txStmt E (sql_update_reservation consumed status now (br_ID reservation)))"

definition ReserveBalance ::
  "'d::linordered_idom store_env \<Rightarrow> uuid \<Rightarrow> uuid \<Rightarrow> string \<Rightarrow> 'd \<Rightarrow> ('d, 'd BalanceReservation) store" where
  "ReserveBalance E accountID orderID rawAsset amount =
     (let asset = ToUpper (TrimSpace rawAsset) in
      if asset = [] then fail (Errorf ''asset is required'' [])
      else if amount \<le> 0 then fail (Errorf ''amount must be positive'' [])
      else if orderID = uuid_Nil then fail (Errorf ''order_id is required'' [])
      else withTx E (
        bindM (txStmt E sql_lock) (\<lambda>_.
        attempt (getReservationForUpdate E orderID)
          (\<lambda>err.
            if \<not> errors_Is err NoRows then fail err
            else
              bindM (getOrCreateLedgerAccountForUpdate E accountID asset) (\<lambda>acct.
              if la_BalanceAvailable acct < amount then fail ErrInsufficientBalance
              else
                bindM (Now E) (\<lambda>now.
                bindM (txStmt E (sql_update_balances (la_BalanceAvailable acct - amount)
                                   (la_BalanceLocked acct + amount) now (la_ID acct))) (\<lambda>_.
                bindM (NewUUID E) (\<lambda>reservationID.
                attempt (txStmt E (sql_insert_reservation E reservationID orderID accountID asset amount now))
                  (\<lambda>err. if isUniqueViolation err then ret (TxRollback (getReservation E orderID)) else fail err)
                  (\<lambda>_. ret (TxCommit \<lparr>br_ID = reservationID, br_OrderID = orderID, br_AccountID = accountID,
                      br_Asset = asset, br_Amount = amount, br_ConsumedAmount = 0, br_Status = ''active'',
                      br_CreatedAt = now, br_UpdatedAt = now\<rparr>)))))))
          (\<lambda>existing.
            if br_Status existing \<noteq> ''active'' then fail ErrReservationClosed
            else if br_AccountID existing \<noteq> accountID \<or> ToUpper (br_Asset existing) \<noteq> asset
            then fail (Errorf ''reservation mismatch'' [])
            else ret (TxCommit existing)))))"

definition ReleaseReservation ::
  "'d::linordered_idom store_env \<Rightarrow> uuid \<Rightarrow> ('d, 'd BalanceReservation \<times> 'd) store" where
  "ReleaseReservation E orderID =
     (if orderID = uuid_Nil then fail (Errorf ''order_id is required'' [])
      else withTx E (
        attempt (getReservationForUpdate E orderID)
          (\<lambda>err. if errors_Is err NoRows then fail ErrReservationNotFound else fail err)
          (\<lambda>reservation.
            let remaining = br_Amount reservation - br_ConsumedAmount reservation in
             if remaining \<le> 0 then
               bindM (if br_Status reservation \<noteq> ''consumed''
                      then updateReservation E reservation (br_ConsumedAmount reservation) ''consumed''
                      else ret ()) (\<lambda>_.
               ret (TxCommit (reservation, 0)))
             else
               bindM (getOrCreateLedgerAccountForUpdate E (br_AccountID reservation) (br_Asset reservation)) (\<lambda>acct.
               let releaseAmount = (if la_BalanceLocked acct < remaining then la_BalanceLocked acct else remaining) in
               bindM (Now E) (\<lambda>now.
               bindM (txStmt E (sql_update_balances (la_BalanceAvailable acct + releaseAmount)
                                  (la_BalanceLocked acct - releaseAmount) now (la_ID acct))) (\<lambda>_.
               let consumed = br_Amount reservation - releaseAmount;
                   status = (if br_Amount reservation \<le> consumed then ''consumed'' else ''released'') in
               bindM (updateReservation E reservation consumed status) (\<lambda>_.
               ret (TxCommit (reservation\<lparr>br_ConsumedAmount := consumed, br_Status := status, br_UpdatedAt := now\<rparr>,
                              releaseAmount)))))))))"

definition GetOrderAccountID :: "'d store_env \<Rightarrow> uuid \<Rightarrow> ('d, uuid) store" where
  "GetOrderAccountID E orderID =
     attempt (poolQuery E (sql_order_account orderID))
       (\<lambda>err. if errors_Is err NoRows then fail (Wrapf ''%w: %s'' ErrOrderNotFound) else fail err)
       ret"

definition reservationCover :: "'d::linordered_idom store_env \<Rightarrow> uuid \<Rightarrow> string \<Rightarrow> 'd \<Rightarrow> ('d, 'd) store" where
  "reservationCover E orderID asset desired =
     (if orderID = uuid_Nil \<or> desired \<le> 0 then ret 0
      else attempt (getReservationForUpdate E orderID)
        (\<lambda>err. if errors_Is err NoRows then ret 0 else fail err)
        (\<lambda>reservation.
          if br_Status reservation \<noteq> ''active'' then ret 0
          else if ToUpper (br_Asset reservation) \<noteq> ToUpper (TrimSpace asset)
          then fail (Errorf ''reservation asset mismatch'' [])
          else
            (let remaining = br_Amount reservation - br_ConsumedAmount reservation in
             if remaining \<le> 0 then ret 0 else if desired > remaining then ret remaining else ret desired)))"

definition consumeReservation :: "'d::linordered_idom store_env \<Rightarrow> uuid \<Rightarrow> string \<Rightarrow> 'd \<Rightarrow> ('d, unit) store" where
  "consumeReservation E orderID rawAsset amount =
     (if orderID = uuid_Nil then ret ()
      else if amount \<le> 0 then ret ()
      else
        (let asset = ToUpper (TrimSpace rawAsset) in
         if asset = [] then ret ()
         else attempt (getReservationForUpdate E orderID)
           (\<lambda>err. if errors_Is err NoRows then ret () else fail err)
           (\<lambda>reservation.
             if ToUpper (br_Asset reservation) \<noteq> asset then fail (Errorf ''reservation asset mismatch'' [])
             else if br_Status reservation \<noteq> ''active'' then ret ()
             else
               (let remaining = br_Amount reservation - br_ConsumedAmount reservation in
                if remaining \<le> 0 then ret ()
                else
                  (let consume = (if amount > remaining then remaining else amount) in
                   if consume \<le> 0 then ret ()
                   else
                     (let newConsumed = br_ConsumedAmount reservation + consume;
                          status = (if br_Amount reservation \<le> newConsumed then ''consumed'' else br_Status reservation) in
                      updateReservation E reservation newConsumed status))))))"

definition referenceTypeTrade :: string where
  "referenceTypeTrade = ''trade''"

definition CheckDuplicateSettlement :: "'d store_env \<Rightarrow> uuid \<Rightarrow> ('d, bool) store" where
  "CheckDuplicateSettlement E tradeID = txStmt E (sql_entry_exists referenceTypeTrade tradeID)"

definition scanEntry :: "'d store_env \<Rightarrow> 'd LedgerEntry list \<Rightarrow> 'd LedgerEntry \<Rightarrow> ('d, 'd LedgerEntry list) store" where
  "scanEntry E entries row =
     bindM (parseColumn E ''parse entry amount: %w'' (le_Amount row)) (\<lambda>amt. ret (entries @ [row\<lparr>le_Amount := amt\<rparr>]))"

definition GetEntriesByReference :: "'d store_env \<Rightarrow> uuid \<Rightarrow> ('d, 'd LedgerEntry list) store" where
  "GetEntriesByReference E referenceID =
     bindM (poolQuery E (sql_entries_by_reference referenceTypeTrade referenceID)) (\<lambda>rows. foldM (scanEntry E) rows [])"

definition scanBalance :: "'d store_env \<Rightarrow> 'd LedgerAccount list \<Rightarrow> 'd LedgerAccount \<Rightarrow> ('d, 'd LedgerAccount list) store" where
  "scanBalance E balances row = bindM (scanAccount E row) (\<lambda>acct. ret (balances @ [acct]))"

definition GetBalancesByAccountAssets :: "'d store_env \<Rightarrow> 'd LedgerAccount list \<Rightarrow> ('d, 'd LedgerAccount list) store" where
  "GetBalancesByAccountAssets E assets =
     (if assets = [] then ret []
      else bindM (poolQuery E (sql_balances_in (map (\<lambda>a. (la_AccountID a, la_Asset a)) assets))) (\<lambda>rows.
           foldM (scanBalance E) rows []))"

section \<open>Consistent tables\<close>

definition accounts_ok :: "'d::linordered_idom LedgerAccount list \<Rightarrow> bool" where
  "accounts_ok rows \<longleftrightarrow>
     distinct (map la_ID rows) \<and> distinct (map (\<lambda>r. (la_AccountID r, la_Asset r)) rows) \<and> list_all acct_nonneg rows"

definition reservation_ok :: "'d::linordered_idom BalanceReservation \<Rightarrow> bool" where
  "reservation_ok r \<longleftrightarrow> 0 < br_Amount r \<and> 0 \<le> br_ConsumedAmount r \<and> br_ConsumedAmount r \<le> br_Amount r \<and> valid_status (br_Status r)"

definition reservations_ok :: "'d::linordered_idom BalanceReservation list \<Rightarrow> bool" where
  "reservations_ok rows \<longleftrightarrow>
     distinct (map br_ID rows) \<and> distinct (map br_OrderID rows) \<and> list_all reservation_ok rows"

definition entries_ok :: "'d::linordered_idom ledger_db \<Rightarrow> bool" where
  "entries_ok db \<longleftrightarrow>
     distinct (map er_id (t_ledger_entries db)) \<and>
     distinct (map (\<lambda>e. (er_reference_type e, er_reference_id e, er_ledger_account_id e)) (t_ledger_entries db)) \<and>
     list_all (\<lambda>e. 0 < er_amount e \<and> er_ledger_account_id e \<in> set (map la_ID (t_ledger_accounts db))) (t_ledger_entries db)"

definition ledger_inv :: "'d::linordered_idom ledger_db \<Rightarrow> bool" where
  "ledger_inv db \<longleftrightarrow> accounts_ok (t_ledger_accounts db) \<and> reservations_ok (t_reservations db) \<and> entries_ok db"

text \<open>The balances of an account in an asset as \<open>GetBalance\<close> sees them: available and locked.\<close>

definition ledger_row :: "'d LedgerAccount list \<Rightarrow> uuid \<Rightarrow> string \<Rightarrow> 'd LedgerAccount option" where
  "ledger_row rows u a = find (\<lambda>r. la_AccountID r = u \<and> la_Asset r = a) rows"

definition balance_of :: "'d::linordered_idom ledger_db \<Rightarrow> uuid \<Rightarrow> string \<Rightarrow> 'd \<times> 'd" where
  "balance_of db u a = (case ledger_row (t_ledger_accounts db) u a of
     None \<Rightarrow> (0, 0) | Some r \<Rightarrow> (la_BalanceAvailable r, la_BalanceLocked r))"

text \<open>Sums of balances over the rows selected by account and upper-case asset.\<close>

definition rows_sum :: "(uuid \<Rightarrow> string \<Rightarrow> bool) \<Rightarrow> 'd::linordered_idom LedgerAccount list \<Rightarrow> 'd" where
  "rows_sum P rows = sum_list (map (\<lambda>r. if P (la_AccountID r) (ToUpper (la_Asset r)) then acct_total r else 0) rows)"

lemma rows_sum_simps [simp]:
  "rows_sum P [] = 0"
  "rows_sum P (r # rs) = (if P (la_AccountID r) (ToUpper (la_Asset r)) then acct_total r else 0) + rows_sum P rs"
  "rows_sum P (xs @ ys) = rows_sum P xs + rows_sum P ys"
  by (simp_all add: rows_sum_def)

subsection \<open>Rows of an account and asset\<close>

lemma ledger_row_SomeD:
  "ledger_row rows u a = Some r \<Longrightarrow> r \<in> set rows \<and> la_AccountID r = u \<and> la_Asset r = a"
  by (auto simp: ledger_row_def find_Some_iff)

lemma ledger_row_NoneD: "ledger_row rows u a = None \<Longrightarrow> r \<in> set rows \<Longrightarrow> \<not> (la_AccountID r = u \<and> la_Asset r = a)"
  by (auto simp: ledger_row_def find_None_iff)

lemma ledger_row_unique:
  assumes "distinct (map (\<lambda>r. (la_AccountID r, la_Asset r)) rows)" and "r \<in> set rows"
  shows "ledger_row rows (la_AccountID r) (la_Asset r) = Some r"
proof (cases "ledger_row rows (la_AccountID r) (la_Asset r)")
  case None
  with assms(2) show ?thesis using ledger_row_NoneD by blast
next
  case (Some r')
  with ledger_row_SomeD [OF Some] assms show ?thesis by (auto simp: distinct_map inj_on_def)
qed

lemma ledger_row_append:
  "ledger_row (xs @ [r]) u a =
     (case ledger_row xs u a of None \<Rightarrow> if la_AccountID r = u \<and> la_Asset r = a then Some r else None | Some x \<Rightarrow> Some x)"
  by (induction xs) (auto simp: ledger_row_def)

lemma setBalances_simps [simp]:
  "la_ID (setBalances av lk now rid r) = la_ID r"
  "la_AccountID (setBalances av lk now rid r) = la_AccountID r"
  "la_Asset (setBalances av lk now rid r) = la_Asset r"
  by (simp_all add: setBalances_def)

lemma ledger_row_setBalances:
  "ledger_row (map (setBalances av lk now rid) rows) u a = map_option (setBalances av lk now rid) (ledger_row rows u a)"
  by (induction rows) (auto simp: ledger_row_def)

text \<open>Opening an account with zero balances; nothing else changes.\<close>

definition empty_row :: "'d::linordered_idom LedgerAccount \<Rightarrow> bool" where
  "empty_row r \<longleftrightarrow> la_BalanceAvailable r = 0 \<and> la_BalanceLocked r = 0"

definition opens :: "'d::linordered_idom ledger_db \<Rightarrow> 'd ledger_db \<Rightarrow> bool" where
  "opens db db' \<longleftrightarrow>
     (\<exists>new. db' = db\<lparr>t_ledger_accounts := t_ledger_accounts db @ new\<rparr> \<and> list_all empty_row new \<and>
            (accounts_ok (t_ledger_accounts db) \<longrightarrow> accounts_ok (t_ledger_accounts db')))"

lemma opens_refl [simp, intro]: "opens db db"
  by (auto simp: opens_def intro: exI [of _ "[]"])

lemma opens_trans: "opens a b \<Longrightarrow> opens b c \<Longrightarrow> opens a c"
  unfolding opens_def by (elim exE, rule_tac x = "new @ newa" in exI) auto

lemma rows_sum_empty: "list_all empty_row rows \<Longrightarrow> rows_sum P rows = 0"
  by (induction rows) (auto simp: empty_row_def acct_total_def)

lemma opens_rows_sum: "opens db db' \<Longrightarrow> rows_sum P (t_ledger_accounts db') = rows_sum P (t_ledger_accounts db)"
  by (auto simp: opens_def rows_sum_empty)

lemma opens_accounts_ok: "opens db db' \<Longrightarrow> accounts_ok (t_ledger_accounts db) \<Longrightarrow> accounts_ok (t_ledger_accounts db')"
  by (auto simp: opens_def)

lemma opens_entries_ok: "opens db db' \<Longrightarrow> entries_ok db \<Longrightarrow> entries_ok db'"
  by (auto simp: opens_def entries_ok_def list_all_iff image_Un)

lemma opens_fields:
  assumes "opens db db'"
  shows "t_reservations db' = t_reservations db" "t_ledger_entries db' = t_ledger_entries db"
    "t_processed_events db' = t_processed_events db" "t_accounts db' = t_accounts db" "t_orders db' = t_orders db"
    "t_users db' = t_users db"
  using assms by (auto simp: opens_def)

lemma opens_inv: "opens db db' \<Longrightarrow> ledger_inv db \<Longrightarrow> ledger_inv db'"
  by (auto simp: ledger_inv_def opens_accounts_ok opens_entries_ok opens_fields)

lemma opens_balance_of:
  assumes "opens db db'"
  shows "balance_of db' u a = balance_of db u a"
proof -
  obtain new where new: "db' = db\<lparr>t_ledger_accounts := t_ledger_accounts db @ new\<rparr>" "list_all empty_row new"
    using assms by (auto simp: opens_def)
  have "list_all empty_row new \<Longrightarrow>
    (case ledger_row (rows @ new) u a of None \<Rightarrow> (0, 0) | Some r \<Rightarrow> (la_BalanceAvailable r, la_BalanceLocked r))
    = (case ledger_row rows u a of None \<Rightarrow> (0, 0) | Some r \<Rightarrow> (la_BalanceAvailable r, la_BalanceLocked r))" for rows
  proof (induction new arbitrary: rows)
    case (Cons r new)
    then show ?case using Cons.IH [of "rows @ [r]"]
      by (auto simp: ledger_row_append empty_row_def split: option.splits)
  qed simp
  with new show ?thesis by (simp add: balance_of_def)
qed

lemma opens_insert:
  assumes "\<not> list_ex (\<lambda>r. la_AccountID r = u \<and> la_Asset r = a) (t_ledger_accounts db)"
    and "rid \<notin> set (map la_ID (t_ledger_accounts db))"
  shows "opens db (db\<lparr>t_ledger_accounts := t_ledger_accounts db @
     [\<lparr>la_ID = rid, la_AccountID = u, la_Asset = a, la_BalanceAvailable = 0, la_BalanceLocked = 0, la_UpdatedAt = n\<rparr>]\<rparr>)"
  using assms
  by (auto simp: opens_def accounts_ok_def acct_nonneg_def empty_row_def list_ex_iff)

text \<open>Writing back the balances of one row.\<close>

lemma rows_sum_setBalances:
  assumes "distinct (map la_ID rows)" and "r \<in> set rows"
  shows "rows_sum P (map (setBalances av lk now (la_ID r)) rows) =
     rows_sum P rows + (if P (la_AccountID r) (ToUpper (la_Asset r)) then av + lk - acct_total r else 0)"
  using assms
proof (induction rows)
  case (Cons x rows)
  show ?case
  proof (cases "x = r")
    case True
    then have "la_ID x' \<noteq> la_ID r" if "x' \<in> set rows" for x'
      using Cons.prems(1) that by (metis distinct.simps(2) image_eqI list.map(2) list.set_map)
    then have "map (setBalances av lk now (la_ID r)) rows = rows"
      by (intro map_idI) (simp add: setBalances_def)
    moreover have "acct_total (setBalances av lk now (la_ID r) r) = av + lk"
      by (simp add: setBalances_def acct_total_def)
    ultimately show ?thesis using True by simp
  next
    case False
    then have "setBalances av lk now (la_ID r) x = x" using Cons.prems by (auto simp: setBalances_def)
    then show ?thesis using Cons False by (simp add: algebra_simps)
  qed
qed simp

lemma accounts_ok_setBalances:
  assumes "accounts_ok rows" and "0 \<le> av" and "0 \<le> lk"
  shows "accounts_ok (map (setBalances av lk now rid) rows)"
proof -
  have "acct_nonneg (setBalances av lk now rid r)" if "acct_nonneg r" for r :: "'a LedgerAccount"
    using that assms(2,3) by (simp add: setBalances_def acct_nonneg_def)
  then show ?thesis using assms(1) by (auto simp: accounts_ok_def comp_def list_all_iff)
qed

definition writes_balances :: "'d \<Rightarrow> 'd \<Rightarrow> time \<Rightarrow> uuid \<Rightarrow> 'd ledger_db \<Rightarrow> 'd ledger_db" where
  "writes_balances av lk now rid db = db\<lparr>t_ledger_accounts := map (setBalances av lk now rid) (t_ledger_accounts db)\<rparr>"

lemma sql_update_balances_eq: "sql_update_balances av lk now rid n db = Inr ((), writes_balances av lk now rid db)"
  by (simp add: sql_update_balances_def writes_balances_def)

lemma writes_balances_fields [simp]:
  "t_reservations (writes_balances av lk now rid db) = t_reservations db"
  "t_ledger_entries (writes_balances av lk now rid db) = t_ledger_entries db"
  "t_processed_events (writes_balances av lk now rid db) = t_processed_events db"
  "t_accounts (writes_balances av lk now rid db) = t_accounts db"
  "t_ledger_accounts (writes_balances av lk now rid db) = map (setBalances av lk now rid) (t_ledger_accounts db)"
  by (simp_all add: writes_balances_def)

lemma ledger_inv_writes_balances:
  "ledger_inv db \<Longrightarrow> 0 \<le> av \<Longrightarrow> 0 \<le> lk \<Longrightarrow> ledger_inv (writes_balances av lk now rid db)"
  by (auto simp: ledger_inv_def accounts_ok_setBalances entries_ok_def comp_def)

lemma balance_of_writes_balances:
  assumes "accounts_ok (t_ledger_accounts db)" and "r \<in> set (t_ledger_accounts db)"
  shows "balance_of (writes_balances av lk now (la_ID r) db) u a =
     (if u = la_AccountID r \<and> a = la_Asset r then (av, lk) else balance_of db u a)"
proof -
  have "ledger_row (t_ledger_accounts db) (la_AccountID r) (la_Asset r) = Some r"
    using assms by (intro ledger_row_unique) (auto simp: accounts_ok_def)
  moreover have "la_ID x = la_ID r \<Longrightarrow> x = r" if "x \<in> set (t_ledger_accounts db)" for x
    using assms that by (auto simp: accounts_ok_def distinct_map inj_on_def)
  ultimately show ?thesis
    by (auto simp: balance_of_def ledger_row_setBalances setBalances_def split: option.splits dest: ledger_row_SomeD)
qed

lemma balance_of_member:
  "accounts_ok (t_ledger_accounts db) \<Longrightarrow> r \<in> set (t_ledger_accounts db) \<Longrightarrow>
   balance_of db (la_AccountID r) (la_Asset r) = (la_BalanceAvailable r, la_BalanceLocked r)"
  using ledger_row_unique [of "t_ledger_accounts db" r] by (auto simp: accounts_ok_def balance_of_def)

section \<open>What the helpers do\<close>

lemma wp_scanAccount [simp, wp_simps]: "exact_text (se_dec E) \<Longrightarrow> wp (scanAccount E row) Q X s = Q row s"
  by (simp add: scanAccount_def)

lemma wp_scanReservation [simp, wp_simps]: "exact_text (se_dec E) \<Longrightarrow> wp (scanReservation E row) Q X s = Q row s"
  by (simp add: scanReservation_def)

text \<open>
  The rules below say what a helper can return and how the tables look then; every one of them assumes
  that decimals read back as they were written.
\<close>

lemma wp_getLedgerAccountForUpdate:
  assumes "exact_text (se_dec E)"
    and "\<And>acct t. acct \<in> set (t_ledger_accounts (ss_db s)) \<Longrightarrow> la_AccountID acct = u \<Longrightarrow> la_Asset acct = a
      \<Longrightarrow> ss_db t = ss_db s \<Longrightarrow> Q acct t"
    and "\<And>e t. ss_db t = ss_db s \<Longrightarrow> X e t"
  shows "wp (getLedgerAccountForUpdate E u a) Q X s"
  unfolding getLedgerAccountForUpdate_def wp_bindM
proof (rule wp_txStmt, goal_cases)
  case (1 n r db t)
  then have "r \<in> set (t_ledger_accounts (ss_db s)) \<and> la_AccountID r = u \<and> la_Asset r = a" "db = ss_db s"
    by (auto simp: sql_ledger_account_def find_Some_iff split: option.splits)
  then show ?case using 1 assms(1) by (simp add: assms(2))
qed (rule assms(3))

lemma wp_getOrCreateLedgerAccountForUpdate:
  assumes "exact_text (se_dec E)"
    and "\<And>acct t. acct \<in> set (t_ledger_accounts (ss_db t)) \<Longrightarrow> la_AccountID acct = u \<Longrightarrow> la_Asset acct = a
      \<Longrightarrow> opens (ss_db s) (ss_db t) \<Longrightarrow> Q acct t"
    and "\<And>e t. X e t"
  shows "wp (getOrCreateLedgerAccountForUpdate E u a) Q X s"
  unfolding getOrCreateLedgerAccountForUpdate_def wp_attempt
proof (rule wp_getLedgerAccountForUpdate [OF assms(1)], goal_cases)
  case (1 acct t)
  then show ?case by (simp add: assms(2))
next
  case (2 e t)
  have "wp (bindM (txStmt E (sql_insert_ledger_account E u a)) (\<lambda>_. getLedgerAccountForUpdate E u a)) Q X t"
    unfolding wp_bindM
  proof (rule wp_txStmt, goal_cases)
    case ins: (1 n x db t')
    have "opens (ss_db s) db"
      using ins(2) 2 by (auto simp: sql_insert_ledger_account_def Let_def opens_insert split: if_splits)
    then show ?case
      using 2 ins(3) by (intro wp_getLedgerAccountForUpdate [OF assms(1)]) (auto intro: assms(2,3))
  qed (rule assms(3))
  then show ?case by (simp add: assms(3))
qed

definition reservation_for :: "'d ledger_db \<Rightarrow> uuid \<Rightarrow> 'd BalanceReservation option" where
  "reservation_for db orderID = find (\<lambda>r. br_OrderID r = orderID) (t_reservations db)"

lemma reservation_forD:
  "reservation_for db orderID = Some r \<Longrightarrow> r \<in> set (t_reservations db) \<and> br_OrderID r = orderID"
  by (auto simp: reservation_for_def find_Some_iff)

lemma sql_reservation_eq:
  "sql_reservation orderID n db = (case reservation_for db orderID of None \<Rightarrow> Inl NoRows | Some r \<Rightarrow> Inr (r, db))"
  by (simp add: sql_reservation_def reservation_for_def)

lemma wp_getReservationForUpdate:
  assumes "exact_text (se_dec E)"
    and "\<And>r t. reservation_for (ss_db s) orderID = Some r \<Longrightarrow> ss_db t = ss_db s \<Longrightarrow> Q r t"
    and "\<And>t. reservation_for (ss_db s) orderID = None \<Longrightarrow> ss_db t = ss_db s \<Longrightarrow> X NoRows t"
    and "\<And>t. ss_db t = ss_db s \<Longrightarrow> X DBErr t"
  shows "wp (getReservationForUpdate E orderID) Q X s"
  unfolding getReservationForUpdate_def wp_bindM
  using assms(1)
  by (intro wp_txStmt) (auto simp: sql_reservation_eq intro: assms(2-4) split: option.splits)

lemma wp_getReservation:
  assumes "exact_text (se_dec E)"
    and "\<And>r t. reservation_for (ss_db s) orderID = Some r \<Longrightarrow> ss_db t = ss_db s \<Longrightarrow> Q r t"
    and "\<And>e t. ss_db t = ss_db s \<Longrightarrow> X e t"
  shows "wp (getReservation E orderID) Q X s"
  unfolding getReservation_def wp_bindM
  using assms(1)
  by (intro wp_poolQuery) (auto simp: sql_reservation_eq intro: assms(2-3) split: option.splits)

text \<open>Updating a reservation: the row constraints are checked by the database.\<close>

definition writes_reservation :: "'d \<Rightarrow> string \<Rightarrow> time \<Rightarrow> uuid \<Rightarrow> 'd ledger_db \<Rightarrow> 'd ledger_db" where
  "writes_reservation consumed status now rid db =
     db\<lparr>t_reservations := map (setReservation consumed status now rid) (t_reservations db)\<rparr>"

lemma writes_reservation_fields [simp]:
  "t_ledger_accounts (writes_reservation c st now rid db) = t_ledger_accounts db"
  "t_ledger_entries (writes_reservation c st now rid db) = t_ledger_entries db"
  "t_processed_events (writes_reservation c st now rid db) = t_processed_events db"
  "t_accounts (writes_reservation c st now rid db) = t_accounts db"
  "t_reservations (writes_reservation c st now rid db) = map (setReservation c st now rid) (t_reservations db)"
  by (simp_all add: writes_reservation_def)

lemma setReservation_simps [simp]:
  "br_ID (setReservation c st now rid r) = br_ID r"
  "br_OrderID (setReservation c st now rid r) = br_OrderID r"
  "br_AccountID (setReservation c st now rid r) = br_AccountID r"
  "br_Asset (setReservation c st now rid r) = br_Asset r"
  "br_Amount (setReservation c st now rid r) = br_Amount r"
  by (simp_all add: setReservation_def)

lemma balance_of_writes_reservation [simp]: "balance_of (writes_reservation c st now rid db) = balance_of db"
  by (simp add: balance_of_def fun_eq_iff)

lemma reservation_for_writes_reservation:
  "reservation_for (writes_reservation c st now rid db) orderID = map_option (setReservation c st now rid) (reservation_for db orderID)"
proof -
  have "find (\<lambda>r. br_OrderID r = orderID) (map (setReservation c st now rid) rows) =
      map_option (setReservation c st now rid) (find (\<lambda>r. br_OrderID r = orderID) rows)" for rows :: "'a BalanceReservation list"
    by (induction rows) auto
  then show ?thesis by (simp add: reservation_for_def)
qed

lemma ledger_inv_writes_reservation:
  assumes "ledger_inv db"
    and "\<And>r. r \<in> set (t_reservations db) \<Longrightarrow> br_ID r = rid \<Longrightarrow> 0 \<le> c \<and> c \<le> br_Amount r \<and> valid_status st"
  shows "ledger_inv (writes_reservation c st now rid db)"
proof -
  have "reservation_ok (setReservation c st now rid r)" if "r \<in> set (t_reservations db)" for r
    using assms that
    by (cases "br_ID r = rid") (auto simp: setReservation_def reservation_ok_def ledger_inv_def reservations_ok_def list_all_iff)
  with assms(1) show ?thesis
    by (auto simp: ledger_inv_def reservations_ok_def entries_ok_def comp_def list_all_iff)
qed

lemma wp_updateReservation:
  assumes "\<And>now t. ss_db t = writes_reservation c st now (br_ID r) (ss_db s)
      \<Longrightarrow> (\<And>x. x \<in> set (t_reservations (ss_db s)) \<Longrightarrow> br_ID x = br_ID r \<Longrightarrow> 0 \<le> c \<and> c \<le> br_Amount x \<and> valid_status st)
      \<Longrightarrow> Q () t"
    and "\<And>e t. X e t"
  shows "wp (updateReservation E r c st) Q X s"
  unfolding updateReservation_def wp_bindM wp_Now
  by (intro wp_txStmt)
    (auto simp: sql_update_reservation_def writes_reservation_def list_ex_iff split: if_splits
      intro!: assms(1) [where now = "se_clock E (ss_step s)"] assms(2))

subsection \<open>Rules for the statements\<close>

lemma wp_sql_lock [wp_intro]:
  "(\<And>t. ss_db t = ss_db s \<Longrightarrow> Q () t) \<Longrightarrow> (\<And>e t. X e t) \<Longrightarrow> wp (txStmt E sql_lock) Q X s"
  by (intro wp_txStmt) (auto simp: sql_lock_def)

lemma wp_sql_update_balances [wp_intro]:
  "(\<And>t. ss_db t = writes_balances av lk now rid (ss_db s) \<Longrightarrow> Q () t) \<Longrightarrow> (\<And>e t. X e t)
   \<Longrightarrow> wp (txStmt E (sql_update_balances av lk now rid)) Q X s"
  by (intro wp_txStmt) (auto simp: sql_update_balances_eq)

section \<open>Reserving\<close>

definition adds_reservation :: "'d BalanceReservation \<Rightarrow> 'd ledger_db \<Rightarrow> 'd ledger_db" where
  "adds_reservation r db = db\<lparr>t_reservations := t_reservations db @ [r]\<rparr>"

lemma adds_reservation_simps [simp]:
  "balance_of (adds_reservation r db) = balance_of db"
  "t_ledger_accounts (adds_reservation r db) = t_ledger_accounts db"
  "t_ledger_entries (adds_reservation r db) = t_ledger_entries db"
  by (simp_all add: adds_reservation_def balance_of_def fun_eq_iff)

lemma find_append: "find P (xs @ ys) = (case find P xs of None \<Rightarrow> find P ys | Some x \<Rightarrow> Some x)"
  by (induction xs) auto

lemma reservation_for_adds:
  "reservation_for db (br_OrderID r) = None \<Longrightarrow> reservation_for (adds_reservation r db) (br_OrderID r) = Some r"
  by (simp add: reservation_for_def adds_reservation_def find_append)

lemma reservation_for_adds_other: "br_OrderID r \<noteq> o' \<Longrightarrow> reservation_for (adds_reservation r db) o' = reservation_for db o'"
  by (simp add: reservation_for_def adds_reservation_def find_append split: option.splits)

lemma ledger_inv_adds_reservation:
  assumes "ledger_inv db" and "reservation_ok r"
    and "\<not> list_ex (\<lambda>x. br_ID x = br_ID r \<or> br_OrderID x = br_OrderID r) (t_reservations db)"
  shows "ledger_inv (adds_reservation r db)"
  using assms
  by (auto simp: ledger_inv_def adds_reservation_def reservations_ok_def entries_ok_def list_ex_iff)

lemma sql_insert_reservation_Inr:
  assumes "sql_insert_reservation E rid orderID u a amount now n db = Inr (x, db')"
  shows "\<exists>r. db' = adds_reservation r db \<and> r = \<lparr>br_ID = rid, br_OrderID = orderID, br_AccountID = u, br_Asset = a,
      br_Amount = amount, br_ConsumedAmount = 0, br_Status = ''active'', br_CreatedAt = now, br_UpdatedAt = now\<rparr>
    \<and> \<not> list_ex (\<lambda>y. br_ID y = br_ID r \<or> br_OrderID y = br_OrderID r) (t_reservations db) \<and> reservation_ok r"
  using assms
  by (auto simp: sql_insert_reservation_def adds_reservation_def Let_def reservation_ok_def valid_status_def split: if_splits)

text \<open>What a successful reservation means for the tables before and after.\<close>

definition reserves ::
  "uuid \<Rightarrow> uuid \<Rightarrow> string \<Rightarrow> 'd::linordered_idom \<Rightarrow> 'd ledger_db \<Rightarrow> 'd BalanceReservation \<Rightarrow> 'd ledger_db \<Rightarrow> bool" where
  "reserves u orderID a amount db r db' \<longleftrightarrow>
     ledger_inv db' \<and> reservation_for db' orderID = Some r \<and> br_Status r = ''active'' \<and> br_AccountID r = u \<and>
     ToUpper (br_Asset r) = a \<and>
     (if reservation_for db orderID = None then
        br_Amount r = amount \<and> br_ConsumedAmount r = 0 \<and> amount \<le> fst (balance_of db u a) \<and>
        (\<forall>v b. balance_of db' v b =
           (if v = u \<and> b = a then (fst (balance_of db u a) - amount, snd (balance_of db u a) + amount) else balance_of db v b)) \<and>
        (\<forall>o'. o' \<noteq> orderID \<longrightarrow> reservation_for db' o' = reservation_for db o') \<and>
        (\<forall>P. rows_sum P (t_ledger_accounts db') = rows_sum P (t_ledger_accounts db)) \<and>
        t_ledger_entries db' = t_ledger_entries db
      else db' = db)"

lemma reserve_writes:
  assumes "ledger_inv db" and "opens db db1" and "acct \<in> set (t_ledger_accounts db1)"
    and "la_AccountID acct = u" and "la_Asset acct = a" and "0 < amount" and "amount \<le> la_BalanceAvailable acct"
    and "ToUpper a = a" and "reservation_for db orderID = None"
    and "sql_insert_reservation E rid orderID u a amount now n
           (writes_balances (la_BalanceAvailable acct - amount) (la_BalanceLocked acct + amount) now' (la_ID acct) db1) = Inr (x, db')"
    and "r = \<lparr>br_ID = rid, br_OrderID = orderID, br_AccountID = u, br_Asset = a, br_Amount = amount,
      br_ConsumedAmount = 0, br_Status = ''active'', br_CreatedAt = now, br_UpdatedAt = now\<rparr>"
  shows "reserves u orderID a amount db r db'"
proof -
  let ?db2 = "writes_balances (la_BalanceAvailable acct - amount) (la_BalanceLocked acct + amount) now' (la_ID acct) db1"
  have inv1: "ledger_inv db1" using assms(1,2) by (rule opens_inv [rotated])
  then have ok: "accounts_ok (t_ledger_accounts db1)" "distinct (map la_ID (t_ledger_accounts db1))"
    and "acct_nonneg acct" using assms(3) by (auto simp: ledger_inv_def accounts_ok_def list_all_iff)
  then have nn: "0 \<le> la_BalanceAvailable acct - amount" "0 \<le> la_BalanceLocked acct + amount"
    using assms(6,7) by (simp_all add: acct_nonneg_def)
  have bal: "balance_of db u a = (la_BalanceAvailable acct, la_BalanceLocked acct)"
    using balance_of_member [OF ok(1) assms(3)] opens_balance_of [OF assms(2)] assms(4,5) by simp
  have none: "reservation_for ?db2 orderID = None" using assms(9) opens_fields [OF assms(2)] by (simp add: reservation_for_def)
  from sql_insert_reservation_Inr [OF assms(10)] assms(11)
  have db': "db' = adds_reservation r ?db2" and new: "\<not> list_ex (\<lambda>y. br_ID y = br_ID r \<or> br_OrderID y = br_OrderID r) (t_reservations ?db2)"
    and rok: "reservation_ok r" by auto
  have "ledger_inv db'"
    unfolding db' by (rule ledger_inv_adds_reservation [OF ledger_inv_writes_balances [OF inv1 nn] rok new])
  moreover have "reservation_for db' orderID = Some r"
    using reservation_for_adds [of ?db2 r] none assms(11) by (simp add: db')
  moreover have "balance_of db' v b = (if v = u \<and> b = a then (fst (balance_of db u a) - amount, snd (balance_of db u a) + amount)
      else balance_of db v b)" for v b
    using balance_of_writes_balances [OF ok(1) assms(3)] opens_balance_of [OF assms(2)] assms(4,5) bal by (simp add: db')
  moreover have "o' \<noteq> orderID \<Longrightarrow> reservation_for db' o' = reservation_for db o'" for o'
    using reservation_for_adds_other [of r o' ?db2] assms(11) opens_fields [OF assms(2)] by (simp add: db' reservation_for_def)
  moreover have "rows_sum P (t_ledger_accounts db') = rows_sum P (t_ledger_accounts db)" for P
    using rows_sum_setBalances [OF ok(2) assms(3)] opens_rows_sum [OF assms(2)] by (simp add: db' acct_total_def)
  moreover have "t_ledger_entries db' = t_ledger_entries db" using opens_fields [OF assms(2)] by (simp add: db')
  ultimately show ?thesis
    using assms(7-9,11) bal by (simp add: reserves_def)
qed

lemma wp_sql_insert_reservation [wp_intro]:
  "(\<And>n db t. sql_insert_reservation E rid orderID u a amount now n (ss_db s) = Inr ((), db) \<Longrightarrow> ss_db t = db \<Longrightarrow> Q () t)
   \<Longrightarrow> (\<And>e t. X e t) \<Longrightarrow> wp (txStmt E (sql_insert_reservation E rid orderID u a amount now)) Q X s"
  by (intro wp_txStmt) (auto simp: sql_insert_reservation_def)

lemma wp_ReserveBalance:
  assumes "exact_text (se_dec E)" and "ledger_inv (ss_db s)"
  shows "wp (ReserveBalance E u orderID raw amount)
    (\<lambda>r t. reserves u orderID (ToUpper (TrimSpace raw)) amount (ss_db s) r (ss_db t))
    (\<lambda>e t. ss_db t = ss_db s) s"
  unfolding ReserveBalance_def Let_def
  apply (intro wp_intro wp_getReservationForUpdate [OF assms(1)] wp_getOrCreateLedgerAccountForUpdate [OF assms(1)]
      wp_getReservation [OF assms(1)] refl TrueI)
  apply (simp_all only: errors_Is.simps simp_thms go_error.distinct option.distinct)
  subgoal using assms(2) by (simp add: reserves_def)
  subgoal by (rule reserve_writes [OF assms(2)]) (simp_all add: not_le not_less)
  done

section \<open>Releasing\<close>

text \<open>What a successful release means for the tables before and after.\<close>

definition releases ::
  "uuid \<Rightarrow> 'd::linordered_idom ledger_db \<Rightarrow> 'd BalanceReservation \<Rightarrow> 'd \<Rightarrow> 'd ledger_db \<Rightarrow> bool" where
  "releases orderID db r0 released db' \<longleftrightarrow>
     (let u = br_AccountID r0; a = br_Asset r0; remaining = br_Amount r0 - br_ConsumedAmount r0; (av, lk) = balance_of db u a in
      reservation_for db orderID = Some r0 \<and> ledger_inv db' \<and>
      released = (if remaining \<le> 0 then 0 else min remaining lk) \<and> 0 \<le> released \<and>
      (\<forall>v b. balance_of db' v b = (if v = u \<and> b = a then (av + released, lk - released) else balance_of db v b)) \<and>
      map_option (\<lambda>r. (br_ConsumedAmount r, br_Status r)) (reservation_for db' orderID) =
        Some (if remaining \<le> 0 then br_ConsumedAmount r0 else br_Amount r0 - released,
              if released = 0 then ''consumed'' else ''released'') \<and>
      (\<forall>o'. o' \<noteq> orderID \<longrightarrow> reservation_for db' o' = reservation_for db o') \<and>
      (\<forall>P. rows_sum P (t_ledger_accounts db') = rows_sum P (t_ledger_accounts db)) \<and>
      t_ledger_entries db' = t_ledger_entries db)"

lemma reservation_for_unique:
  assumes "reservations_ok (t_reservations db)" and "reservation_for db orderID = Some r"
    and "reservation_for db o' = Some r'" and "br_ID r' = br_ID r"
  shows "o' = orderID"
  using assms reservation_forD [OF assms(2)] reservation_forD [OF assms(3)]
  by (auto simp: reservations_ok_def distinct_map inj_on_def)

lemma reservation_for_other:
  assumes "reservations_ok (t_reservations db)" and "reservation_for db orderID = Some r" and "o' \<noteq> orderID"
  shows "reservation_for (writes_reservation c st now (br_ID r) db) o' = reservation_for db o'"
proof (cases "reservation_for db o'")
  case (Some r')
  then have "br_ID r' \<noteq> br_ID r" using reservation_for_unique [OF assms(1,2)] assms(3) by blast
  with Some show ?thesis by (simp add: reservation_for_writes_reservation setReservation_def)
qed (simp add: reservation_for_writes_reservation)

lemma reservation_for_member_ok: "ledger_inv db \<Longrightarrow> reservation_for db orderID = Some r \<Longrightarrow> reservation_ok r"
  using reservation_forD [of db orderID r] by (auto simp: ledger_inv_def reservations_ok_def list_all_iff)

lemma releases_nothing:
  assumes "ledger_inv db" and "reservation_for db orderID = Some r" and "br_Amount r - br_ConsumedAmount r \<le> 0"
    and "ledger_inv db'" and "db' = db \<and> br_Status r = ''consumed'' \<or> (\<exists>now. db' = writes_reservation (br_ConsumedAmount r) ''consumed'' now (br_ID r) db)"
  shows "releases orderID db r 0 db'"
proof -
  have "\<forall>o'. o' \<noteq> orderID \<longrightarrow> reservation_for db' o' = reservation_for db o'"
    using assms(5) reservation_for_other [OF _ assms(2)] assms(1) by (auto simp: ledger_inv_def)
  moreover have "map_option (\<lambda>r. (br_ConsumedAmount r, br_Status r)) (reservation_for db' orderID) = Some (br_ConsumedAmount r, ''consumed'')"
    using assms(2,5) by (auto simp: reservation_for_writes_reservation setReservation_def)
  moreover have "balance_of db' = balance_of db" "t_ledger_accounts db' = t_ledger_accounts db" "t_ledger_entries db' = t_ledger_entries db"
    using assms(5) by auto
  ultimately show ?thesis
    using assms(2-4) by (simp add: releases_def split: prod.splits)
qed

lemma releases_some:
  assumes "ledger_inv db" and "reservation_for db orderID = Some r" and "0 < br_Amount r - br_ConsumedAmount r"
    and "opens db db1" and "acct \<in> set (t_ledger_accounts db1)" and "la_AccountID acct = br_AccountID r" and "la_Asset acct = br_Asset r"
    and "released = (if la_BalanceLocked acct < br_Amount r - br_ConsumedAmount r then la_BalanceLocked acct else br_Amount r - br_ConsumedAmount r)"
    and "db2 = writes_balances (la_BalanceAvailable acct + released) (la_BalanceLocked acct - released) now (la_ID acct) db1"
    and "db' = writes_reservation (br_Amount r - released)
          (if br_Amount r \<le> br_Amount r - released then ''consumed'' else ''released'') now' (br_ID r) db2"
    and "\<And>x. x \<in> set (t_reservations db2) \<Longrightarrow> br_ID x = br_ID r \<Longrightarrow> 0 \<le> br_Amount r - released \<and> br_Amount r - released \<le> br_Amount x
          \<and> valid_status (if br_Amount r \<le> br_Amount r - released then ''consumed'' else ''released'')"
  shows "releases orderID db r released db'"
proof -
  have inv1: "ledger_inv db1" using assms(1,4) by (rule opens_inv [rotated])
  then have ok: "accounts_ok (t_ledger_accounts db1)" "distinct (map la_ID (t_ledger_accounts db1))"
    and nn: "acct_nonneg acct" using assms(5) by (auto simp: ledger_inv_def accounts_ok_def list_all_iff)
  have amounts: "0 \<le> la_BalanceAvailable acct + released" "0 \<le> la_BalanceLocked acct - released" "0 \<le> released"
    and min: "released = min (br_Amount r - br_ConsumedAmount r) (la_BalanceLocked acct)"
    using nn assms(3,8) by (auto simp: acct_nonneg_def)
  have inv2: "ledger_inv db2" unfolding assms(9) by (rule ledger_inv_writes_balances [OF inv1 amounts(1,2)])
  have inv': "ledger_inv db'" unfolding assms(10) by (rule ledger_inv_writes_reservation [OF inv2 assms(11)])
  have bal: "balance_of db (br_AccountID r) (br_Asset r) = (la_BalanceAvailable acct, la_BalanceLocked acct)"
    using balance_of_member [OF ok(1) assms(5)] opens_balance_of [OF assms(4)] assms(6,7) by simp
  have r2: "reservation_for db2 o' = reservation_for db o'" for o'
    using opens_fields [OF assms(4)] by (simp add: assms(9) reservation_for_def)
  have other: "reservation_for db' o' = reservation_for db o'" if "o' \<noteq> orderID" for o'
    using reservation_for_other [of db2 orderID r o'] inv2 r2 assms(2) that by (simp add: assms(10) ledger_inv_def)
  have sums: "rows_sum P (t_ledger_accounts db') = rows_sum P (t_ledger_accounts db)" for P
    using rows_sum_setBalances [OF ok(2) assms(5)] opens_rows_sum [OF assms(4)] by (simp add: assms(9,10) acct_total_def)
  have bals: "balance_of db' v b = (if v = br_AccountID r \<and> b = br_Asset r
      then (la_BalanceAvailable acct + released, la_BalanceLocked acct - released) else balance_of db v b)" for v b
    using balance_of_writes_balances [OF ok(1) assms(5)] opens_balance_of [OF assms(4)] assms(6,7) by (simp add: assms(9,10))
  have "map_option (\<lambda>r. (br_ConsumedAmount r, br_Status r)) (reservation_for db' orderID) =
      Some (br_Amount r - released, if released = 0 then ''consumed'' else ''released'')"
    using assms(2) r2 amounts(3) by (auto simp: assms(10) reservation_for_writes_reservation setReservation_def)
  with inv' bal other sums bals min amounts(3) assms(2,3) opens_fields(2) [OF assms(4)] show ?thesis
    by (simp add: releases_def assms(9,10))
qed

lemma wp_ReleaseReservation:
  assumes "exact_text (se_dec E)" and "ledger_inv (ss_db s)"
  shows "wp (ReleaseReservation E orderID)
    (\<lambda>(r, released) t. \<exists>r0. releases orderID (ss_db s) r0 released (ss_db t) \<and> br_AccountID r = br_AccountID r0 \<and> br_Asset r = br_Asset r0)
    (\<lambda>e t. ss_db t = ss_db s) s"
  unfolding ReleaseReservation_def Let_def
  apply (intro wp_intro wp_getReservationForUpdate [OF assms(1)] wp_getOrCreateLedgerAccountForUpdate [OF assms(1)]
      wp_updateReservation refl TrueI)
  apply (simp_all only: errors_Is.simps simp_thms go_error.distinct option.distinct prod.case)
  subgoal for s1 r t now ta t'
    by (rule exI [of _ r], intro conjI refl releases_nothing [OF assms(2)] ledger_inv_writes_reservation [OF assms(2)]) auto
  subgoal for s1 r t t'
    by (rule exI [of _ r], intro conjI refl releases_nothing [OF assms(2)]) (auto simp: assms(2))
  subgoal premises prems for s1 r t acct ta tb now tc t'
    by (rule exI [of _ r], intro conjI, rule releases_some [OF assms(2) _ _ _ _ _ _ refl refl refl prems(12)])
      (use prems(1-9) in \<open>simp_all add: not_le\<close>)
  done

section \<open>Properties\<close>

text \<open>A small ledger: account 10 has 20 USD and account 11 has 5 BTC; nothing fails.\<close>

definition sample_row :: "uuid \<Rightarrow> uuid \<Rightarrow> string \<Rightarrow> int \<Rightarrow> int LedgerAccount" where
  "sample_row rid u a av = \<lparr>la_ID = rid, la_AccountID = u, la_Asset = a, la_BalanceAvailable = av, la_BalanceLocked = 0, la_UpdatedAt = 0\<rparr>"

definition sample_db :: "int ledger_db" where
  "sample_db = \<lparr>t_users = [(1, ''a'')],
     t_accounts = map (\<lambda>u. \<lparr>acc_id = u, acc_user_id = 1, acc_type = ''spot'', acc_created_at = 0\<rparr>) [10, 11],
     t_orders = [(30, 10), (31, 11)], t_ledger_accounts = [sample_row 20 10 ''USD'' 20, sample_row 21 11 ''BTC'' 5],
     t_ledger_entries = [], t_reservations = [], t_processed_events = []\<rparr>"

definition sample_store :: "int store_state" where
  "sample_store = \<lparr>ss_db = sample_db, ss_aborted = False, ss_step = 0, ss_feeCache = \<lparr>fc_ttl = 900, fc_entries = []\<rparr>, ss_feeCalls = []\<rparr>"

definition sample_store_env :: "int store_env" where
  "sample_store_env = \<lparr>se_fault = (\<lambda>_. False), se_clock = int, se_uuid = (\<lambda>n. 100 + of_nat n), se_uniqueErr = UniqueViolation,
     se_uuidString = sample_uuid_text, se_dec = int_decimal,
     se_feeClient = Some (\<lambda>_ _. Inr (Some \<lparr>cr_FeeAmount = ''1'', cr_FeeAsset = ''USD''\<rparr>))\<rparr>"

lemma sample_store_env_dec [simp]: "exact_text (se_dec sample_store_env)"
  by (simp add: sample_store_env_def)

lemma sample_store_inv [simp]: "ledger_inv (ss_db sample_store)"
  by code_simp

text \<open>
  C17: Reserving funds. Whatever fails on the way, an error leaves the tables untouched. A returned reservation is
  active, recorded for the order, and belongs to the account and asset of the request. If the order had one already, nothing
  changes (a repeated request is harmless); otherwise the amount was available, it has moved from
  the available to the locked balance of this account and asset, and no other balance has changed.
\<close>

theorem ReserveBalance_effect:
  assumes "exact_text (se_dec E)" and "ledger_inv (ss_db s)"
  shows "case ReserveBalance E u orderID raw amount s of
      (Inl e, t) \<Rightarrow> ss_db t = ss_db s
    | (Inr r, t) \<Rightarrow> reserves u orderID (ToUpper (TrimSpace raw)) amount (ss_db s) r (ss_db t)"
  using wp_ReserveBalance [OF assms] unfolding wp_def .

theorem ReserveBalance_effect_witness:
  "map_prod (\<lambda>r. (case r of Inr b \<Rightarrow> br_Amount b | Inl _ \<Rightarrow> 0)) (\<lambda>t. balance_of (ss_db t) 10 ''USD'') (ReserveBalance sample_store_env 10 30 '' usd'' 15 sample_store) = (15, (5, 15))
   \<and> (case ReserveBalance sample_store_env 10 30 '' usd'' 15 sample_store of (Inl e, t) \<Rightarrow> False
      | (Inr r, t) \<Rightarrow> reserves 10 30 ''USD'' 15 (ss_db sample_store) r (ss_db t))"
proof
  show eval: "map_prod (\<lambda>r. (case r of Inr b \<Rightarrow> br_Amount b | Inl _ \<Rightarrow> 0)) (\<lambda>t. balance_of (ss_db t) 10 ''USD'') (ReserveBalance sample_store_env 10 30 '' usd'' 15 sample_store) = (15, (5, 15))"
    by code_simp
  have "ToUpper (TrimSpace '' usd'') = ''USD''" by code_simp
  then show "case ReserveBalance sample_store_env 10 30 '' usd'' 15 sample_store of (Inl e, t) \<Rightarrow> False
      | (Inr r, t) \<Rightarrow> reserves 10 30 ''USD'' 15 (ss_db sample_store) r (ss_db t)"
    using ReserveBalance_effect [of sample_store_env sample_store 10 30 "'' usd''" 15] eval
    by (auto split: prod.splits sum.splits)
qed

text \<open>
  C18: When nothing fails, a valid request for an order without a reservation on an open account is granted exactly when
  the available balance covers it, and refused with \<open>ErrInsufficientBalance\<close> otherwise.
\<close>

theorem ReserveBalance_granted:
  assumes "\<And>n. \<not> se_fault E n" and "exact_text (se_dec E)"
    and "a = ToUpper (TrimSpace raw)" and "a \<noteq> []" and "0 < amount" and "orderID \<noteq> uuid_Nil"
    and "reservation_for (ss_db s) orderID = None" and "ledger_row (t_ledger_accounts (ss_db s)) u a = Some acct"
    and "u \<in> set (map acc_id (t_accounts (ss_db s)))" and "\<And>n. se_uuid E n \<notin> set (map br_ID (t_reservations (ss_db s)))"
  shows "if amount \<le> fst (balance_of (ss_db s) u a)
     then \<exists>r t. ReserveBalance E u orderID raw amount s = (Inr r, t) \<and> br_Amount r = amount
     else \<exists>t. ReserveBalance E u orderID raw amount s = (Inl ErrInsufficientBalance, t)"
proof -
  have sql: "sql_ledger_account u a n (ss_db s) = Inr (acct, ss_db s)" for n
    using assms(8) by (simp add: sql_ledger_account_def ledger_row_def)
  have bal: "fst (balance_of (ss_db s) u a) = la_BalanceAvailable acct" using assms(8) by (simp add: balance_of_def)
  have none: "sql_reservation orderID n (ss_db s) = Inl NoRows" for n
    using assms(7) by (simp add: sql_reservation_eq)
  have no: "\<not> list_ex (\<lambda>r. br_ID r = se_uuid E n \<or> br_OrderID r = orderID) (t_reservations (ss_db s))" for n
    using assms(7) assms(10) [of n] by (auto simp: list_ex_iff reservation_for_def find_None_iff image_iff)
  have parse: "scanAccount E acct x = (Inr acct, x)" for x
    using assms(2) by (simp add: scanAccount_def bindM_def parseColumn_def exact_text_def ret_def)
  show ?thesis
    using assms(1,4-6,9) no
    by (simp add: bal ReserveBalance_def assms(3) [symmetric] Let_def withTx_def bindM_def attempt_def txStmt_def sql_lock_def
        getReservationForUpdate_def none sql getOrCreateLedgerAccountForUpdate_def getLedgerAccountForUpdate_def parse
        ret_def fail_def Now_def NewUUID_def sql_update_balances_eq sql_insert_reservation_def not_le)
qed

theorem ReserveBalance_granted_witness:
  "\<exists>r t. ReserveBalance sample_store_env 10 30 ''USD'' 15 sample_store = (Inr r, t) \<and> br_Amount r = 15"
proof -
  have b: "fst (balance_of (ss_db sample_store) 10 ''USD'') = 20" by code_simp
  show ?thesis
    using ReserveBalance_granted [of sample_store_env "''USD''" "''USD''" 15 30 sample_store 10 "sample_row 20 10 ''USD'' 20"]
    unfolding b
    by (simp add: sample_store_env_def sample_store_def sample_db_def reservation_for_def ledger_row_def sample_row_def
        TrimSpace_def isSpace_def ToUpper_def upper_char_def uuid_Nil_def)
qed

text \<open>
  Releasing. An error leaves the tables untouched. Otherwise the part of the reservation not consumed yet, or
  the whole locked balance if that is less, has moved from the locked to the available balance of
  the reservation's account and asset, no other balance and no other reservation has changed, and the reservation is recorded as
  released (or consumed, when nothing was left to release).
\<close>

theorem ReleaseReservation_effect:
  assumes "exact_text (se_dec E)" and "ledger_inv (ss_db s)"
  shows "case ReleaseReservation E orderID s of
      (Inl e, t) \<Rightarrow> ss_db t = ss_db s
    | (Inr (r, released), t) \<Rightarrow> \<exists>r0. releases orderID (ss_db s) r0 released (ss_db t)"
  using wp_ReleaseReservation [OF assms, of orderID] unfolding wp_def by (auto split: prod.splits sum.splits)

definition sample_reserved :: "int store_state" where
  "sample_reserved = snd (ReserveBalance sample_store_env 10 32 ''USD'' 8 (snd (ReserveBalance sample_store_env 10 30 ''USD'' 10 sample_store)))"

theorem ReleaseReservation_effect_witness:
  "case ReleaseReservation sample_store_env 30 sample_reserved of (Inl e, t) \<Rightarrow> False
   | (Inr (r, released), t) \<Rightarrow> released = 10 \<and> (\<exists>r0. releases 30 (ss_db sample_reserved) r0 10 (ss_db t))"
proof -
  have inv: "ledger_inv (ss_db sample_reserved)" by code_simp
  have "map_prod (\<lambda>r. (case r of Inr b \<Rightarrow> snd b | Inl _ \<Rightarrow> 0)) (\<lambda>_. ()) (ReleaseReservation sample_store_env 30 sample_reserved) = (10, ())"
    by code_simp
  then show ?thesis
    using ReleaseReservation_effect [OF sample_store_env_dec inv, of 30]
    by (auto split: prod.splits sum.splits)
qed


end
