(* ===== verification/Go_Service.thy ===== *)
theory Go_Service
  imports Go_Database
begin

text \<open>
  What the gRPC services share: the status of an error, the packages that parse UUIDs and decimals as parameters, and the
  answer \<open>InvalidArgument\<close> to a request that does not parse.
\<close>

text \<open>\<open>uuid.Parse\<close>, the text of a UUID and the decimal package.\<close>

record 'd service_env =
  sv_parseUUID :: "string \<Rightarrow> uuid option"
  sv_uuidString :: "uuid \<Rightarrow> string"
  sv_dec :: "'d decimal_ops"

text \<open>\<open>status.FromError\<close>: the gRPC status of an error, looked up along the chain of wrapped errors.\<close>

fun status_FromError :: "go_error \<Rightarrow> grpc_code option" where
  "status_FromError (StatusErr c m) = Some c"
| "status_FromError (Wrapf m e) = status_FromError e"
| "status_FromError (DLQErr r e) = status_FromError e"
| "status_FromError e = None"

text \<open>\<open>err.Error()\<close> of the errors the parsers build, whose arguments are part of the text.\<close>

definition Error_text :: "go_error \<Rightarrow> string" where
  "Error_text err = (case err of Errorf m _ \<Rightarrow> m | _ \<Rightarrow> [])"

definition invalidArgument :: "go_error \<Rightarrow> go_error" where
  "invalidArgument err = StatusErr InvalidArgument (Error_text err)"

definition orInvalid :: "go_error + 'a \<Rightarrow> ('a \<Rightarrow> ('s, 'b) prog) \<Rightarrow> ('s, 'b) prog" where
  "orInvalid r k = (case r of Inl err \<Rightarrow> fail (invalidArgument err) | Inr a \<Rightarrow> k a)"

lemma wp_case_sum:
  "(\<And>a. x = Inl a \<Longrightarrow> wp (f a) Q X s) \<Longrightarrow> (\<And>b. x = Inr b \<Longrightarrow> wp (g b) Q X s)
   \<Longrightarrow> wp (case x of Inl a \<Rightarrow> f a | Inr b \<Rightarrow> g b) Q X s"
  by (cases x) simp_all

lemma wp_orInvalid:
  assumes "\<And>a. r = Inr a \<Longrightarrow> wp (k a) Q X s" and "\<And>m. X (StatusErr InvalidArgument m) s"
  shows "wp (orInvalid r k) Q X s"
  using assms by (cases r) (simp_all add: orInvalid_def invalidArgument_def)

section \<open>Services on a database\<close>

text \<open>The environment of a service that reads UUIDs from requests and works on a database.\<close>

record 'd api_env = "'d sql_env" +
  ae_parseUUID :: "string \<Rightarrow> uuid option"

text \<open>
  Decimal texts can be read back, and have no blanks around them.
\<close>

definition plain_text :: "'d decimal_ops \<Rightarrow> bool" where
  "plain_text D \<longleftrightarrow> exact_text D \<and> (\<forall>v. TrimSpace (DecString D v) = DecString D v)"

lemma plain_textD [simp]:
  "plain_text D \<Longrightarrow> exact_text D" "plain_text D \<Longrightarrow> TrimSpace (DecString D v) = DecString D v"
  "plain_text D \<Longrightarrow> NewFromString D (DecString D v) = Some v"
  by (simp_all add: plain_text_def exact_text_def)

lemma TrimSpace_no_blanks: "(\<And>c. c \<in> set s \<Longrightarrow> \<not> isSpace c) \<Longrightarrow> TrimSpace s = s"
proof -
  assume blank: "\<And>c. c \<in> set s \<Longrightarrow> \<not> isSpace c"
  have "dropWhile isSpace xs = xs" if "set xs \<subseteq> set s" for xs
    using that blank by (cases xs) auto
  then show ?thesis by (simp add: TrimSpace_def)
qed

lemma not_isSpace_digit: "d < 10 \<Longrightarrow> \<not> isSpace (digit_char d)"
proof -
  assume "d < 10"
  then have "(of_char (digit_char d) :: nat) \<ge> 48" by (simp add: digit_char_def of_char_of)
  then show ?thesis by (auto simp: isSpace_def)
qed

lemma nat_string_no_blanks: "c \<in> set (nat_string n) \<Longrightarrow> \<not> isSpace c"
proof (induction n rule: nat_string.induct)
  case (1 n)
  then show ?case by (subst (asm) (2) nat_string.simps) (auto simp: not_isSpace_digit split: if_splits)
qed

lemma plain_text_int [simp]: "plain_text int_decimal"
proof -
  have "\<not> isSpace CHR ''-''" by (simp add: isSpace_def)
  then have "\<not> isSpace c" if "c \<in> set (int_string v)" for c v
    using that nat_string_no_blanks by (auto simp: int_string_def split: if_splits)
  then show ?thesis by (simp add: plain_text_def TrimSpace_no_blanks)
qed

end
