(* ===== verification/Ledger_Fees.thy ===== *)
theory Ledger_Fees
  imports Ledger_Reservations Go_Service
begin

text \<open>
  Fees of a settlement, from \<^verbatim>\<open>services/ledger/internal/storage/postgres.go\<close>: the call of the fee service with its retries,
  the cache of fee rates it falls back to, and the account that collects the fees. The lemmas show
  that a fee is never negative, that the service is called at most three times, and that an outage of it never
  stops a settlement.
\<close>

section \<open>Fee rate cache\<close>

definition fifteen_minutes :: duration where
  "fifteen_minutes = 15 * 60 * nanos_per_second"

definition newFeeRateCache :: "duration \<Rightarrow> 'd feeRateCache" where
  "newFeeRateCache ttl = \<lparr>fc_ttl = (if ttl \<le> 0 then fifteen_minutes else ttl), fc_entries = []\<rparr>"

text \<open>\<open>storage.New\<close>: the store on top of a database, with an empty cache.\<close>

definition NewStore :: "'d ledger_db \<Rightarrow> 'd store_state" where
  "NewStore db = \<lparr>ss_db = db, ss_aborted = False, ss_step = 0, ss_feeCache = newFeeRateCache fifteen_minutes, ss_feeCalls = []\<rparr>"

definition feeRateCache_get :: "'d store_env \<Rightarrow> string \<Rightarrow> ('d, 'd feeRateCacheEntry option) store" where
  "feeRateCache_get E key s =
     (case map_of (fc_entries (ss_feeCache s)) key of
        None \<Rightarrow> (Inr None, s)
      | Some entry \<Rightarrow>
          bindM (Now E) (\<lambda>now t.
            if now > fe_expires entry
            then (Inr None, t\<lparr>ss_feeCache := (ss_feeCache t)\<lparr>fc_entries := AList.delete key (fc_entries (ss_feeCache t))\<rparr>\<rparr>)
            else (Inr (Some entry), t)) s)"

definition feeRateCache_set :: "'d store_env \<Rightarrow> string \<Rightarrow> 'd \<Rightarrow> string \<Rightarrow> ('d, unit) store" where
  "feeRateCache_set E key rate asset =
     bindM (Now E) (\<lambda>now t.
       (Inr (), t\<lparr>ss_feeCache := (ss_feeCache t)\<lparr>fc_entries :=
          AList.update key \<lparr>fe_rate = rate, fe_asset = asset, fe_expires = now + fc_ttl (ss_feeCache t)\<rparr>
            (fc_entries (ss_feeCache t))\<rparr>\<rparr>))"

definition feeRateCacheKey :: "'d store_env \<Rightarrow> uuid \<Rightarrow> string \<Rightarrow> string \<Rightarrow> string" where
  "feeRateCacheKey E accountID orderType asset =
     se_uuidString E accountID @ '':'' @ ToLower (TrimSpace orderType) @ '':'' @ ToUpper (TrimSpace asset)"

section \<open>Calling the fee service\<close>

fun code_String :: "grpc_code \<Rightarrow> string" where
  "code_String InvalidArgument = ''InvalidArgument''"
| "code_String NotFound = ''NotFound''"
| "code_String FailedPrecondition = ''FailedPrecondition''"
| "code_String Internal = ''Internal''"
| "code_String Unavailable = ''Unavailable''"
| "code_String DeadlineExceeded = ''DeadlineExceeded''"
| "code_String (OtherCode c) = c"

definition isFeeRetriable :: "go_error option \<Rightarrow> bool \<times> string" where
  "isFeeRetriable err =
     (case err of
        None \<Rightarrow> (False, ''none'')
      | Some e \<Rightarrow>
          if errors_Is e CtxDeadline then (True, ''timeout'')
          else case status_FromError e of
              Some c \<Rightarrow>
                if c = Unavailable then (True, ''unavailable'')
                else if c = DeadlineExceeded then (True, ''timeout'')
                else (False, code_String c)
            | None \<Rightarrow> (False, ''error''))"

definition backoffDuration :: "int \<Rightarrow> duration" where
  "backoffDuration n = (let base = 100 * 1000000 in if n \<le> 1 then base else base * n)"

definition callFee ::
  "(nat \<Rightarrow> CalculateFeesRequest \<Rightarrow> go_error + CalculateFeesResponse option) \<Rightarrow> CalculateFeesRequest
    \<Rightarrow> ('d, go_error + CalculateFeesResponse option) store" where
  "callFee client req s = (Inr (client (ss_step s) req), s\<lparr>ss_step := Suc (ss_step s), ss_feeCalls := ss_feeCalls s @ [req]\<rparr>)"

text \<open>The error of an attempt whose answer cannot be used.\<close>

definition feeError :: "go_error + CalculateFeesResponse option \<Rightarrow> go_error" where
  "feeError out = (case out of
     Inl e \<Rightarrow> e | Inr None \<Rightarrow> Errorf ''fee response missing'' [] | Inr (Some _) \<Rightarrow> Errorf ''fee asset missing'' [])"

definition acceptFee :: "'d::linordered_idom store_env \<Rightarrow> string \<Rightarrow> 'd \<Rightarrow> CalculateFeesResponse \<Rightarrow> ('d, 'd feeQuote) store" where
  "acceptFee E cacheKey notional resp =
     (case NewFromString (se_dec E) (cr_FeeAmount resp) of
        None \<Rightarrow> fail (Wrapf ''parse fee amount: %w'' decimal_error)
      | Some amount \<Rightarrow>
          if amount < 0 then fail (Errorf ''fee amount must be non-negative'' [])
          else
            bindM (if notional > 0 then
                     (let rate = DecDiv (se_dec E) amount notional in
                      if rate \<ge> 0 then feeRateCache_set E cacheKey rate (cr_FeeAsset resp) else ret ())
                   else ret ()) (\<lambda>_.
            ret \<lparr>fq_Asset = cr_FeeAsset resp, fq_Amount = amount\<rparr>))"

text \<open>The attempts numbered in the list; \<open>None\<close> when all of them failed with errors that can be retried.\<close>

fun feeAttempts ::
  "'d::linordered_idom store_env \<Rightarrow> (nat \<Rightarrow> CalculateFeesRequest \<Rightarrow> go_error + CalculateFeesResponse option) \<Rightarrow> CalculateFeesRequest
    \<Rightarrow> string \<Rightarrow> 'd \<Rightarrow> nat list \<Rightarrow> ('d, 'd feeQuote option) store" where
  "feeAttempts E client req cacheKey notional [] = ret None"
| "feeAttempts E client req cacheKey notional (_ # rest) =
     bindM (callFee client req) (\<lambda>out.
       case out of
         Inr (Some resp) \<Rightarrow>
           if TrimSpace (cr_FeeAsset resp) \<noteq> [] then bindM (acceptFee E cacheKey notional resp) (\<lambda>q. ret (Some q))
           else if \<not> fst (isFeeRetriable (Some (feeError out))) then fail (Wrapf ''calculate %s fee: %w'' (feeError out))
           else feeAttempts E client req cacheKey notional rest
       | _ \<Rightarrow>
           if \<not> fst (isFeeRetriable (Some (feeError out))) then fail (Wrapf ''calculate %s fee: %w'' (feeError out))
           else feeAttempts E client req cacheKey notional rest)"

definition feeRequest ::
  "'d store_env \<Rightarrow> uuid \<Rightarrow> string \<Rightarrow> string \<Rightarrow> string \<Rightarrow> 'd \<Rightarrow> 'd \<Rightarrow> CalculateFeesRequest" where
  "feeRequest E accountID symbol side orderType quantity price =
     \<lparr>cf_AccountId = se_uuidString E accountID, cf_Symbol = symbol, cf_Side = side, cf_OrderType = orderType,
      cf_Quantity = DecString (se_dec E) quantity, cf_Price = DecString (se_dec E) price\<rparr>"

definition feeFallback :: "'d::linordered_idom store_env \<Rightarrow> string \<Rightarrow> 'd \<Rightarrow> string \<Rightarrow> ('d, 'd feeQuote) store" where
  "feeFallback E cacheKey notional feeAsset =
     bindM (feeRateCache_get E cacheKey) (\<lambda>cached.
       case cached of
         Some entry \<Rightarrow>
           if notional > 0 then ret \<lparr>fq_Asset = fe_asset entry, fq_Amount = notional * fe_rate entry\<rparr>
           else ret \<lparr>fq_Asset = feeAsset, fq_Amount = 0\<rparr>
       | None \<Rightarrow> ret \<lparr>fq_Asset = feeAsset, fq_Amount = 0\<rparr>)"

definition calculateFee ::
  "'d::linordered_idom store_env \<Rightarrow> uuid \<Rightarrow> string \<Rightarrow> string \<Rightarrow> string \<Rightarrow> 'd \<Rightarrow> 'd \<Rightarrow> ('d, 'd feeQuote) store" where
  "calculateFee E accountID symbol rawSide rawType quantity price =
     (let side = ToLower (TrimSpace rawSide); orderType = ToLower (TrimSpace rawType) in
      if side \<noteq> ''buy'' \<and> side \<noteq> ''sell'' then fail (Errorf ''side must be buy or sell'' [])
      else if orderType \<noteq> ''maker'' \<and> orderType \<noteq> ''taker'' then fail (Errorf ''order_type must be maker or taker'' [])
      else case se_feeClient E of
          None \<Rightarrow> fail (Errorf ''fee client not configured'' [])
        | Some client \<Rightarrow>
            (let notional = quantity * price; feeAsset = quoteAsset symbol;
                 cacheKey = feeRateCacheKey E accountID orderType feeAsset in
             bindM (feeAttempts E client (feeRequest E accountID symbol side orderType quantity price) cacheKey notional [1, 2, 3]) (\<lambda>q.
             case q of Some quote \<Rightarrow> ret quote | None \<Rightarrow> feeFallback E cacheKey notional feeAsset)))"

section \<open>The fee account\<close>

definition feeAccountEmail :: string where
  "feeAccountEmail = ''fee@system.local''"

definition feeAccountType :: string where
  "feeAccountType = ''fee''"

definition getOrCreateFeeAccount :: "'d store_env \<Rightarrow> ('d, uuid) store" where
  "getOrCreateFeeAccount E =
     bindM (txStmt E sql_lock) (\<lambda>_.
     attempt (txStmt E (sql_account_by_type feeAccountType))
       (\<lambda>_.
         bindM (attempt (txStmt E (sql_user_by_email feeAccountEmail))
                  (\<lambda>err. if \<not> errors_Is err NoRows then fail err else txStmt E (sql_insert_user E feeAccountEmail))
                  ret) (\<lambda>userID.
         txStmt E (sql_insert_account E userID feeAccountType)))
       ret)"

definition GetFeeAccountID :: "'d store_env \<Rightarrow> ('d, uuid) store" where
  "GetFeeAccountID E = poolQuery E (sql_account_by_type feeAccountType)"

section \<open>Bounds\<close>

text \<open>The rates in the cache are not negative.\<close>

definition cache_ok :: "'d::linordered_idom feeRateCache \<Rightarrow> bool" where
  "cache_ok c \<longleftrightarrow> (\<forall>k e. map_of (fc_entries c) k = Some e \<longrightarrow> 0 \<le> fe_rate e)"

lemma cache_ok_new [simp]: "cache_ok (newFeeRateCache ttl)"
  by (simp add: cache_ok_def newFeeRateCache_def)

lemma wp_feeRateCache_get:
  assumes "\<And>r t. ss_db t = ss_db s \<Longrightarrow> ss_feeCalls t = ss_feeCalls s \<Longrightarrow> cache_ok (ss_feeCache s) \<longrightarrow> cache_ok (ss_feeCache t)
      \<Longrightarrow> (\<And>e. r = Some e \<Longrightarrow> map_of (fc_entries (ss_feeCache s)) key = Some e) \<Longrightarrow> Q r t"
  shows "wp (feeRateCache_get E key) Q X s"
  unfolding wp_def feeRateCache_get_def
  by (auto simp: bindM_def Now_def cache_ok_def split: option.splits intro!: assms)

lemma wp_feeRateCache_set:
  assumes "0 \<le> rate"
    and "\<And>t. ss_db t = ss_db s \<Longrightarrow> ss_feeCalls t = ss_feeCalls s \<Longrightarrow> cache_ok (ss_feeCache s) \<longrightarrow> cache_ok (ss_feeCache t) \<Longrightarrow> Q () t"
  shows "wp (feeRateCache_set E key rate asset) Q X s"
  unfolding wp_def feeRateCache_set_def
  using assms(1) by (auto simp: bindM_def Now_def cache_ok_def intro!: assms(2))

lemma wp_acceptFee:
  assumes "\<And>q t. ss_db t = ss_db s \<Longrightarrow> ss_feeCalls t = ss_feeCalls s \<Longrightarrow> cache_ok (ss_feeCache s) \<longrightarrow> cache_ok (ss_feeCache t)
      \<Longrightarrow> 0 \<le> fq_Amount q \<Longrightarrow> Q q t"
    and "\<And>e. X e s"
  shows "wp (acceptFee E key notional resp) Q X s"
  unfolding acceptFee_def Let_def
  by (cases "NewFromString (se_dec E) (cr_FeeAmount resp)")
    (auto intro!: wp_intro wp_feeRateCache_set assms)

lemma wp_callFee [wp_intro]:
  "(\<And>out t. ss_db t = ss_db s \<Longrightarrow> ss_feeCalls t = ss_feeCalls s @ [req] \<Longrightarrow> ss_feeCache t = ss_feeCache s
     \<Longrightarrow> out = client (ss_step s) req \<Longrightarrow> Q out t) \<Longrightarrow> wp (callFee client req) Q X s"
  by (simp add: wp_def callFee_def)

text \<open>What is the same in every attempt: tables and cache are kept, the request is repeated at most once per attempt.\<close>

definition fee_frame :: "CalculateFeesRequest \<Rightarrow> nat \<Rightarrow> 'd::linordered_idom store_state \<Rightarrow> 'd store_state \<Rightarrow> bool" where
  "fee_frame req n s t \<longleftrightarrow> ss_db t = ss_db s \<and> (\<exists>k \<le> n. ss_feeCalls t = ss_feeCalls s @ replicate k req)
     \<and> (cache_ok (ss_feeCache s) \<longrightarrow> cache_ok (ss_feeCache t))"

lemma fee_frame_Suc: "fee_frame req n t u \<Longrightarrow> ss_db t = ss_db s \<Longrightarrow> ss_feeCalls t = ss_feeCalls s @ [req]
    \<Longrightarrow> ss_feeCache t = ss_feeCache s \<Longrightarrow> fee_frame req (Suc n) s u"
  unfolding fee_frame_def by (metis Suc_le_mono append.assoc append_Cons append_Nil replicate_Suc)

lemma wp_feeAttempts:
  "wp (feeAttempts E client req key notional ns)
     (\<lambda>q t. fee_frame req (length ns) s t \<and> (\<forall>x. q = Some x \<longrightarrow> 0 \<le> fq_Amount x)) (\<lambda>e t. fee_frame req (length ns) s t) s"
proof (induction ns arbitrary: s)
  case Nil
  show ?case by (auto simp: fee_frame_def)
next
  case (Cons n ns)
  have base: "fee_frame req (Suc (length ns)) s t"
    if "ss_db t = ss_db s" "ss_feeCalls t = ss_feeCalls s @ [req]" "cache_ok (ss_feeCache s) \<longrightarrow> cache_ok (ss_feeCache t)" for t
    using that by (auto simp: fee_frame_def intro!: exI [of _ "Suc 0"])
  have again: "wp (feeAttempts E client req key notional ns)
     (\<lambda>q t. fee_frame req (Suc (length ns)) s t \<and> (\<forall>x. q = Some x \<longrightarrow> 0 \<le> fq_Amount x))
     (\<lambda>e t. fee_frame req (Suc (length ns)) s t) t"
    if "ss_db t = ss_db s" "ss_feeCalls t = ss_feeCalls s @ [req]" "ss_feeCache t = ss_feeCache s" for t
    by (rule wp_conseq [OF Cons.IH [of t]]) (auto intro: fee_frame_Suc that)
  show ?case
    by (auto split: sum.splits option.splits intro!: wp_intro wp_acceptFee again base)
qed

lemma feeFallback_wp:
  assumes "cache_ok (ss_feeCache s)"
    and "\<And>q t. ss_db t = ss_db s \<Longrightarrow> ss_feeCalls t = ss_feeCalls s \<Longrightarrow> cache_ok (ss_feeCache t) \<Longrightarrow> 0 \<le> fq_Amount q \<Longrightarrow> Q q t"
  shows "wp (feeFallback E key notional feeAsset) Q X s"
  unfolding feeFallback_def
  using assms(1) by (auto simp: cache_ok_def split: option.splits intro!: wp_intro wp_feeRateCache_get assms(2))

lemma wp_calculateFee:
  assumes "cache_ok (ss_feeCache s)"
  shows "wp (calculateFee E u symbol side ty quantity price)
    (\<lambda>q t. fee_frame (feeRequest E u symbol (ToLower (TrimSpace side)) (ToLower (TrimSpace ty)) quantity price) 3 s t \<and> 0 \<le> fq_Amount q)
    (\<lambda>e t. fee_frame (feeRequest E u symbol (ToLower (TrimSpace side)) (ToLower (TrimSpace ty)) quantity price) 3 s t) s"
proof -
  let ?req = "feeRequest E u symbol (ToLower (TrimSpace side)) (ToLower (TrimSpace ty)) quantity price"
  have refl: "fee_frame ?req 3 s s" by (auto simp: fee_frame_def)
  show ?thesis
  proof (cases "se_feeClient E")
    case None
    show ?thesis unfolding calculateFee_def Let_def None option.case by (intro wp_intro refl)
  next
    case (Some client)
    let ?key = "feeRateCacheKey E u (ToLower (TrimSpace ty)) (quoteAsset symbol)"
    have *: "wp (feeAttempts E client ?req ?key (quantity * price) [1, 2, 3])
       (\<lambda>q. wp (case q of Some quote \<Rightarrow> ret quote | None \<Rightarrow> feeFallback E ?key (quantity * price) (quoteAsset symbol))
          (\<lambda>q t. fee_frame ?req 3 s t \<and> 0 \<le> fq_Amount q) (\<lambda>e t. fee_frame ?req 3 s t))
       (\<lambda>e t. fee_frame ?req 3 s t) s"
    proof (rule wp_conseq [OF wp_feeAttempts], goal_cases)
      case (1 q t)
      then have f: "fee_frame ?req 3 s t" by (simp add: numeral_3_eq_3)
      show ?case
      proof (cases q)
        case None
        have "wp (feeFallback E ?key (quantity * price) (quoteAsset symbol)) (\<lambda>q t. fee_frame ?req 3 s t \<and> 0 \<le> fq_Amount q) (\<lambda>e t. fee_frame ?req 3 s t) t"
          using f assms by (intro feeFallback_wp) (auto simp: fee_frame_def)
        then show ?thesis using None by simp
      qed (use 1 f in simp)
    qed (simp add: numeral_3_eq_3)
    show ?thesis
      unfolding calculateFee_def Let_def Some option.case
      by (intro wp_intro refl) (rule *)
  qed
qed

text \<open>
  C20: A fee calculation sends the same request to the fee service at most three times and changes nothing but the rate cache; the
  fee it returns is never negative, and the cached rates stay non-negative. This holds for
  every behaviour of the fee service, whatever it answers.
\<close>

theorem calculateFee_bounds:
  assumes "cache_ok (ss_feeCache s)"
  shows "case calculateFee E u symbol side ty quantity price s of (r, t) \<Rightarrow>
     ss_db t = ss_db s \<and> cache_ok (ss_feeCache t) \<and>
     (\<exists>k \<le> 3. ss_feeCalls t = ss_feeCalls s @ replicate k
        (feeRequest E u symbol (ToLower (TrimSpace side)) (ToLower (TrimSpace ty)) quantity price)) \<and>
     (case r of Inr q \<Rightarrow> 0 \<le> fq_Amount q | Inl _ \<Rightarrow> True)"
  using wp_calculateFee [OF assms, of E u symbol side ty quantity price] assms
  by (auto simp: wp_def fee_frame_def split: prod.splits sum.splits)

theorem calculateFee_bounds_witness:
  "case calculateFee sample_store_env 10 ''BTC-USD'' ''buy'' ''maker'' 2 7 sample_store of (r, t) \<Rightarrow>
     r = Inr \<lparr>fq_Asset = ''USD'', fq_Amount = 1\<rparr> \<and> ss_db t = ss_db sample_store"
proof -
  have "fst (calculateFee sample_store_env 10 ''BTC-USD'' ''buy'' ''maker'' 2 7 sample_store) = Inr \<lparr>fq_Asset = ''USD'', fq_Amount = 1\<rparr>"
    by code_simp
  moreover have "cache_ok (ss_feeCache sample_store)" by (simp add: sample_store_def cache_ok_def)
  ultimately show ?thesis
    using calculateFee_bounds [of sample_store sample_store_env 10 "''BTC-USD''" "''buy''" "''maker''" 2 7]
    by (auto split: prod.splits)
qed

text \<open>
  An outage of the fee service never stops a settlement. If every call fails with an error that can be retried,
  \<open>calculateFee\<close> returns after exactly three calls: with the cached rate times the notional if there is an entry for this account, order type and quote
  asset that has not expired, and with a zero fee in the quote asset otherwise.
\<close>

theorem calculateFee_outage:
  assumes "se_feeClient E = Some client"
    and "\<And>n req. \<exists>e. client n req = Inl e \<and> fst (isFeeRetriable (Some e))"
    and "side = ''buy'' \<or> side = ''sell''" and "ty = ''maker'' \<or> ty = ''taker''" and "0 < quantity * price"
  shows "\<exists>t. calculateFee E u symbol side ty quantity price s =
     (Inr (case map_of (fc_entries (ss_feeCache s)) (feeRateCacheKey E u ty (quoteAsset symbol)) of
        None \<Rightarrow> \<lparr>fq_Asset = quoteAsset symbol, fq_Amount = 0\<rparr>
      | Some e \<Rightarrow> if se_clock E (ss_step s + 3) > fe_expires e then \<lparr>fq_Asset = quoteAsset symbol, fq_Amount = 0\<rparr>
                 else \<lparr>fq_Asset = fe_asset e, fq_Amount = quantity * price * fe_rate e\<rparr>), t)
     \<and> ss_feeCalls t = ss_feeCalls s @ replicate 3 (feeRequest E u symbol side ty quantity price)"
proof -
  have words: "ToLower (TrimSpace side) = side" "ToLower (TrimSpace ty) = ty"
    using assms(3,4) by (elim disjE; simp only:; code_simp)+
  have retry: "feeAttempts E client req key notional ns x =
      (Inr None, x\<lparr>ss_step := ss_step x + length ns, ss_feeCalls := ss_feeCalls x @ replicate (length ns) req\<rparr>)" for req key notional ns x
  proof (induction ns arbitrary: x)
    case (Cons n ns)
    obtain e where "client (ss_step x) req = Inl e" "fst (isFeeRetriable (Some e))" using assms(2) by blast
    then show ?case by (simp add: bindM_def callFee_def feeError_def Cons.IH)
  qed (simp add: ret_def)
  have guards: "\<not> (side \<noteq> ''buy'' \<and> side \<noteq> ''sell'')" "\<not> (ty \<noteq> ''maker'' \<and> ty \<noteq> ''taker'')" using assms(3,4) by auto
  show ?thesis
    using assms(5)
    by (auto simp: calculateFee_def words guards assms(1) Let_def bindM_def retry feeFallback_def feeRateCache_get_def Now_def ret_def
        eval_nat_numeral simp del: feeAttempts.simps split: option.splits)
qed

definition sample_outage_env :: "int store_env" where
  "sample_outage_env = sample_store_env\<lparr>se_feeClient := Some (\<lambda>_ _. Inl (StatusErr Unavailable ''down''))\<rparr>"

theorem calculateFee_outage_witness:
  "\<exists>t. calculateFee sample_outage_env 10 ''BTC-USD'' ''buy'' ''maker'' 2 7 sample_store = (Inr \<lparr>fq_Asset = quoteAsset ''BTC-USD'', fq_Amount = 0\<rparr>, t)"
  using calculateFee_outage [where E = sample_outage_env and client = "\<lambda>_ _. Inl (StatusErr Unavailable ''down'')" and side = "''buy''"
      and ty = "''maker''" and quantity = 2 and price = 7 and s = sample_store and u = 10 and symbol = "''BTC-USD''"]
  by (auto simp: sample_outage_env_def isFeeRetriable_def sample_store_def)

end
