(* ===== verification/Ledger_Settlement.thy ===== *)
theory Ledger_Settlement
  imports Ledger_Fees
begin

text \<open>
  Settlement of a trade, from \<^verbatim>\<open>services/ledger/internal/storage/postgres.go\<close>: the bookkeeping of processed events and
  \<open>ApplySettlement\<close>, with its phases as definitions of their own in the order of the code. The lemmas
  show that a settlement writes exactly the double entry of the trade, that it is applied once per trade
  whatever fails or is repeated, and that no operation of the store creates or destroys money.
\<close>

section \<open>Processed events\<close>

definition ledgerEventPrefix :: string where
  "ledgerEventPrefix = ''ledger:''"

definition ledgerEventKey :: "string \<Rightarrow> string" where
  "ledgerEventKey eventID =
     (let trimmed = TrimSpace eventID in
      if trimmed = [] then []
      else if HasPrefix trimmed ledgerEventPrefix then trimmed
      else ledgerEventPrefix @ trimmed)"

definition ledgerEventKeys :: "string \<Rightarrow> string list" where
  "ledgerEventKeys eventID =
     (let trimmed = TrimSpace eventID in
      if trimmed = [] then []
      else
        (let keys = AList.update trimmed () [] in
         if HasPrefix trimmed ledgerEventPrefix then
           (let raw = TrimPrefix trimmed ledgerEventPrefix in
            if raw \<noteq> [] then map fst (AList.update raw () keys) else map fst keys)
         else map fst (AList.update (ledgerEventPrefix @ trimmed) () keys)))"

definition insertProcessedEvent :: "'d store_env \<Rightarrow> string \<Rightarrow> ('d, bool) store" where
  "insertProcessedEvent E eventID =
     (let keys = ledgerEventKeys eventID in
      if keys = [] then ret False
      else bindM (txStmt E (sql_insert_events keys)) (\<lambda>rows. ret (rows > 0)))"

definition markEventProcessed :: "'d store_env \<Rightarrow> string \<Rightarrow> ('d, unit) store" where
  "markEventProcessed E eventID =
     (if ledgerEventKeys eventID = [] then ret ()
      else bindM (insertProcessedEvent E eventID) (\<lambda>_. ret ()))"

definition recordProcessedEvent :: "'d store_env \<Rightarrow> string \<Rightarrow> ('d, unit) store" where
  "recordProcessedEvent E eventID =
     (if ledgerEventKeys eventID = [] then ret ()
      else withTx E (bindM (insertProcessedEvent E eventID) (\<lambda>_. ret (TxCommit ()))))"

definition isEventProcessed :: "'d store_env \<Rightarrow> string \<Rightarrow> ('d, bool) store" where
  "isEventProcessed E eventID =
     (let keys = ledgerEventKeys eventID in
      if keys = [] then ret False else txStmt E (sql_event_exists keys))"

section \<open>Phases of a settlement\<close>

text \<open>What each side had to reserve for the trade: maker asset and amount, taker asset and amount.\<close>

definition reservedSides :: "string \<Rightarrow> string \<Rightarrow> string \<Rightarrow> 'd \<Rightarrow> 'd \<Rightarrow> (string \<times> 'd) \<times> (string \<times> 'd)" where
  "reservedSides makerSide base quote quantity notional =
     (if makerSide = ''buy'' then ((quote, notional), (base, quantity)) else ((base, quantity), (quote, notional)))"

definition addCover :: "string \<Rightarrow> 'd::linordered_idom \<Rightarrow> (string \<times> 'd) list \<Rightarrow> (string \<times> 'd) list" where
  "addCover key cover m = (if cover > 0 then AList.update key cover m else m)"

definition forcedKeys :: "uuid \<Rightarrow> 'd::linordered_idom \<Rightarrow> string \<Rightarrow> string list \<Rightarrow> string list" where
  "forcedKeys orderID amount key forced = (if orderID = uuid_Nil \<and> amount > 0 then key # forced else forced)"

text \<open>
  Whether a debit may draw on locked funds, and what is left of the covers after it; \<open>lockedFlags\<close> is the
  loop over the entries.
\<close>

definition lockedFlag ::
  "(uuid \<Rightarrow> string) \<Rightarrow> string list \<Rightarrow> (string \<times> 'd::linordered_idom) list \<Rightarrow> 'd pendingEntry \<Rightarrow> bool \<times> (string \<times> 'd) list" where
  "lockedFlag str forced remaining entry =
     (let key = ledgerKey str (pe_AccountID entry) (pe_Asset entry) in
      if pe_EntryType entry \<noteq> ''debit'' \<or> pe_Amount entry \<le> 0 then (False, remaining)
      else case map_of remaining key of
          None \<Rightarrow> (List.member forced key, remaining)
        | Some left \<Rightarrow>
            if left \<le> 0 then (List.member forced key, remaining)
            else
              (let consume = (if pe_Amount entry < left then pe_Amount entry else left) in
               (True,
                if consume > 0 then
                  if left - consume \<le> 0 then AList.delete key remaining else AList.update key (left - consume) remaining
                else remaining)))"

fun lockedFlags ::
  "(uuid \<Rightarrow> string) \<Rightarrow> string list \<Rightarrow> (string \<times> 'd::linordered_idom) list \<Rightarrow> 'd pendingEntry list
    \<Rightarrow> bool list \<times> (string \<times> 'd) list" where
  "lockedFlags str forced remaining [] = ([], remaining)"
| "lockedFlags str forced remaining (entry # entries) =
     (case lockedFlag str forced remaining entry of (flag, remaining') \<Rightarrow>
      case lockedFlags str forced remaining' entries of (flags, final) \<Rightarrow> (flag # flags, final))"

definition reservationConsumed :: "(string \<times> 'd::linordered_idom) list \<Rightarrow> (string \<times> 'd) list \<Rightarrow> (string \<times> 'd) list" where
  "reservationConsumed initial remaining =
     map (\<lambda>(key, init). (key,
       let consumed = init - (case map_of remaining key of None \<Rightarrow> 0 | Some x \<Rightarrow> x) in
       if consumed < 0 then 0 else consumed)) initial"

type_synonym 'd account_map = "(string \<times> 'd LedgerAccount) list"

definition lookupAccount ::
  "'d::linordered_idom store_env \<Rightarrow> 'd account_map \<Rightarrow> 'd pendingEntry \<Rightarrow> ('d, 'd LedgerAccount \<times> 'd account_map) store" where
  "lookupAccount E m entry =
     (let key = ledgerKey (se_uuidString E) (pe_AccountID entry) (pe_Asset entry) in
      case map_of m key of
        Some acct \<Rightarrow> ret (acct, m)
      | None \<Rightarrow>
          bindM (getOrCreateLedgerAccountForUpdate E (pe_AccountID entry) (pe_Asset entry)) (\<lambda>acct.
          ret (acct, AList.update key acct m)))"

definition loadAccount ::
  "'d::linordered_idom store_env \<Rightarrow> 'd account_map \<times> 'd pendingEntry list \<Rightarrow> 'd pendingEntry
    \<Rightarrow> ('d, 'd account_map \<times> 'd pendingEntry list) store" where
  "loadAccount E st entry =
     bindM (lookupAccount E (fst st) entry) (\<lambda>(acct, m).
     ret (m, snd st @ [entry\<lparr>pe_LedgerAccountID := la_ID acct\<rparr>]))"

definition applyBalance ::
  "'d::linordered_idom store_env \<Rightarrow> 'd account_map \<Rightarrow> 'd pendingEntry \<times> bool \<Rightarrow> ('d, 'd account_map) store" where
  "applyBalance E m flagged =
     (case flagged of (entry, useLocked) \<Rightarrow>
      if pe_Amount entry \<le> 0 then ret m
      else
        bindM (lookupAccount E m entry) (\<lambda>(acct, m').
        case applyEntry acct (pe_EntryType entry) (pe_Amount entry) useLocked of
          (Some err, _) \<Rightarrow> fail err
        | (None, acct') \<Rightarrow> ret (AList.update (ledgerKey (se_uuidString E) (pe_AccountID entry) (pe_Asset entry)) acct' m')))"

definition consumeCovered ::
  "'d::linordered_idom store_env \<Rightarrow> 'd \<Rightarrow> (string \<times> 'd) list \<Rightarrow> string \<Rightarrow> uuid \<Rightarrow> string \<Rightarrow> ('d, unit) store" where
  "consumeCovered E cover consumedMap key orderID asset =
     (if cover > 0 then
        (let consumed = (case map_of consumedMap key of None \<Rightarrow> 0 | Some x \<Rightarrow> x) in
         if consumed > 0 then consumeReservation E orderID asset consumed else ret ())
      else ret ())"

definition writeAccount ::
  "'d store_env \<Rightarrow> time \<Rightarrow> 'd LedgerAccount list \<Rightarrow> string \<times> 'd LedgerAccount \<Rightarrow> ('d, 'd LedgerAccount list) store" where
  "writeAccount E now written keyed =
     (let acct = (snd keyed)\<lparr>la_UpdatedAt := now\<rparr> in
      bindM (txStmt E (sql_update_balances (la_BalanceAvailable acct) (la_BalanceLocked acct) now (la_ID acct))) (\<lambda>_.
      ret (written @ [acct])))"

definition settledEntry :: "uuid \<Rightarrow> time \<Rightarrow> uuid \<Rightarrow> 'd pendingEntry \<Rightarrow> 'd LedgerEntry" where
  "settledEntry tradeID now entryID entry =
     \<lparr>le_ID = entryID, le_LedgerAccountID = pe_LedgerAccountID entry, le_AccountID = pe_AccountID entry,
      le_Asset = pe_Asset entry, le_EntryType = pe_EntryType entry, le_Amount = pe_Amount entry,
      le_ReferenceType = referenceTypeTrade, le_ReferenceID = tradeID, le_CreatedAt = now\<rparr>"

text \<open>\<open>None\<close> when an entry of the trade turns out to exist already.\<close>

fun insertEntries ::
  "'d::linordered_idom store_env \<Rightarrow> uuid \<Rightarrow> time \<Rightarrow> 'd pendingEntry list \<Rightarrow> ('d, 'd LedgerEntry list option) store" where
  "insertEntries E tradeID now [] = ret (Some [])"
| "insertEntries E tradeID now (entry # entries) =
     bindM (NewUUID E) (\<lambda>entryID.
     attempt (txStmt E (sql_insert_entry E entryID (pe_LedgerAccountID entry) (pe_EntryType entry) (pe_Amount entry)
                          referenceTypeTrade tradeID))
       (\<lambda>err. if isUniqueViolation err then ret None else fail err)
       (\<lambda>_. bindM (insertEntries E tradeID now entries) (\<lambda>rest.
            ret (map_option (\<lambda>es. settledEntry tradeID now entryID entry # es) rest))))"

definition alreadyProcessed :: "'d SettlementResult" where
  "alreadyProcessed = \<lparr>sres_EntryIDs = [], sres_Entries = [], sres_Balances = [], sres_AlreadyProcessed = True, sres_FeeAccountID = uuid_Nil\<rparr>"

definition finishSettlement ::
  "'d store_env \<Rightarrow> 'd SettlementRequest \<Rightarrow> uuid \<Rightarrow> 'd LedgerAccount list \<Rightarrow> 'd LedgerEntry list
    \<Rightarrow> ('d, ('d store_state, 'd SettlementResult) tx_end) store" where
  "finishSettlement E req feeAccountID balances entries =
     bindM (if sr_EventID req \<noteq> [] then markEventProcessed E (sr_EventID req) else ret ()) (\<lambda>_.
     ret (TxCommit \<lparr>sres_EntryIDs = map le_ID entries, sres_Entries = entries, sres_Balances = balances,
                    sres_AlreadyProcessed = False, sres_FeeAccountID = feeAccountID\<rparr>))"

text \<open>From the entries of the trade to the commit: covers, flags, accounts, balances, reservations, rows.\<close>

definition settleEntries ::
  "'d::linordered_idom store_env \<Rightarrow> 'd SettlementRequest \<Rightarrow> (string \<times> 'd) \<times> (string \<times> 'd) \<Rightarrow> uuid \<Rightarrow> 'd pendingEntry list
    \<Rightarrow> ('d, ('d store_state, 'd SettlementResult) tx_end) store" where
  "settleEntries E req reserved feeAccountID pending =
     (case reserved of ((makerAsset, makerAmount), (takerAsset, takerAmount)) \<Rightarrow>
      bindM (reservationCover E (sr_MakerOrderID req) makerAsset makerAmount) (\<lambda>makerCover.
      bindM (reservationCover E (sr_TakerOrderID req) takerAsset takerAmount) (\<lambda>takerCover.
      let str = se_uuidString E;
          makerKey = ledgerKey str (sr_MakerAccountID req) makerAsset;
          takerKey = ledgerKey str (sr_TakerAccountID req) takerAsset;
          initial = addCover takerKey takerCover (addCover makerKey makerCover []);
          forced = forcedKeys (sr_TakerOrderID req) takerAmount takerKey (forcedKeys (sr_MakerOrderID req) makerAmount makerKey []);
          (flags, remaining) = lockedFlags str forced initial pending;
          consumed = reservationConsumed initial remaining in
      bindM (foldM (loadAccount E) pending ([], [])) (\<lambda>(accountMap, pending').
      bindM (foldM (applyBalance E) (zip pending flags) accountMap) (\<lambda>accountMap'.
      bindM (consumeCovered E makerCover consumed makerKey (sr_MakerOrderID req) makerAsset) (\<lambda>_.
      bindM (consumeCovered E takerCover consumed takerKey (sr_TakerOrderID req) takerAsset) (\<lambda>_.
      bindM (Now E) (\<lambda>now.
      bindM (foldM (writeAccount E now) accountMap' []) (\<lambda>balances.
      bindM (insertEntries E (sr_TradeID req) now pending') (\<lambda>inserted.
      case inserted of
        None \<Rightarrow> ret (TxRollback (bindM (recordProcessedEvent E (sr_EventID req)) (\<lambda>_. ret alreadyProcessed)))
      | Some entries \<Rightarrow> finishSettlement E req feeAccountID balances entries))))))))))"

definition commitDuplicate :: "'d store_env \<Rightarrow> string \<Rightarrow> ('d, ('d store_state, 'd SettlementResult) tx_end) store" where
  "commitDuplicate E eventID = bindM (markEventProcessed E eventID) (\<lambda>_. ret (TxCommit alreadyProcessed))"

definition settleTx ::
  "'d::linordered_idom store_env \<Rightarrow> 'd SettlementRequest \<Rightarrow> string \<Rightarrow> string \<Rightarrow> string \<Rightarrow> 'd feeQuote \<Rightarrow> 'd feeQuote
    \<Rightarrow> ('d, ('d store_state, 'd SettlementResult) tx_end) store" where
  "settleTx E req makerSide base quote makerFee takerFee =
     bindM (if sr_EventID req \<noteq> [] then isEventProcessed E (sr_EventID req) else ret False) (\<lambda>processed.
     if processed then commitDuplicate E (sr_EventID req)
     else
       bindM (CheckDuplicateSettlement E (sr_TradeID req)) (\<lambda>duplicate.
       if duplicate then commitDuplicate E (sr_EventID req)
       else
         bindM (getOrCreateFeeAccount E) (\<lambda>feeAccountID.
         let notional = sr_Price req * sr_Quantity req;
             pending = buildSettlementEntries (se_uuidString E) (sr_MakerAccountID req) (sr_TakerAccountID req) feeAccountID
                         makerSide base quote notional (sr_Quantity req) makerFee takerFee in
         if pending = [] then fail (Errorf ''no settlement entries generated'' [])
         else settleEntries E req (reservedSides makerSide base quote (sr_Quantity req) notional) feeAccountID pending)))"

definition ApplySettlement ::
  "'d::linordered_idom store_env \<Rightarrow> 'd SettlementRequest \<Rightarrow> ('d, 'd SettlementResult) store" where
  "ApplySettlement E req =
     (if sr_Price req \<le> 0 \<or> sr_Quantity req \<le> 0 then fail (Errorf ''price and quantity must be positive'' [])
      else case splitSymbol (sr_Symbol req) of
          Inl err \<Rightarrow> fail err
        | Inr (base, quote) \<Rightarrow>
            if se_feeClient E = None then fail (Errorf ''fee client not configured'' [])
            else
              (let makerSide = ToLower (TrimSpace (sr_MakerSide req)) in
               if makerSide \<noteq> ''buy'' \<and> makerSide \<noteq> ''sell'' then fail (Errorf ''maker_side must be buy or sell'' [])
               else
                 bindM (calculateFee E (sr_MakerAccountID req) (sr_Symbol req) makerSide ''maker'' (sr_Quantity req) (sr_Price req)) (\<lambda>makerFee.
                 bindM (calculateFee E (sr_TakerAccountID req) (sr_Symbol req) (oppositeSide makerSide) ''taker'' (sr_Quantity req) (sr_Price req)) (\<lambda>takerFee.
                 withTx E (settleTx E req makerSide base quote makerFee takerFee)))))"

section \<open>What the phases do\<close>

text \<open>The tables of the ledger proper, without users, accounts and processed events.\<close>

definition same_ledger :: "'d ledger_db \<Rightarrow> 'd ledger_db \<Rightarrow> bool" where
  "same_ledger db db' \<longleftrightarrow> t_ledger_accounts db' = t_ledger_accounts db \<and> t_ledger_entries db' = t_ledger_entries db
     \<and> t_reservations db' = t_reservations db"

lemma same_ledger_refl [simp, intro]: "same_ledger db db"
  by (simp add: same_ledger_def)

lemma same_ledger_trans: "same_ledger a b \<Longrightarrow> same_ledger b c \<Longrightarrow> same_ledger a c"
  by (simp add: same_ledger_def)

lemma same_ledger_inv: "same_ledger db db' \<Longrightarrow> ledger_inv db \<Longrightarrow> ledger_inv db'"
  by (simp add: same_ledger_def ledger_inv_def entries_ok_def)

definition events_marked :: "string \<Rightarrow> 'd ledger_db \<Rightarrow> bool" where
  "events_marked eventID db \<longleftrightarrow> set (ledgerEventKeys eventID) \<subseteq> set (t_processed_events db)"

lemma wp_insertProcessedEvent:
  assumes "\<And>r t. same_ledger (ss_db s) (ss_db t) \<Longrightarrow> set (t_processed_events (ss_db s)) \<subseteq> set (t_processed_events (ss_db t))
      \<Longrightarrow> events_marked eventID (ss_db t) \<Longrightarrow> Q r t"
    and "\<And>e t. X e t"
  shows "wp (insertProcessedEvent E eventID) Q X s"
  unfolding insertProcessedEvent_def Let_def
  by (intro wp_intro wp_txStmt assms)
    (auto simp: events_marked_def sql_insert_events_def same_ledger_def Let_def)

lemma wp_markEventProcessed:
  assumes "\<And>t. same_ledger (ss_db s) (ss_db t) \<Longrightarrow> set (t_processed_events (ss_db s)) \<subseteq> set (t_processed_events (ss_db t))
      \<Longrightarrow> events_marked eventID (ss_db t) \<Longrightarrow> Q () t"
    and "\<And>e t. X e t"
  shows "wp (markEventProcessed E eventID) Q X s"
  unfolding markEventProcessed_def
  by (intro wp_intro wp_insertProcessedEvent assms) (auto simp: events_marked_def)

lemma wp_recordProcessedEvent:
  assumes "\<And>t. same_ledger (ss_db s) (ss_db t) \<Longrightarrow> events_marked eventID (ss_db t) \<Longrightarrow> Q () t"
    and "\<And>e t. ss_db t = ss_db s \<Longrightarrow> X e t"
  shows "wp (recordProcessedEvent E eventID) Q X s"
  unfolding recordProcessedEvent_def
  by (intro wp_intro wp_insertProcessedEvent) (auto simp: events_marked_def intro: assms)

lemma wp_isEventProcessed:
  assumes "\<And>r t. ss_db t = ss_db s \<Longrightarrow> (r \<longleftrightarrow> set (ledgerEventKeys eventID) \<inter> set (t_processed_events (ss_db s)) \<noteq> {}) \<Longrightarrow> Q r t"
    and "\<And>e t. X e t"
  shows "wp (isEventProcessed E eventID) Q X s"
  unfolding isEventProcessed_def Let_def
  by (intro wp_intro wp_txStmt assms) (auto simp: sql_event_exists_def list_ex_iff)

definition settled :: "uuid \<Rightarrow> 'd ledger_db \<Rightarrow> bool" where
  "settled tradeID db \<longleftrightarrow> (\<exists>e \<in> set (t_ledger_entries db). er_reference_type e = referenceTypeTrade \<and> er_reference_id e = tradeID)"

lemma wp_CheckDuplicateSettlement:
  assumes "\<And>r t. ss_db t = ss_db s \<Longrightarrow> (r \<longleftrightarrow> settled tradeID (ss_db s)) \<Longrightarrow> Q r t" and "\<And>e t. X e t"
  shows "wp (CheckDuplicateSettlement E tradeID) Q X s"
  unfolding CheckDuplicateSettlement_def
  by (intro wp_txStmt assms) (auto simp: sql_entry_exists_def settled_def list_ex_iff)

lemma wp_getOrCreateFeeAccount:
  assumes "\<And>u t. same_ledger (ss_db s) (ss_db t) \<Longrightarrow> t_processed_events (ss_db t) = t_processed_events (ss_db s) \<Longrightarrow> Q u t"
    and "\<And>e t. X e t"
  shows "wp (getOrCreateFeeAccount E) Q X s"
  unfolding getOrCreateFeeAccount_def
  by (intro wp_intro wp_txStmt assms)
    (auto simp: same_ledger_def sql_account_by_type_def sql_user_by_email_def sql_insert_user_def sql_insert_account_def Let_def
      split: list.splits option.splits if_splits)

lemma wp_reservationCover:
  assumes "exact_text (se_dec E)" and "\<And>c t. ss_db t = ss_db s \<Longrightarrow> Q c t" and "\<And>e t. X e t"
  shows "wp (reservationCover E orderID asset desired) Q X s"
  unfolding reservationCover_def Let_def
  by (intro wp_intro wp_getReservationForUpdate [OF assms(1)] assms(2-3)) simp_all

text \<open>Consuming a reservation changes the reservations only, and keeps them within their bounds.\<close>

definition consumes :: "'d::linordered_idom ledger_db \<Rightarrow> 'd ledger_db \<Rightarrow> bool" where
  "consumes db db' \<longleftrightarrow> t_ledger_accounts db' = t_ledger_accounts db \<and> t_ledger_entries db' = t_ledger_entries db
     \<and> t_processed_events db' = t_processed_events db \<and> (ledger_inv db \<longrightarrow> ledger_inv db')"

lemma consumes_refl [simp, intro]: "consumes db db"
  by (simp add: consumes_def)

lemma wp_consumeReservation:
  assumes "exact_text (se_dec E)" and "\<And>t. consumes (ss_db s) (ss_db t) \<Longrightarrow> Q () t" and "\<And>e t. X e t"
  shows "wp (consumeReservation E orderID asset amount) Q X s"
  unfolding consumeReservation_def Let_def
  by (intro wp_intro wp_getReservationForUpdate [OF assms(1)] wp_updateReservation assms(2-3))
    (auto simp: consumes_def intro: ledger_inv_writes_reservation)

lemma wp_consumeCovered:
  assumes "exact_text (se_dec E)" and "\<And>t. consumes (ss_db s) (ss_db t) \<Longrightarrow> Q () t" and "\<And>e t. X e t"
  shows "wp (consumeCovered E cover m key orderID asset) Q X s"
  unfolding consumeCovered_def Let_def
  by (intro wp_intro wp_consumeReservation [OF assms(1)] assms(2-3)) simp_all

subsection \<open>Loading the accounts\<close>

text \<open>The account map holds accounts under their own keys; after loading, they are rows of the table.\<close>

definition keyed :: "(uuid \<Rightarrow> string) \<Rightarrow> 'd account_map \<Rightarrow> bool" where
  "keyed str m \<longleftrightarrow> distinct (map fst m) \<and> (\<forall>(k, a) \<in> set m. k = ledgerKey str (la_AccountID a) (la_Asset a))"

definition loaded :: "'d::linordered_idom store_env \<Rightarrow> 'd ledger_db \<Rightarrow> 'd pendingEntry list \<Rightarrow> 'd account_map \<times> 'd pendingEntry list \<Rightarrow> 'd ledger_db \<Rightarrow> bool" where
  "loaded E db es st db' \<longleftrightarrow>
     opens db db' \<and> keyed (se_uuidString E) (fst st) \<and> snd ` set (fst st) \<subseteq> set (t_ledger_accounts db') \<and>
     list_all (\<lambda>e. entry_key (se_uuidString E) e \<in> set (map fst (fst st))) es \<and>
     list_all2 (\<lambda>e e'. \<exists>a. map_of (fst st) (entry_key (se_uuidString E) e) = Some a \<and> e' = e\<lparr>pe_LedgerAccountID := la_ID a\<rparr>) es (snd st)"

lemma set_update_subset: "set (AList.update k v m) \<subseteq> insert (k, v) (set m)"
  by (induction m) auto

lemma keyed_update:
  "keyed str m \<Longrightarrow> k = ledgerKey str (la_AccountID a) (la_Asset a) \<Longrightarrow> keyed str (AList.update k a m)"
  using set_update_subset [of k a m] by (auto simp: keyed_def distinct_update)

lemma opens_rows: "opens db db' \<Longrightarrow> set (t_ledger_accounts db) \<subseteq> set (t_ledger_accounts db')"
  by (auto simp: opens_def)

lemma wp_lookupAccount:
  assumes "exact_text (se_dec E)" and "keyed (se_uuidString E) m" and "snd ` set m \<subseteq> set (t_ledger_accounts (ss_db s))"
    and "\<And>acct m' t. opens (ss_db s) (ss_db t) \<Longrightarrow> keyed (se_uuidString E) m' \<Longrightarrow> snd ` set m' \<subseteq> set (t_ledger_accounts (ss_db t))
      \<Longrightarrow> map_of m' (entry_key (se_uuidString E) e) = Some acct
      \<Longrightarrow> (\<And>k a. map_of m k = Some a \<Longrightarrow> map_of m' k = Some a) \<Longrightarrow> Q (acct, m') t"
    and "\<And>e t. X e t"
  shows "wp (lookupAccount E m e) Q X s"
proof (cases "map_of m (entry_key (se_uuidString E) e)")
  case (Some acct)
  then show ?thesis using assms(2-4) by (simp add: lookupAccount_def Let_def entry_key_def)
next
  case None
  have "wp (getOrCreateLedgerAccountForUpdate E (pe_AccountID e) (pe_Asset e))
     (\<lambda>acct. wp (ret (acct, AList.update (entry_key (se_uuidString E) e) acct m)) Q X) X s"
    unfolding wp_ret
  proof (rule wp_getOrCreateLedgerAccountForUpdate [OF assms(1)], goal_cases)
    case (1 acct t)
    have "keyed (se_uuidString E) (AList.update (entry_key (se_uuidString E) e) acct m)"
      using assms(2) 1 by (intro keyed_update) (simp_all add: entry_key_def)
    moreover have "snd ` set (AList.update (entry_key (se_uuidString E) e) acct m) \<subseteq> set (t_ledger_accounts (ss_db t))"
      using assms(3) opens_rows [OF 1(4)] 1(1) set_update_subset [of "entry_key (se_uuidString E) e" acct m] by fastforce
    ultimately show ?case using 1 None by (intro assms(4)) auto
  qed (rule assms(5))
  then show ?thesis using None by (simp add: lookupAccount_def Let_def entry_key_def)
qed

lemma loaded_step:
  assumes "loaded E db es (m, ps) db1" and "opens db1 db2" and "keyed (se_uuidString E) m'"
    and "snd ` set m' \<subseteq> set (t_ledger_accounts db2)" and "map_of m' (entry_key (se_uuidString E) e) = Some acct"
    and "\<And>k a. map_of m k = Some a \<Longrightarrow> map_of m' k = Some a"
  shows "loaded E db (es @ [e]) (m', ps @ [e\<lparr>pe_LedgerAccountID := la_ID acct\<rparr>]) db2"
proof -
  have keys: "set (map fst m) \<subseteq> set (map fst m')"
    using assms(6) by (metis list.set_map map_of_eq_None_iff not_Some_eq subsetI)
  have "entry_key (se_uuidString E) e \<in> set (map fst m')"
    using assms(5) by (metis list.set_map map_of_eq_None_iff option.distinct(1))
  with keys have "list_all (\<lambda>e. entry_key (se_uuidString E) e \<in> set (map fst m')) (es @ [e])"
    using assms(1) by (auto simp: loaded_def list_all_iff)
  moreover have "list_all2 (\<lambda>e e'. \<exists>a. map_of m' (entry_key (se_uuidString E) e) = Some a \<and> e' = e\<lparr>pe_LedgerAccountID := la_ID a\<rparr>)
      (es @ [e]) (ps @ [e\<lparr>pe_LedgerAccountID := la_ID acct\<rparr>])"
    using assms(1,5,6) unfolding loaded_def fst_conv snd_conv
    by (auto intro!: list_all2_appendI intro: list_all2_mono)
  ultimately show ?thesis
    using assms(1-4) opens_trans by (auto simp: loaded_def)
qed

lemma wp_loadAccounts:
  assumes "exact_text (se_dec E)"
    and "\<And>st t. loaded E (ss_db s) es st (ss_db t) \<Longrightarrow> Q st t" and "\<And>e t. X e t"
  shows "wp (foldM (loadAccount E) es ([], [])) Q X s"
proof (rule wp_conseq [where Q = "\<lambda>st t. loaded E (ss_db s) es st (ss_db t)" and X = X])
  show "wp (foldM (loadAccount E) es ([], [])) (\<lambda>st t. loaded E (ss_db s) es st (ss_db t)) X s"
  proof (rule wp_foldM [where I = "\<lambda>es st t. loaded E (ss_db s) es st (ss_db t)"], goal_cases)
    case 1
    show ?case by (simp add: loaded_def keyed_def)
  next
    case (2 ds x rest acc t)
    obtain m ps where acc: "acc = (m, ps)" by (cases acc)
    from 2(2) have "keyed (se_uuidString E) m" "snd ` set m \<subseteq> set (t_ledger_accounts (ss_db t))"
      by (simp_all add: acc loaded_def)
    then show ?case
      unfolding loadAccount_def acc fst_conv snd_conv wp_bindM
      by (rule wp_lookupAccount [OF assms(1)]) (use 2(2) in \<open>simp_all add: acc assms(3) loaded_step\<close>)
  qed
qed (simp_all add: assms(2,3))

subsection \<open>Applying the entries\<close>

definition same_account :: "string \<times> 'd LedgerAccount \<Rightarrow> string \<times> 'd LedgerAccount \<Rightarrow> bool" where
  "same_account x y \<longleftrightarrow> fst y = fst x \<and> la_ID (snd y) = la_ID (snd x) \<and> la_AccountID (snd y) = la_AccountID (snd x)
     \<and> la_Asset (snd y) = la_Asset (snd x)"

lemma list_all2_same_account_refl [simp]: "list_all2 same_account m m"
  by (simp add: list_all2_same same_account_def)

lemma update_same_account:
  assumes "list_all2 same_account m0 m" and "map_of m k = Some a" and "distinct (map fst m)"
    and "la_ID a' = la_ID a" "la_AccountID a' = la_AccountID a" "la_Asset a' = la_Asset a"
  shows "list_all2 same_account m0 (AList.update k a' m)"
    and "rows_sum P (map snd (AList.update k a' m)) =
      rows_sum P (map snd m) + (if P (la_AccountID a) (ToUpper (la_Asset a)) then acct_total a' - acct_total a else 0)"
    and "map fst (AList.update k a' m) = map fst m"
  using assms
proof (induction m0 m rule: list_all2_induct)
  case (Cons x xs y ys)
  {
    case 1
    obtain k1 a1 where y: "y = (k1, a1)" by (cases y)
    show ?case
    proof (cases "k1 = k")
      case True
      with 1 y have "same_account x (k, a')" using Cons.hyps(1) by (simp add: same_account_def)
      with True y Cons.hyps(2) show ?thesis by simp
    next
      case False
      with 1 y Cons.IH(1) Cons.hyps(1) show ?thesis by simp
    qed
  next
    case 2
    with Cons show ?case by (cases y) (auto simp: algebra_simps split: if_splits)
  next
    case 3
    with Cons show ?case by (cases y) (auto split: if_splits)
  }
qed simp_all

definition applied :: "'d::linordered_idom account_map \<Rightarrow> 'd pendingEntry list \<Rightarrow> 'd account_map \<Rightarrow> bool" where
  "applied m0 es m \<longleftrightarrow> list_all2 same_account m0 m \<and> list_all acct_nonneg (map snd m) \<and>
     (\<forall>P. rows_sum P (map snd m) = rows_sum P (map snd m0) + pe_sum P es)"

lemma list_all2_same_account_fst: "list_all2 same_account m0 m \<Longrightarrow> map fst m = map fst m0"
  by (induction m0 m rule: list_all2_induct) (auto simp: same_account_def)

lemma keyed_same_account:
  assumes "list_all2 same_account m0 m" and "keyed str m0"
  shows "keyed str m"
proof -
  have "\<forall>(k, a) \<in> set m0. k = ledgerKey str (la_AccountID a) (la_Asset a)" using assms(2) by (simp add: keyed_def)
  with assms(1) have "\<forall>(k, a) \<in> set m. k = ledgerKey str (la_AccountID a) (la_Asset a)"
    by (induction m0 m rule: list_all2_induct) (auto simp: same_account_def split_beta)
  then show ?thesis using assms list_all2_same_account_fst [OF assms(1)] by (simp add: keyed_def)
qed

lemma applied_step:
  assumes "uuid_text str" and "keyed str m0" and "applied m0 es m"
    and "map_of m (entry_key str e) = Some acct" and "applyEntry acct (pe_EntryType e) (pe_Amount e) l = (None, acct')"
  shows "applied m0 (es @ [e]) (AList.update (entry_key str e) acct' m)"
proof -
  have same: "list_all2 same_account m0 m" and nn: "list_all acct_nonneg (map snd m)" using assms(3) by (auto simp: applied_def)
  have keyed: "keyed str m" by (rule keyed_same_account [OF same assms(2)])
  then have dist: "distinct (map fst m)" and "entry_key str e = ledgerKey str (la_AccountID acct) (la_Asset acct)"
    using map_of_SomeD [OF assms(4)] by (auto simp: keyed_def)
  then have key: "la_AccountID acct = pe_AccountID e" "ToUpper (la_Asset acct) = ToUpper (pe_Asset e)"
    using ledgerKey_inject [OF assms(1)] by (simp_all add: entry_key_def)
  note upd = update_same_account [OF same assms(4) dist applyEntry_identity(1-3) [OF assms(5)]]
  have "acct_total acct' - acct_total acct = signed e"
    using applyEntry_None(2) [OF assms(5)] by (simp add: signed_def)
  moreover have "list_all acct_nonneg (map snd (AList.update (entry_key str e) acct' m))"
    using nn applyEntry_None(1) [OF assms(5)] set_update_subset [of "entry_key str e" acct' m] by (fastforce simp: list_all_iff)
  ultimately show ?thesis
    using assms(3) upd(1) upd(2) key by (simp add: applied_def algebra_simps)
qed

lemma wp_applyBalances:
  assumes "uuid_text (se_uuidString E)" and "keyed (se_uuidString E) m0" and "list_all acct_nonneg (map snd m0)"
    and "list_all (\<lambda>e. entry_key (se_uuidString E) e \<in> set (map fst m0) \<and> 0 < pe_Amount e) es" and "length flags = length es"
    and "\<And>m t. applied m0 es m \<Longrightarrow> ss_db t = ss_db s \<Longrightarrow> Q m t" and "\<And>e t. X e t"
  shows "wp (foldM (applyBalance E) (zip es flags) m0) Q X s"
proof (rule wp_conseq [where Q = "\<lambda>m t. applied m0 (map fst (zip es flags)) m \<and> ss_db t = ss_db s" and X = X])
  show "wp (foldM (applyBalance E) (zip es flags) m0) (\<lambda>m t. applied m0 (map fst (zip es flags)) m \<and> ss_db t = ss_db s) X s"
  proof (rule wp_foldM [where I = "\<lambda>ds m t. applied m0 (map fst ds) m \<and> ss_db t = ss_db s"], goal_cases)
    case 1
    show ?case using assms(3) by (simp add: applied_def)
  next
    case (2 ds x rest m t)
    obtain e l where x: "x = (e, l)" by (cases x)
    have "e \<in> set es" using 2(1) x by (metis in_set_conv_decomp in_set_zipE)
    then have e: "entry_key (se_uuidString E) e \<in> set (map fst m)" "0 < pe_Amount e"
      using assms(4) list_all2_same_account_fst [of m0 m] 2(2) by (auto simp: list_all_iff applied_def)
    then obtain acct where acct: "map_of m (entry_key (se_uuidString E) e) = Some acct"
      by (metis list.set_map map_of_eq_None_iff not_Some_eq)
    obtain err acct' where r: "applyEntry acct (pe_EntryType e) (pe_Amount e) l = (err, acct')"
      by (cases "applyEntry acct (pe_EntryType e) (pe_Amount e) l")
    show ?case
      using applied_step [OF assms(1,2), of "map fst ds" m e acct l acct'] acct r e(2) 2(2)
      by (cases err) (simp_all add: applyBalance_def x lookupAccount_def Let_def entry_key_def assms(7))
  qed
qed (simp_all add: assms(5-7))

subsection \<open>Writing the accounts back\<close>

definition writeRow :: "time \<Rightarrow> 'd ledger_db \<Rightarrow> string \<times> 'd LedgerAccount \<Rightarrow> 'd ledger_db" where
  "writeRow now db x = writes_balances (la_BalanceAvailable (snd x)) (la_BalanceLocked (snd x)) now (la_ID (snd x)) db"

lemma wp_writeAccounts:
  assumes "\<And>r t. ss_db t = foldl (writeRow now) (ss_db s) m \<Longrightarrow> r = map (\<lambda>x. (snd x)\<lparr>la_UpdatedAt := now\<rparr>) m \<Longrightarrow> Q r t" and "\<And>e t. X e t"
  shows "wp (foldM (writeAccount E now) m []) Q X s"
proof (rule wp_conseq [where Q = "\<lambda>r t. ss_db t = foldl (writeRow now) (ss_db s) m \<and> r = map (\<lambda>x. (snd x)\<lparr>la_UpdatedAt := now\<rparr>) m" and X = X])
  show "wp (foldM (writeAccount E now) m [])
    (\<lambda>r t. ss_db t = foldl (writeRow now) (ss_db s) m \<and> r = map (\<lambda>x. (snd x)\<lparr>la_UpdatedAt := now\<rparr>) m) X s"
    by (rule wp_foldM [where I = "\<lambda>ds r t. ss_db t = foldl (writeRow now) (ss_db s) ds \<and> r = map (\<lambda>x. (snd x)\<lparr>la_UpdatedAt := now\<rparr>) ds"])
      (auto simp: writeAccount_def Let_def writeRow_def intro!: wp_intro assms(2))
qed (auto intro: assms)

lemma foldl_writeRow_fields [simp]:
  "t_reservations (foldl (writeRow now) db m) = t_reservations db"
  "t_ledger_entries (foldl (writeRow now) db m) = t_ledger_entries db"
  "t_processed_events (foldl (writeRow now) db m) = t_processed_events db"
  by (induction m arbitrary: db) (simp_all add: writeRow_def)

lemma foldl_writeRow_inv:
  "ledger_inv db \<Longrightarrow> list_all acct_nonneg (map snd m) \<Longrightarrow> ledger_inv (foldl (writeRow now) db m)"
  by (induction m arbitrary: db) (simp_all add: writeRow_def acct_nonneg_def ledger_inv_writes_balances)

lemma foldl_writeRow_sum:
  assumes "list_all2 same_account m0 m" and "snd ` set m0 \<subseteq> set (t_ledger_accounts db)"
    and "distinct (map (la_ID \<circ> snd) m0)" and "distinct (map la_ID (t_ledger_accounts db))"
  shows "rows_sum P (t_ledger_accounts (foldl (writeRow now) db m)) =
     rows_sum P (t_ledger_accounts db) + rows_sum P (map snd m) - rows_sum P (map snd m0)"
  using assms
proof (induction m0 m arbitrary: db rule: list_all2_induct)
  case (Cons x xs y ys)
  let ?db1 = "writeRow now db y"
  have y: "la_ID (snd y) = la_ID (snd x)" "la_AccountID (snd y) = la_AccountID (snd x)" "la_Asset (snd y) = la_Asset (snd x)"
    using Cons.hyps(1) by (simp_all add: same_account_def)
  have x: "snd x \<in> set (t_ledger_accounts db)" using Cons.prems(1) by simp
  have one: "rows_sum P (t_ledger_accounts ?db1) = rows_sum P (t_ledger_accounts db)
      + (if P (la_AccountID (snd x)) (ToUpper (la_Asset (snd x))) then acct_total (snd y) - acct_total (snd x) else 0)"
    using rows_sum_setBalances [OF Cons.prems(3) x] by (simp add: writeRow_def y acct_total_def)
  have rest: "snd z \<in> set (t_ledger_accounts ?db1)" if "z \<in> set xs" for z
  proof -
    have "la_ID (snd z) \<noteq> la_ID (snd x)" using Cons.prems(2) that by (auto simp: image_iff)
    then have "setBalances (la_BalanceAvailable (snd y)) (la_BalanceLocked (snd y)) now (la_ID (snd y)) (snd z) = snd z"
      by (simp add: setBalances_def y)
    moreover have "snd z \<in> set (t_ledger_accounts db)" using Cons.prems(1) that by auto
    ultimately show ?thesis unfolding writeRow_def writes_balances_fields set_map by (rule image_eqI [OF sym])
  qed
  have "rows_sum P (t_ledger_accounts (foldl (writeRow now) ?db1 ys)) =
     rows_sum P (t_ledger_accounts ?db1) + rows_sum P (map snd ys) - rows_sum P (map snd xs)"
    using rest Cons.prems by (intro Cons.IH) (auto simp: writeRow_def comp_def)
  then show ?case using one y by simp
qed simp

lemma loaded_ids:
  assumes "uuid_text str" and "keyed str m" and "snd ` set m \<subseteq> set rows" and "accounts_ok rows"
  shows "distinct (map (la_ID \<circ> snd) m)"
proof -
  have "x = y" if "x \<in> set m" "y \<in> set m" "la_ID (snd x) = la_ID (snd y)" for x y
  proof -
    have "snd x \<in> set rows" "snd y \<in> set rows" using that(1,2) assms(3) by auto
    then have "snd x = snd y" using that(3) assms(4) by (auto simp: accounts_ok_def distinct_map inj_on_def)
    with that assms(2) show ?thesis by (auto simp: keyed_def prod_eq_iff split_beta)
  qed
  moreover have "distinct m" using assms(2) by (auto simp: keyed_def distinct_map)
  ultimately show ?thesis by (auto simp: distinct_map inj_on_def)
qed

subsection \<open>Writing the entries\<close>

definition entry_of :: "uuid \<Rightarrow> 'd pendingEntry \<Rightarrow> 'd entry_row \<Rightarrow> bool" where
  "entry_of tradeID e r \<longleftrightarrow> er_ledger_account_id r = pe_LedgerAccountID e \<and> er_entry_type r = pe_EntryType e \<and> er_amount r = pe_Amount e
     \<and> er_reference_type r = referenceTypeTrade \<and> er_reference_id r = tradeID"

definition inserts :: "uuid \<Rightarrow> 'd::linordered_idom pendingEntry list \<Rightarrow> 'd ledger_db \<Rightarrow> 'd LedgerEntry list \<Rightarrow> 'd ledger_db \<Rightarrow> bool" where
  "inserts tradeID es db res db' \<longleftrightarrow>
     (\<exists>new. db' = db\<lparr>t_ledger_entries := t_ledger_entries db @ new\<rparr> \<and> list_all2 (entry_of tradeID) es new \<and> map le_ID res = map er_id new) \<and>
     (ledger_inv db \<longrightarrow> ledger_inv db')"

lemma inserts_Nil: "inserts tradeID [] db [] db"
  by (auto simp: inserts_def intro: exI [of _ "[]"])

lemma inserts_Cons:
  assumes "sql_insert_entry E rid (pe_LedgerAccountID e) (pe_EntryType e) (pe_Amount e) referenceTypeTrade tradeID n db = Inr (x, db1)"
    and "inserts tradeID es db1 res db2" and "le_ID r = rid"
  shows "inserts tradeID (e # es) db (r # res) db2"
proof -
  let ?row = "\<lparr>er_id = rid, er_ledger_account_id = pe_LedgerAccountID e, er_entry_type = pe_EntryType e, er_amount = pe_Amount e,
     er_reference_type = referenceTypeTrade, er_reference_id = tradeID, er_created_at = se_clock E n\<rparr>"
  have db1: "db1 = db\<lparr>t_ledger_entries := t_ledger_entries db @ [?row]\<rparr>"
    and ok: "0 < pe_Amount e" "pe_LedgerAccountID e \<in> set (map la_ID (t_ledger_accounts db))"
    and new: "\<not> list_ex (\<lambda>y. er_id y = rid \<or> (er_reference_type y = referenceTypeTrade \<and> er_reference_id y = tradeID
          \<and> er_ledger_account_id y = pe_LedgerAccountID e)) (t_ledger_entries db)"
    using assms(1) by (auto simp: sql_insert_entry_def Let_def split: if_splits)
  have "ledger_inv db1" if "ledger_inv db"
    using that ok new unfolding db1 by (auto simp: ledger_inv_def entries_ok_def list_ex_iff)
  moreover obtain new where "db2 = db1\<lparr>t_ledger_entries := t_ledger_entries db1 @ new\<rparr>" "list_all2 (entry_of tradeID) es new" "map le_ID res = map er_id new"
    and "ledger_inv db1 \<longrightarrow> ledger_inv db2" using assms(2) unfolding inserts_def by blast
  ultimately show ?thesis
    unfolding inserts_def using assms(3) by (auto simp: db1 entry_of_def intro!: exI [of _ "?row # new"])
qed

lemma wp_insertEntries:
  assumes "\<And>r t. (\<And>es'. r = Some es' \<Longrightarrow> inserts tradeID es (ss_db s) es' (ss_db t)) \<Longrightarrow> Q r t" and "\<And>e t. X e t"
  shows "wp (insertEntries E tradeID now es) Q X s"
proof -
  have "wp (insertEntries E tradeID now es) (\<lambda>r t. \<forall>es'. r = Some es' \<longrightarrow> inserts tradeID es (ss_db s) es' (ss_db t)) (\<lambda>_ _. True) s" for s
  proof (induction es arbitrary: s)
    case Nil
    show ?case by (simp add: inserts_Nil)
  next
    case (Cons e es)
    show ?case
      unfolding insertEntries.simps
      apply (intro wp_intro wp_txStmt TrueI)
       apply (rule wp_conseq [OF Cons.IH])
        apply (intro wp_intro)
        apply (auto simp: settledEntry_def intro: inserts_Cons)
      done
  qed
  from this [of s] show ?thesis by (rule wp_conseq) (auto intro: assms)
qed

section \<open>The settlement as a whole\<close>

text \<open>
  The effect of settling the entries \<open>es\<close> of a trade: the balances change by the entries, and one row per entry is
  recorded for the trade, on the ledger account of the entry's account and asset.
\<close>

definition recorded :: "uuid \<Rightarrow> 'd::linordered_idom pendingEntry \<Rightarrow> 'd ledger_db \<Rightarrow> 'd entry_row \<Rightarrow> bool" where
  "recorded tradeID e db r \<longleftrightarrow>
     er_entry_type r = pe_EntryType e \<and> er_amount r = pe_Amount e \<and> er_reference_type r = referenceTypeTrade \<and> er_reference_id r = tradeID \<and>
     (\<exists>a \<in> set (t_ledger_accounts db). la_ID a = er_ledger_account_id r \<and> la_AccountID a = pe_AccountID e
        \<and> ToUpper (la_Asset a) = ToUpper (pe_Asset e))"

definition settles :: "uuid \<Rightarrow> 'd::linordered_idom pendingEntry list \<Rightarrow> 'd ledger_db \<Rightarrow> uuid list \<Rightarrow> 'd ledger_db \<Rightarrow> bool" where
  "settles tradeID es db ids db' \<longleftrightarrow>
     ledger_inv db' \<and> (\<forall>P. rows_sum P (t_ledger_accounts db') = rows_sum P (t_ledger_accounts db) + pe_sum P es) \<and>
     (\<exists>new. t_ledger_entries db' = t_ledger_entries db @ new \<and> ids = map er_id new \<and> list_all2 (\<lambda>e. recorded tradeID e db') es new)"

lemma foldl_writeRow_member:
  assumes "a \<in> set (t_ledger_accounts db)"
  shows "\<exists>a' \<in> set (t_ledger_accounts (foldl (writeRow now) db m)). la_ID a' = la_ID a \<and> la_AccountID a' = la_AccountID a \<and> la_Asset a' = la_Asset a"
  using assms
proof (induction m arbitrary: db a)
  case (Cons x m)
  let ?a = "setBalances (la_BalanceAvailable (snd x)) (la_BalanceLocked (snd x)) now (la_ID (snd x)) a"
  have "?a \<in> set (t_ledger_accounts (writeRow now db x))" using Cons.prems by (simp add: writeRow_def)
  from Cons.IH [OF this] show ?case by simp
qed auto

lemma recorded_entries:
  fixes db' :: "'d::linordered_idom ledger_db"
  assumes "uuid_text (se_uuidString E)" and "keyed (se_uuidString E) m" and "snd ` set m \<subseteq> set (t_ledger_accounts db1)"
    and "list_all2 (\<lambda>e e'. \<exists>a. map_of m (entry_key (se_uuidString E) e) = Some a \<and> e' = e\<lparr>pe_LedgerAccountID := la_ID a\<rparr>) es ps"
    and "list_all2 (entry_of tradeID) ps new"
    and "t_ledger_accounts db' = t_ledger_accounts (foldl (writeRow now) dbw m')" and "t_ledger_accounts dbw = t_ledger_accounts db1"
  shows "list_all2 (\<lambda>e. recorded tradeID e db') es new"
proof (rule list_all2_trans [OF _ assms(4,5)], elim exE conjE)
  fix e e' :: "'d pendingEntry" and r a
  assume a: "map_of m (entry_key (se_uuidString E) e) = Some a" and e': "e' = e\<lparr>pe_LedgerAccountID := la_ID a\<rparr>" and r: "entry_of tradeID e' r"
  from map_of_SomeD [OF a] assms(2,3) have row: "a \<in> set (t_ledger_accounts dbw)"
    and "entry_key (se_uuidString E) e = ledgerKey (se_uuidString E) (la_AccountID a) (la_Asset a)"
    by (auto simp: keyed_def assms(7))
  then have key: "la_AccountID a = pe_AccountID e" "ToUpper (la_Asset a) = ToUpper (pe_Asset e)"
    using ledgerKey_inject [OF assms(1)] by (simp_all add: entry_key_def)
  show "recorded tradeID e db' r"
    using foldl_writeRow_member [OF row, of now m'] r key by (auto simp: recorded_def entry_of_def e' assms(6))
qed

lemma settles_written:
  assumes "uuid_text (se_uuidString E)" and "ledger_inv db"
    and "loaded E db es (m, ps) db1" and "applied m es m'" and "consumes db1 db2"
    and "inserts tradeID ps (foldl (writeRow now) db2 m') res db3" and "same_ledger db3 db'"
  shows "settles tradeID es db (map le_ID res) db'"
proof -
  have opens: "opens db db1" and keyed: "keyed (se_uuidString E) m" and rows: "snd ` set m \<subseteq> set (t_ledger_accounts db1)"
    using assms(3) by (simp_all add: loaded_def)
  have inv1: "ledger_inv db1" by (rule opens_inv [OF opens assms(2)])
  then have inv2: "ledger_inv db2" and rows2: "t_ledger_accounts db2 = t_ledger_accounts db1" "t_ledger_entries db2 = t_ledger_entries db1"
    using assms(5) by (simp_all add: consumes_def)
  have same: "list_all2 same_account m m'" and nn: "list_all acct_nonneg (map snd m')"
    and sum: "\<And>P. rows_sum P (map snd m') = rows_sum P (map snd m) + pe_sum P es" using assms(4) by (simp_all add: applied_def)
  have ok1: "accounts_ok (t_ledger_accounts db1)" "distinct (map la_ID (t_ledger_accounts db1))" using inv1 by (simp_all add: ledger_inv_def accounts_ok_def)
  have ids: "distinct (map (la_ID \<circ> snd) m)" by (rule loaded_ids [OF assms(1) keyed rows ok1(1)])
  obtain new where db3: "db3 = (foldl (writeRow now) db2 m')\<lparr>t_ledger_entries := t_ledger_entries (foldl (writeRow now) db2 m') @ new\<rparr>"
    and new: "list_all2 (entry_of tradeID) ps new" "map le_ID res = map er_id new"
    and "ledger_inv (foldl (writeRow now) db2 m') \<longrightarrow> ledger_inv db3" using assms(6) unfolding inserts_def by blast
  then have "ledger_inv db3" using foldl_writeRow_inv [OF inv2 nn] by simp
  then have inv': "ledger_inv db'" by (rule same_ledger_inv [OF assms(7)])
  have acc': "t_ledger_accounts db' = t_ledger_accounts (foldl (writeRow now) db2 m')"
    and ent': "t_ledger_entries db' = t_ledger_entries db @ new"
    using assms(7) db3 rows2(2) opens_fields(2) [OF opens] by (simp_all add: same_ledger_def)
  have "rows_sum P (t_ledger_accounts db') = rows_sum P (t_ledger_accounts db) + pe_sum P es" for P
    using foldl_writeRow_sum [OF same, of db2 P now] rows ids ok1(2) opens_rows_sum [OF opens, of P] sum
    by (simp add: acc' rows2(1))
  moreover have "list_all2 (\<lambda>e. recorded tradeID e db') es new"
    using assms(3) new(1) acc' rows2(1) by (intro recorded_entries [OF assms(1) keyed rows, where dbw = db2 and m' = m' and now = now]) (simp_all add: loaded_def)
  ultimately show ?thesis
    using inv' ent' new(2) by (auto simp: settles_def)
qed

lemma length_lockedFlags: "length (fst (lockedFlags str forced remaining es)) = length es"
proof (induction es arbitrary: remaining)
  case (Cons e es)
  obtain b r where "lockedFlag str forced remaining e = (b, r)" by fastforce
  with Cons.IH [of r] show ?case by (cases "lockedFlags str forced r es") simp
qed simp

definition event_recorded :: "string \<Rightarrow> 'd ledger_db \<Rightarrow> bool" where
  "event_recorded eventID db \<longleftrightarrow> eventID \<noteq> [] \<longrightarrow> events_marked eventID db"

text \<open>The end of a settlement transaction: given up as a duplicate, or committed.\<close>

definition settle_post ::
  "'d::linordered_idom SettlementRequest \<Rightarrow> 'd pendingEntry list \<Rightarrow> uuid \<Rightarrow> 'd ledger_db \<Rightarrow> 'd SettlementResult \<Rightarrow> 'd store_state \<Rightarrow> bool" where
  "settle_post req es feeAccountID db res t \<longleftrightarrow>
     (if sres_AlreadyProcessed res then same_ledger db (ss_db t) \<and> events_marked (sr_EventID req) (ss_db t)
      else settles (sr_TradeID req) es db (sres_EntryIDs res) (ss_db t) \<and> event_recorded (sr_EventID req) (ss_db t)
        \<and> sres_FeeAccountID res = feeAccountID \<and> sres_EntryIDs res = map le_ID (sres_Entries res))"

lemma consumes_trans: "consumes a b \<Longrightarrow> consumes b c \<Longrightarrow> consumes a c"
  by (simp add: consumes_def)

lemma loaded_nonneg:
  assumes "loaded E db es st db'" and "ledger_inv db"
  shows "list_all acct_nonneg (map snd (fst st))"
proof -
  have "accounts_ok (t_ledger_accounts db')" using assms by (auto simp: loaded_def ledger_inv_def intro: opens_accounts_ok)
  then show ?thesis using assms(1) by (auto simp: loaded_def accounts_ok_def list_all_iff)
qed

lemma settled_end:
  assumes "uuid_text (se_uuidString E)" and "ledger_inv db" and "same_ledger db db0"
    and "loaded E db0 es (m, ps) db1" and "applied m es m'" and "consumes db1 db2" and "consumes db2 db3"
    and "inserts tradeID ps (foldl (writeRow now) db3 m') res db4" and "same_ledger db4 db'"
  shows "settles tradeID es db (map le_ID res) db'"
proof -
  have "settles tradeID es db0 (map le_ID res) db'"
    by (rule settles_written [OF assms(1) same_ledger_inv [OF assms(3,2)] assms(4,5) consumes_trans [OF assms(6,7)] assms(8,9)])
  with assms(3) show ?thesis by (simp add: settles_def same_ledger_def)
qed

lemma wp_settleEntries:
  assumes "exact_text (se_dec E)" and "uuid_text (se_uuidString E)" and "ledger_inv db" and "same_ledger db (ss_db s)"
    and "list_all entry_ok es"
  shows "wp (settleEntries E req reserved feeAccountID es)
    (tx_post db (settle_post req es feeAccountID db) (\<lambda>e t. ss_db t = db)) (\<lambda>_ _. True) s"
  unfolding settleEntries_def finishSettlement_def Let_def split_beta
  apply (intro wp_intro wp_reservationCover [OF assms(1)] wp_loadAccounts [OF assms(1)] wp_consumeCovered [OF assms(1)]
      wp_writeAccounts wp_insertEntries wp_applyBalances [OF assms(2)] wp_recordProcessedEvent wp_markEventProcessed TrueI)
  subgoal by (simp add: loaded_def)
  subgoal using same_ledger_inv [OF assms(4,3)] by (simp add: loaded_nonneg)
  subgoal using assms(5) by (auto simp: loaded_def list_all_iff entry_ok_def)
  subgoal by (rule length_lockedFlags)
  subgoal by (simp add: settle_post_def alreadyProcessed_def)
  subgoal by simp
  subgoal for c t ca ta st tb m tc td te r tf ra tg entries th t'
    using settled_end [OF assms(2-4), of es "fst st" "snd st" "ss_db tb" m "ss_db td" "ss_db te" "sr_TradeID req" "se_clock E (ss_step te)" entries "ss_db tg" "ss_db t'"]
    by (simp add: settle_post_def event_recorded_def)
  subgoal for c t ca ta st tb m tc td te r tf ra tg entries t'
    using settled_end [OF assms(2-4), of es "fst st" "snd st" "ss_db tb" m "ss_db td" "ss_db te" "sr_TradeID req" "se_clock E (ss_step te)" entries "ss_db tg" "ss_db t'"]
    by (simp add: settle_post_def event_recorded_def)
  done

text \<open>What a settlement request is allowed to have done when it returns without an error.\<close>

definition fees_of :: "'d::linordered_idom feeQuote \<Rightarrow> 'd feeQuote \<Rightarrow> bool" where
  "fees_of makerFee takerFee \<longleftrightarrow> 0 \<le> fq_Amount makerFee \<and> 0 \<le> fq_Amount takerFee"

definition settlement_entries ::
  "'d::linordered_idom store_env \<Rightarrow> 'd SettlementRequest \<Rightarrow> uuid \<Rightarrow> 'd feeQuote \<Rightarrow> 'd feeQuote \<Rightarrow> 'd pendingEntry list" where
  "settlement_entries E req feeAccountID makerFee takerFee =
     (case splitSymbol (sr_Symbol req) of Inl _ \<Rightarrow> []
      | Inr (base, quote) \<Rightarrow>
          buildSettlementEntries (se_uuidString E) (sr_MakerAccountID req) (sr_TakerAccountID req) feeAccountID
            (ToLower (TrimSpace (sr_MakerSide req))) base quote (sr_Price req * sr_Quantity req) (sr_Quantity req) makerFee takerFee)"

definition settlement_post ::
  "'d::linordered_idom store_env \<Rightarrow> 'd SettlementRequest \<Rightarrow> 'd ledger_db \<Rightarrow> 'd SettlementResult \<Rightarrow> 'd ledger_db \<Rightarrow> bool" where
  "settlement_post E req db res db' \<longleftrightarrow>
     (if sres_AlreadyProcessed res then same_ledger db db' \<and> events_marked (sr_EventID req) db'
      else \<not> settled (sr_TradeID req) db \<and> event_recorded (sr_EventID req) db' \<and> sres_EntryIDs res = map le_ID (sres_Entries res) \<and>
        (\<exists>makerFee takerFee. fees_of makerFee takerFee \<and>
           settlement_entries E req (sres_FeeAccountID res) makerFee takerFee \<noteq> [] \<and>
           settles (sr_TradeID req) (settlement_entries E req (sres_FeeAccountID res) makerFee takerFee) db (sres_EntryIDs res) db'))"

lemma settlement_postI:
  assumes "settle_post req es u db res t" and "settlement_entries E req u makerFee takerFee = es" and "fees_of makerFee takerFee"
    and "es \<noteq> []" and "\<not> settled (sr_TradeID req) db"
  shows "settlement_post E req db res (ss_db t)"
proof (cases "sres_AlreadyProcessed res")
  case False
  have post: "settles (sr_TradeID req) es db (sres_EntryIDs res) (ss_db t) \<and> event_recorded (sr_EventID req) (ss_db t)
      \<and> sres_FeeAccountID res = u \<and> sres_EntryIDs res = map le_ID (sres_Entries res)"
    using assms(1) unfolding settle_post_def if_not_P [OF False] .
  then have "settlement_entries E req (sres_FeeAccountID res) makerFee takerFee = es" using assms(2) by blast
  then have "\<exists>makerFee takerFee. fees_of makerFee takerFee \<and> settlement_entries E req (sres_FeeAccountID res) makerFee takerFee \<noteq> [] \<and>
      settles (sr_TradeID req) (settlement_entries E req (sres_FeeAccountID res) makerFee takerFee) db (sres_EntryIDs res) (ss_db t)"
    using post assms(3,4) by blast
  with post show ?thesis
    unfolding settlement_post_def if_not_P [OF False] using assms(5) by blast
qed (use assms(1) in \<open>simp add: settlement_post_def settle_post_def\<close>)

lemma settlement_post_duplicate:
  "same_ledger db db' \<Longrightarrow> events_marked (sr_EventID req) db' \<Longrightarrow> settlement_post E req db alreadyProcessed db'"
  by (simp add: settlement_post_def alreadyProcessed_def)

lemma wp_settleTx:
  assumes "exact_text (se_dec E)" and "uuid_text (se_uuidString E)" and "ledger_inv (ss_db s)" and "fees_of makerFee takerFee"
    and "splitSymbol (sr_Symbol req) = Inr (base, quote)" and "makerSide = ToLower (TrimSpace (sr_MakerSide req))"
  shows "wp (settleTx E req makerSide base quote makerFee takerFee)
    (tx_post (ss_db s) (\<lambda>res t. settlement_post E req (ss_db s) res (ss_db t)) (\<lambda>e t. ss_db t = ss_db s)) (\<lambda>_ _. True) s"
proof -
  have go: "wp (settleEntries E req reserved u (buildSettlementEntries (se_uuidString E) (sr_MakerAccountID req) (sr_TakerAccountID req) u
        makerSide base quote (sr_Price req * sr_Quantity req) (sr_Quantity req) makerFee takerFee))
      (tx_post (ss_db s) (\<lambda>res t. settlement_post E req (ss_db s) res (ss_db t)) (\<lambda>e t. ss_db t = ss_db s)) (\<lambda>_ _. True) ta"
    if "same_ledger (ss_db s) (ss_db ta)" "\<not> settled (sr_TradeID req) (ss_db s)"
      "buildSettlementEntries (se_uuidString E) (sr_MakerAccountID req) (sr_TakerAccountID req) u
        makerSide base quote (sr_Price req * sr_Quantity req) (sr_Quantity req) makerFee takerFee \<noteq> []" for reserved u ta
  proof (rule wp_conseq [OF wp_settleEntries [OF assms(1-3) that(1) settlement_entries_ok]])
    fix r t
    assume "tx_post (ss_db s) (settle_post req (buildSettlementEntries (se_uuidString E) (sr_MakerAccountID req) (sr_TakerAccountID req) u
        makerSide base quote (sr_Price req * sr_Quantity req) (sr_Quantity req) makerFee takerFee) u (ss_db s)) (\<lambda>e t. ss_db t = ss_db s) r t"
    then show "tx_post (ss_db s) (\<lambda>res t. settlement_post E req (ss_db s) res (ss_db t)) (\<lambda>e t. ss_db t = ss_db s) r t"
      by (rule tx_post_mono)
        (use that(2,3) assms(4-6) in \<open>auto intro!: settlement_postI simp: settlement_entries_def\<close>)
  qed simp
  show ?thesis
    unfolding settleTx_def commitDuplicate_def Let_def
    apply (intro wp_intro wp_isEventProcessed wp_CheckDuplicateSettlement wp_markEventProcessed wp_getOrCreateFeeAccount TrueI)
    apply (simp_all add: settlement_post_duplicate go)
    done
qed

lemma wp_ApplySettlement:
  assumes "exact_text (se_dec E)" and "uuid_text (se_uuidString E)" and "ledger_inv (ss_db s)" and "cache_ok (ss_feeCache s)"
  shows "wp (ApplySettlement E req) (\<lambda>res t. settlement_post E req (ss_db s) res (ss_db t)) (\<lambda>e t. ss_db t = ss_db s) s"
proof -
  have fee: "wp (calculateFee E u symbol side ty quantity price) Q X t"
    if "cache_ok (ss_feeCache t)" "ss_db t = ss_db s"
      "\<And>q t'. cache_ok (ss_feeCache t') \<Longrightarrow> ss_db t' = ss_db s \<Longrightarrow> 0 \<le> fq_Amount q \<Longrightarrow> Q q t'"
      "\<And>e t'. ss_db t' = ss_db s \<Longrightarrow> X e t'" for u symbol side ty quantity price Q X t
    by (rule wp_conseq [OF wp_calculateFee [OF that(1)]]) (use that in \<open>auto simp: fee_frame_def\<close>)
  show ?thesis
  proof (cases "splitSymbol (sr_Symbol req)")
    case (Inl e)
    then show ?thesis by (simp add: ApplySettlement_def)
  next
    case (Inr p)
    obtain base quote where p: "p = (base, quote)" by (cases p)
    have tx: "wp (settleTx E req (ToLower (TrimSpace (sr_MakerSide req))) base quote q q')
        (tx_post (ss_db s) (\<lambda>res t. settlement_post E req (ss_db s) res (ss_db t)) (\<lambda>e t. ss_db t = ss_db s)) (\<lambda>e t. True) s1"
      if "ss_db s1 = ss_db s" "0 \<le> fq_Amount q" "0 \<le> fq_Amount q'" for s1 q q'
      using wp_settleTx [OF assms(1,2), of s1 q q' req base quote "ToLower (TrimSpace (sr_MakerSide req))"] that assms(3) Inr p
      by (simp add: fees_of_def)
    show ?thesis
      unfolding ApplySettlement_def Inr p sum.case prod.case Let_def
      by (intro wp_intro fee assms(4) refl) (simp_all add: tx)
  qed
qed

section \<open>The rate cache is left alone\<close>

text \<open>Everything but the fee calculation leaves the rate cache as it is; shown along the structure of the programs.\<close>

named_theorems keep_intro \<open>programs that keep the rate cache\<close>

definition keeps :: "('d, 'a) store \<Rightarrow> bool" where
  "keeps m \<longleftrightarrow> (\<forall>s r t. m s = (r, t) \<longrightarrow> ss_feeCache t = ss_feeCache s)"

definition tx_keeps :: "('d, ('d store_state, 'a) tx_end) store \<Rightarrow> bool" where
  "tx_keeps m \<longleftrightarrow> keeps m \<and> (\<forall>s k t. m s = (Inr (TxRollback k), t) \<longrightarrow> keeps k)"

lemma keeps_bindM [keep_intro]: "keeps m \<Longrightarrow> (\<And>a. keeps (k a)) \<Longrightarrow> keeps (bindM m k)"
  unfolding keeps_def bindM_def by (fastforce split: prod.splits sum.splits)

lemma keeps_attempt [keep_intro]: "keeps m \<Longrightarrow> (\<And>e. keeps (h e)) \<Longrightarrow> (\<And>a. keeps (k a)) \<Longrightarrow> keeps (attempt m h k)"
  unfolding keeps_def attempt_def by (fastforce split: prod.splits sum.splits)

lemma keeps_simple [keep_intro]:
  "keeps (ret a)" "keeps (fail e)" "keeps (Now E)" "keeps (NewUUID E)" "keeps (txStmt E f)" "keeps (poolQuery E g)"
  by (auto simp: keeps_def ret_def fail_def Now_def NewUUID_def txStmt_def poolQuery_def Let_def split: sum.splits)

lemma keeps_parseColumn [keep_intro]: "keeps (parseColumn E what v)"
  by (auto simp: parseColumn_def keep_intro split: option.splits)

lemma keeps_if [keep_intro]: "keeps m \<Longrightarrow> keeps n \<Longrightarrow> keeps (if b then m else n)"
  by simp

lemma keeps_foldM [keep_intro]: "(\<And>a x. keeps (f a x)) \<Longrightarrow> keeps (foldM f xs a)"
  by (induction xs arbitrary: a) (auto intro: keep_intro)

lemma tx_keeps_bindM [keep_intro]: "keeps m \<Longrightarrow> (\<And>a. tx_keeps (k a)) \<Longrightarrow> tx_keeps (bindM m k)"
  unfolding tx_keeps_def by (auto intro: keep_intro) (auto simp: bindM_def split: prod.splits sum.splits)

lemma tx_keeps_attempt [keep_intro]: "keeps m \<Longrightarrow> (\<And>e. tx_keeps (h e)) \<Longrightarrow> (\<And>a. tx_keeps (k a)) \<Longrightarrow> tx_keeps (attempt m h k)"
  unfolding tx_keeps_def by (auto intro: keep_intro) (fastforce simp: attempt_def split: prod.splits sum.splits)

lemma tx_keeps_simple [keep_intro]:
  "tx_keeps (ret (TxCommit a))" "keeps k \<Longrightarrow> tx_keeps (ret (TxRollback k))" "tx_keeps (fail e)"
  by (auto simp: tx_keeps_def keeps_def ret_def fail_def)

lemma tx_keeps_if [keep_intro]: "tx_keeps m \<Longrightarrow> tx_keeps n \<Longrightarrow> tx_keeps (if b then m else n)"
  by simp

lemma tx_keeps_option [keep_intro]: "tx_keeps m \<Longrightarrow> (\<And>a. tx_keeps (f a)) \<Longrightarrow> tx_keeps (case x of None \<Rightarrow> m | Some a \<Rightarrow> f a)"
  by (cases x) simp_all

lemma keeps_withTx [keep_intro]:
  assumes "tx_keeps body"
  shows "keeps (withTx E body)"
  unfolding keeps_def
proof (intro allI impI)
  fix s :: "'a store_state" and r t
  let ?s1 = "s\<lparr>ss_step := Suc (ss_step s), ss_aborted := False\<rparr>"
  assume run: "withTx E body s = (r, t)"
  obtain r1 t1 where body: "body ?s1 = (r1, t1)" by (cases "body ?s1")
  then have t1: "ss_feeCache t1 = ss_feeCache s" using assms by (auto simp: tx_keeps_def keeps_def)
  show "ss_feeCache t = ss_feeCache s"
  proof (cases "\<exists>k. r1 = Inr (TxRollback k) \<and> \<not> se_fault E (ss_step s)")
    case True
    then obtain k where k: "r1 = Inr (TxRollback k)" "\<not> se_fault E (ss_step s)" by blast
    then have "keeps k" using assms body by (auto simp: tx_keeps_def)
    moreover have "k (t1\<lparr>ss_db := ss_db s, ss_aborted := False\<rparr>) = (r, t)" using run body k by (simp add: withTx_def Let_def)
    ultimately have "ss_feeCache t = ss_feeCache (t1\<lparr>ss_db := ss_db s, ss_aborted := False\<rparr>)" unfolding keeps_def by blast
    then show ?thesis using t1 by simp
  next
    case False
    then show ?thesis
      using run body t1 by (auto simp: withTx_def Let_def split: sum.splits tx_end.splits if_splits)
  qed
qed

lemma keeps_getReservation [keep_intro]: "keeps (getReservationForUpdate E orderID)" "keeps (getReservation E orderID)"
  unfolding getReservationForUpdate_def getReservation_def scanReservation_def by (intro keep_intro)+

lemma keeps_account [keep_intro]: "keeps (getLedgerAccountForUpdate E u a)" "keeps (getOrCreateLedgerAccountForUpdate E u a)"
  unfolding getOrCreateLedgerAccountForUpdate_def getLedgerAccountForUpdate_def scanAccount_def by (intro keep_intro)+

lemma keeps_updateReservation [keep_intro]: "keeps (updateReservation E r c st)"
  unfolding updateReservation_def by (intro keep_intro)

lemma keeps_ReserveBalance: "keeps (ReserveBalance E u orderID raw amount)"
  unfolding ReserveBalance_def Let_def by (intro keep_intro)

lemma keeps_ReleaseReservation: "keeps (ReleaseReservation E orderID)"
  unfolding ReleaseReservation_def Let_def by (intro keep_intro)

lemma keeps_events [keep_intro]: "keeps (markEventProcessed E ev)" "keeps (recordProcessedEvent E ev)" "keeps (isEventProcessed E ev)"
  unfolding markEventProcessed_def recordProcessedEvent_def isEventProcessed_def insertProcessedEvent_def Let_def
  by (intro keep_intro)+

lemma keeps_lookupAccount [keep_intro]: "keeps (lookupAccount E m e)"
  unfolding lookupAccount_def Let_def by (cases "map_of m (ledgerKey (se_uuidString E) (pe_AccountID e) (pe_Asset e))") (simp_all add: keep_intro)

lemma keeps_loops [keep_intro]: "keeps (loadAccount E st e)" "keeps (applyBalance E m x)" "keeps (writeAccount E now ws y)"
  unfolding loadAccount_def applyBalance_def writeAccount_def Let_def split_beta
  by (auto intro!: keep_intro split: option.splits)

lemma keeps_insertEntries [keep_intro]: "keeps (insertEntries E tr now es)"
  by (induction es) (auto intro!: keep_intro)

lemma keeps_reservations [keep_intro]: "keeps (reservationCover E o' a d)" "keeps (consumeReservation E o' a d)" "keeps (consumeCovered E c m k o' a)"
  unfolding consumeCovered_def reservationCover_def consumeReservation_def Let_def by (intro keep_intro)+

lemma tx_keeps_settleEntries [keep_intro]: "tx_keeps (settleEntries E req reserved fa es)"
  unfolding settleEntries_def finishSettlement_def Let_def split_beta by (intro keep_intro)

lemma tx_keeps_settleTx [keep_intro]: "tx_keeps (settleTx E req side base quote mf tf)"
  unfolding settleTx_def commitDuplicate_def CheckDuplicateSettlement_def getOrCreateFeeAccount_def Let_def by (intro keep_intro)

lemma ApplySettlement_cache_ok:
  assumes "cache_ok (ss_feeCache s)"
  shows "wp (ApplySettlement E req) (\<lambda>_ t. cache_ok (ss_feeCache t)) (\<lambda>_ t. cache_ok (ss_feeCache t)) s"
proof -
  have fee: "wp (calculateFee E u symbol side ty quantity price) Q X t"
    if "cache_ok (ss_feeCache t)" "\<And>q t'. cache_ok (ss_feeCache t') \<Longrightarrow> Q q t'" "\<And>e t'. cache_ok (ss_feeCache t') \<Longrightarrow> X e t'"
    for u symbol side ty quantity price Q X t
    by (rule wp_conseq [OF wp_calculateFee [OF that(1)]]) (use that in \<open>auto simp: fee_frame_def\<close>)
  have tx: "wp (withTx E (settleTx E req side base quote mf tf)) (\<lambda>_ t. cache_ok (ss_feeCache t)) (\<lambda>_ t. cache_ok (ss_feeCache t)) t"
    if "cache_ok (ss_feeCache t)" for side base quote mf tf t
    using keeps_withTx [OF tx_keeps_settleTx, of E E req side base quote mf tf] that
    by (auto simp: keeps_def wp_def split: prod.splits sum.splits)
  show ?thesis
    unfolding ApplySettlement_def Let_def
    by (cases "splitSymbol (sr_Symbol req)") (auto split: prod.splits intro!: wp_intro_structural wp_if fee tx assms)
qed

section \<open>Properties\<close>

text \<open>
  C14: Settling a trade. Whatever fails on the way, an error leaves the tables untouched. If the result says that the trade was
  already processed, the ledger is untouched and the event is marked. Otherwise the trade had
  not been settled before, and for some non-negative fees the ledger has changed by exactly the double entry of
  the trade: every account's holding in every asset by the net of its entries, with one row per
  entry recorded for the trade on the right ledger account, no balance negative, and the event marked.
\<close>

theorem ApplySettlement_effect:
  assumes "exact_text (se_dec E)" and "uuid_text (se_uuidString E)" and "ledger_inv (ss_db s)" and "cache_ok (ss_feeCache s)"
  shows "case ApplySettlement E req s of
      (Inl e, t) \<Rightarrow> ss_db t = ss_db s
    | (Inr res, t) \<Rightarrow> settlement_post E req (ss_db s) res (ss_db t)"
  using wp_ApplySettlement [OF assms] unfolding wp_def .

definition sample_trade :: "int SettlementRequest" where
  "sample_trade = \<lparr>sr_TradeID = 50, sr_MakerOrderID = 30, sr_TakerOrderID = 31, sr_MakerAccountID = 10, sr_TakerAccountID = 11,
     sr_Symbol = ''BTC-USD'', sr_Price = 4, sr_Quantity = 2, sr_MakerSide = ''buy'', sr_EventID = ''e1''\<rparr>"

lemma sample_cache_ok [simp]: "cache_ok (ss_feeCache sample_store)"
  by (simp add: sample_store_def cache_ok_def)

lemma sample_str_ok [simp]: "uuid_text (se_uuidString sample_store_env)"
  by (simp add: sample_store_env_def)

theorem ApplySettlement_effect_witness:
  "case ApplySettlement sample_store_env sample_trade sample_store of (Inl e, t) \<Rightarrow> False
   | (Inr res, t) \<Rightarrow> \<not> sres_AlreadyProcessed res \<and> settlement_post sample_store_env sample_trade (ss_db sample_store) res (ss_db t)"
proof -
  have "(case fst (ApplySettlement sample_store_env sample_trade sample_store) of Inl _ \<Rightarrow> True | Inr r \<Rightarrow> sres_AlreadyProcessed r) = False"
    by code_simp
  then show ?thesis
    using ApplySettlement_effect [of sample_store_env sample_store sample_trade]
    by (auto split: prod.splits sum.splits)
qed

text \<open>Runs of settlements, each in its own environment.\<close>

fun settleAll :: "('d::linordered_idom store_env \<times> 'd SettlementRequest) list \<Rightarrow> 'd store_state
    \<Rightarrow> (uuid \<times> (go_error + 'd SettlementResult)) list \<times> 'd store_state" where
  "settleAll [] s = ([], s)"
| "settleAll ((E, req) # calls) s =
     (case ApplySettlement E req s of (r, t) \<Rightarrow>
      case settleAll calls t of (rs, u) \<Rightarrow> ((sr_TradeID req, r) # rs, u))"

lemma settleAll_Cons:
  "fst (settleAll ((E, req) # calls) s) =
   (sr_TradeID req, fst (ApplySettlement E req s)) # fst (settleAll calls (snd (ApplySettlement E req s)))"
  by (simp split: prod.splits)

definition settled_now :: "uuid \<Rightarrow> uuid \<times> (go_error + 'd SettlementResult) \<Rightarrow> bool" where
  "settled_now tradeID x \<longleftrightarrow> fst x = tradeID \<and> (case snd x of Inr r \<Rightarrow> \<not> sres_AlreadyProcessed r | Inl _ \<Rightarrow> False)"

definition env_ok :: "'d store_env \<Rightarrow> bool" where
  "env_ok E \<longleftrightarrow> exact_text (se_dec E) \<and> uuid_text (se_uuidString E)"

lemma settles_settled: "settles tradeID es db ids db' \<Longrightarrow> es \<noteq> [] \<Longrightarrow> settled tradeID db'"
  by (fastforce simp: settles_def settled_def recorded_def list_all2_Cons1 neq_Nil_conv)

lemma settlement_post_inv: "settlement_post E req db res db' \<Longrightarrow> ledger_inv db \<Longrightarrow> ledger_inv db'"
  by (auto simp: settlement_post_def settles_def same_ledger_inv split: if_splits)

lemma settlement_post_settled: "settlement_post E req db res db' \<Longrightarrow> settled tradeID db \<Longrightarrow> settled tradeID db'"
  by (auto simp: settlement_post_def settles_def settled_def same_ledger_def split: if_splits)

lemma ApplySettlement_keeps_inv:
  assumes "env_ok E" and "ledger_inv (ss_db s)" and "cache_ok (ss_feeCache s)" and "ApplySettlement E req s = (r, t)"
  shows "ledger_inv (ss_db t) \<and> cache_ok (ss_feeCache t)"
  using wp_ApplySettlement [of E s req] ApplySettlement_cache_ok [OF assms(3), of E req] assms settlement_post_inv
  by (cases r) (auto simp: wp_def env_ok_def)

lemma ApplySettlement_keeps_settled:
  assumes "env_ok E" and "ledger_inv (ss_db s)" and "cache_ok (ss_feeCache s)" and "ApplySettlement E req s = (r, t)" and "settled x (ss_db s)"
  shows "settled x (ss_db t)"
  using wp_ApplySettlement [of E s req] assms settlement_post_settled by (cases r) (auto simp: wp_def env_ok_def)

lemma settled_now_False:
  assumes "list_all (\<lambda>c. env_ok (fst c)) calls" and "ledger_inv (ss_db s)" and "cache_ok (ss_feeCache s)" and "settled x (ss_db s)"
  shows "filter (settled_now x) (fst (settleAll calls s)) = []"
  using assms
proof (induction calls arbitrary: s)
  case (Cons c calls)
  obtain E req where c: "c = (E, req)" by (cases c)
  obtain r t where r: "ApplySettlement E req s = (r, t)" by (cases "ApplySettlement E req s")
  have ok: "env_ok E" using Cons.prems(1) c by simp
  have "\<not> settled_now x (sr_TradeID req, r)"
    using wp_ApplySettlement [of E s req] ok Cons.prems(2-4) r
    by (cases r) (auto simp: settled_now_def wp_def env_ok_def settlement_post_def split: if_splits)
  moreover have "filter (settled_now x) (fst (settleAll calls t)) = []"
    using Cons ApplySettlement_keeps_inv [OF ok Cons.prems(2,3) r] ApplySettlement_keeps_settled [OF ok Cons.prems(2,3) r Cons.prems(4)] by simp
  ultimately show ?case by (simp add: c r settleAll_Cons del: settleAll.simps)
qed simp

text \<open>
  C15: Exactly once. In any sequence of settlement requests, each with its own pattern of failures, answers of the fee service and
  repetitions under any event IDs, at most one of the calls for a trade settles it; every other call for this trade fails or
  reports that it was already processed.
\<close>

theorem ApplySettlement_once:
  assumes "list_all (\<lambda>c. env_ok (fst c)) calls" and "ledger_inv (ss_db s)" and "cache_ok (ss_feeCache s)"
  shows "length (filter (settled_now x) (fst (settleAll calls s))) \<le> 1"
  using assms
proof (induction calls arbitrary: s)
  case (Cons c calls)
  obtain E req where c: "c = (E, req)" by (cases c)
  obtain r t where r: "ApplySettlement E req s = (r, t)" by (cases "ApplySettlement E req s")
  have ok: "env_ok E" and calls: "list_all (\<lambda>c. env_ok (fst c)) calls" using Cons.prems(1) c by simp_all
  note t = ApplySettlement_keeps_inv [OF ok Cons.prems(2,3) r]
  show ?case
  proof (cases "settled_now x (sr_TradeID req, r)")
    case True
    then have "settled x (ss_db t)"
      using wp_ApplySettlement [of E s req] ok Cons.prems(2,3) r settles_settled
      by (cases r) (auto simp: settled_now_def wp_def env_ok_def settlement_post_def split: if_splits)
    then have "filter (settled_now x) (fst (settleAll calls t)) = []" using settled_now_False [OF calls] t by blast
    then show ?thesis by (simp add: c r settleAll_Cons del: settleAll.simps)
  next
    case False
    then show ?thesis using Cons.IH [OF calls] t by (simp add: c r settleAll_Cons del: settleAll.simps)
  qed
qed simp

theorem ApplySettlement_once_witness:
  "length (filter (settled_now 50) (fst (settleAll [(sample_store_env, sample_trade), (sample_store_env, sample_trade\<lparr>sr_EventID := ''e2''\<rparr>)] sample_store))) \<le> 1
   \<and> map (\<lambda>x. map_sum (\<lambda>_. ()) sres_AlreadyProcessed (snd x)) (fst (settleAll [(sample_store_env, sample_trade), (sample_store_env, sample_trade\<lparr>sr_EventID := ''e2''\<rparr>)] sample_store)) = [Inr False, Inr True]"
proof
  show "length (filter (settled_now 50) (fst (settleAll [(sample_store_env, sample_trade), (sample_store_env, sample_trade\<lparr>sr_EventID := ''e2''\<rparr>)] sample_store))) \<le> 1"
    by (rule ApplySettlement_once) (simp_all add: env_ok_def)
  show "map (\<lambda>x. map_sum (\<lambda>_. ()) sres_AlreadyProcessed (snd x)) (fst (settleAll [(sample_store_env, sample_trade), (sample_store_env, sample_trade\<lparr>sr_EventID := ''e2''\<rparr>)] sample_store)) = [Inr False, Inr True]"
    by code_simp
qed

end
