(* ===== verification/Ledger_Invariants.thy ===== *)
theory Ledger_Invariants
  imports Ledger_Settlement
begin

text \<open>
  The ledger store as a state machine: reservations, releases and settlements in any order, each in its own environment.
  Every reachable state has consistent tables with no negative balance, and the amount of every asset
  in the ledger never changes. The event keys are shown to make an event and its prefixed form one and the same.
\<close>

section \<open>Steps of the store\<close>

inductive ledger_step :: "'d::linordered_idom store_state \<Rightarrow> 'd store_state \<Rightarrow> bool" where
  reserve: "env_ok E \<Longrightarrow> ReserveBalance E u orderID asset amount s = (r, t) \<Longrightarrow> ledger_step s t"
| release: "env_ok E \<Longrightarrow> ReleaseReservation E orderID s = (r', t) \<Longrightarrow> ledger_step s t"
| settle: "env_ok E \<Longrightarrow> ApplySettlement E req s = (r'', t) \<Longrightarrow> ledger_step s t"

inductive_cases ledger_stepE: "ledger_step s t"

definition asset_total :: "string \<Rightarrow> 'd::linordered_idom ledger_db \<Rightarrow> 'd" where
  "asset_total A db = rows_sum (\<lambda>_ B. B = A) (t_ledger_accounts db)"

definition store_inv :: "'d::linordered_idom store_state \<Rightarrow> bool" where
  "store_inv s \<longleftrightarrow> ledger_inv (ss_db s) \<and> cache_ok (ss_feeCache s)"

lemma NewStore_inv: "ledger_inv db \<Longrightarrow> store_inv (NewStore db)"
  by (simp add: store_inv_def NewStore_def)

text \<open>The contract of a step: the invariant is kept and no asset is created or destroyed.\<close>

definition sound_step :: "'d::linordered_idom store_state \<Rightarrow> 'd store_state \<Rightarrow> bool" where
  "sound_step s t \<longleftrightarrow> store_inv t \<and> (\<forall>A. asset_total A (ss_db t) = asset_total A (ss_db s))"

lemma sound_step_refl: "store_inv s \<Longrightarrow> sound_step s s"
  by (simp add: sound_step_def)

lemma sound_step_trans: "sound_step s t \<Longrightarrow> sound_step t u \<Longrightarrow> sound_step s u"
  by (simp add: sound_step_def)

lemma ReserveBalance_sound:
  assumes "env_ok E" and "store_inv s" and "ReserveBalance E u orderID asset amount s = (r, t)"
  shows "sound_step s t"
proof -
  have "ss_feeCache t = ss_feeCache s" using keeps_ReserveBalance [of E u orderID asset amount] assms(3) by (auto simp: keeps_def)
  moreover have "ledger_inv (ss_db t) \<and> (\<forall>P. rows_sum P (t_ledger_accounts (ss_db t)) = rows_sum P (t_ledger_accounts (ss_db s)))"
    using wp_ReserveBalance [of E s u orderID asset amount] assms
    by (cases r) (auto simp: wp_def env_ok_def store_inv_def reserves_def split: if_splits)
  ultimately show ?thesis using assms(2) by (simp add: sound_step_def store_inv_def asset_total_def)
qed

lemma releases_sums:
  "releases orderID db r0 x db' \<Longrightarrow> ledger_inv db' \<and> (\<forall>P. rows_sum P (t_ledger_accounts db') = rows_sum P (t_ledger_accounts db))"
  by (cases "balance_of db (br_AccountID r0) (br_Asset r0)") (simp add: releases_def Let_def)

lemma ReleaseReservation_sound:
  assumes "env_ok E" and "store_inv s" and "ReleaseReservation E orderID s = (r, t)"
  shows "sound_step s t"
proof -
  have "ss_feeCache t = ss_feeCache s" using keeps_ReleaseReservation [of E orderID] assms(3) by (auto simp: keeps_def)
  moreover have "ledger_inv (ss_db t) \<and> (\<forall>P. rows_sum P (t_ledger_accounts (ss_db t)) = rows_sum P (t_ledger_accounts (ss_db s)))"
    using wp_ReleaseReservation [of E s orderID] assms
    by (cases r) (auto simp: wp_def env_ok_def store_inv_def dest: releases_sums split: prod.splits)
  ultimately show ?thesis using assms(2) by (simp add: sound_step_def store_inv_def asset_total_def)
qed

lemma settlement_entries_balanced:
  "uuid_text (se_uuidString E) \<Longrightarrow> pe_sum (\<lambda>_ B. B = A) (settlement_entries E req u mf tf) = 0"
  using settlement_balanced [of "se_uuidString E" A]
  by (auto simp: settlement_entries_def asset_net_pe_sum split: sum.splits prod.splits)

lemma settlement_post_total:
  "settlement_post E req db res db' \<Longrightarrow> uuid_text (se_uuidString E) \<Longrightarrow> asset_total A db' = asset_total A db"
  by (auto simp: settlement_post_def settles_def asset_total_def same_ledger_def settlement_entries_balanced split: if_splits)

lemma ApplySettlement_sound:
  assumes "env_ok E" and "store_inv s" and "ApplySettlement E req s = (r, t)"
  shows "sound_step s t"
proof -
  have "asset_total A (ss_db t) = asset_total A (ss_db s)" for A
    using wp_ApplySettlement [of E s req] assms settlement_post_total
    by (cases r) (auto simp: wp_def env_ok_def store_inv_def)
  then show ?thesis
    using ApplySettlement_keeps_inv [OF assms(1) _ _ assms(3)] assms(2) by (simp add: sound_step_def store_inv_def)
qed

lemmas store_sound = ReserveBalance_sound ReleaseReservation_sound ApplySettlement_sound

lemma ledger_step_sound: "ledger_step s t \<Longrightarrow> store_inv s \<Longrightarrow> sound_step s t"
  by (erule ledger_stepE) (auto intro: store_sound)

lemma ledger_reachable_sound: "ledger_step\<^sup>*\<^sup>* s t \<Longrightarrow> store_inv s \<Longrightarrow> sound_step s t"
proof (induction rule: rtranclp_induct)
  case (step t u)
  then have "sound_step s t" by simp
  moreover from this step have "sound_step t u" by (intro ledger_step_sound) (simp_all add: sound_step_def)
  ultimately show ?case by (rule sound_step_trans)
qed (rule sound_step_refl)

text \<open>
  C16: Every state the store can reach, by reservations, releases and settlements in any order and with any failures, has consistent tables: no
  balance is negative, account rows and reservations are unique, no reservation is consumed beyond
  its amount, every entry has a positive amount on an existing ledger account. And money is conserved: the sum of all balances in an asset is what it was at the start.
\<close>

theorem ledger_conserves:
  assumes "ledger_step\<^sup>*\<^sup>* s t" and "store_inv s"
  shows "ledger_inv (ss_db t) \<and> cache_ok (ss_feeCache t) \<and> asset_total A (ss_db t) = asset_total A (ss_db s)"
  using ledger_reachable_sound [OF assms] by (simp add: sound_step_def store_inv_def)

definition sample_settled :: "int store_state" where
  "sample_settled = snd (ApplySettlement sample_store_env sample_trade (snd (ReserveBalance sample_store_env 10 30 ''USD'' 8 sample_store)))"

theorem ledger_conserves_witness:
  "asset_total ''USD'' (ss_db sample_settled) = 20 \<and> balance_of (ss_db sample_settled) 10 ''USD'' = (11, 0)"
proof
  have ok: "env_ok sample_store_env" by (simp add: env_ok_def)
  have "ledger_step sample_store (snd (ReserveBalance sample_store_env 10 30 ''USD'' 8 sample_store))"
    by (rule ledger_step.reserve [OF ok]) (rule prod.collapse [symmetric])
  moreover have "ledger_step (snd (ReserveBalance sample_store_env 10 30 ''USD'' 8 sample_store)) sample_settled"
    unfolding sample_settled_def by (rule ledger_step.settle [OF ok]) (rule prod.collapse [symmetric])
  ultimately have "ledger_step\<^sup>*\<^sup>* sample_store sample_settled" by (meson converse_rtranclp_into_rtranclp rtranclp.rtrancl_refl)
  from ledger_conserves [OF this, of "''USD''"] have "asset_total ''USD'' (ss_db sample_settled) = asset_total ''USD'' (ss_db sample_store)"
    by (simp add: store_inv_def)
  also have "\<dots> = 20" by code_simp
  finally show "asset_total ''USD'' (ss_db sample_settled) = 20" .
  show "balance_of (ss_db sample_settled) 10 ''USD'' = (11, 0)" by code_simp
qed

section \<open>Event keys\<close>

lemma TrimSpace_prefix:
  assumes "TrimSpace x = x" and "x \<noteq> []"
  shows "TrimSpace (ledgerEventPrefix @ x) = ledgerEventPrefix @ x"
proof -
  have "rev x = dropWhile isSpace (rev (dropWhile isSpace x))" using assms(1) by (metis TrimSpace_def rev_rev_ident)
  then have "\<not> isSpace (hd (rev x))"
    using dropWhile_hd [of isSpace "rev (dropWhile isSpace x)"] assms(2) by (metis rev_is_Nil_conv)
  then have "dropWhile isSpace (rev (ledgerEventPrefix @ x)) = rev (ledgerEventPrefix @ x)"
    using assms(2) by (cases "rev x") auto
  moreover have "dropWhile isSpace (ledgerEventPrefix @ x) = ledgerEventPrefix @ x" by (simp add: ledgerEventPrefix_def isSpace_def)
  ultimately show ?thesis by (simp add: TrimSpace_def)
qed

lemma ledgerEventPrefix_not_Nil [simp]: "ledgerEventPrefix \<noteq> []"
  by (simp add: ledgerEventPrefix_def)

lemma TrimPrefix_append [simp]: "TrimPrefix (p @ s) p = s"
  by (simp add: TrimPrefix_def)

lemma set_ledgerEventKeys:
  assumes "TrimSpace x = x" and "x \<noteq> []" and "\<not> HasPrefix x ledgerEventPrefix"
  shows "set (ledgerEventKeys x) = {x, ledgerEventPrefix @ x}"
    and "set (ledgerEventKeys (ledgerEventPrefix @ x)) = {x, ledgerEventPrefix @ x}"
  using assms TrimSpace_prefix [OF assms(1,2)]
  by (auto simp: ledgerEventKeys_def Let_def split: if_splits)

text \<open>
  Marking an event and asking for it agree, with or without the prefix \<open>ledger:\<close>. After an event ID has been marked
  in any form (with blanks around it, or prefixed), both the plain and the prefixed ID count as processed, and every event that was
  processed before still does; asking changes nothing.
\<close>

theorem event_marks_agree:
  assumes "TrimSpace x = x" and "x \<noteq> []" and "\<not> HasPrefix x ledgerEventPrefix"
    and "y = x \<or> y = ledgerEventPrefix @ x" and "z = x \<or> z = ledgerEventPrefix @ x"
    and "markEventProcessed E y s = (Inr (), t)" and "isEventProcessed E' z t = (Inr b, u)"
  shows "b \<and> ss_db u = ss_db t \<and> set (t_processed_events (ss_db s)) \<subseteq> set (t_processed_events (ss_db t)) \<and> same_ledger (ss_db s) (ss_db t)"
proof -
  have "wp (markEventProcessed E y) (\<lambda>_ t. same_ledger (ss_db s) (ss_db t) \<and> set (t_processed_events (ss_db s)) \<subseteq> set (t_processed_events (ss_db t))
      \<and> events_marked y (ss_db t)) (\<lambda>_ _. True) s" by (rule wp_markEventProcessed) auto
  from wp_Inr [OF this assms(6)] have mark: "same_ledger (ss_db s) (ss_db t)"
    "set (t_processed_events (ss_db s)) \<subseteq> set (t_processed_events (ss_db t))" "set (ledgerEventKeys y) \<subseteq> set (t_processed_events (ss_db t))"
    by (simp_all add: events_marked_def)
  have "wp (isEventProcessed E' z) (\<lambda>r u. ss_db u = ss_db t \<and> (r \<longleftrightarrow> set (ledgerEventKeys z) \<inter> set (t_processed_events (ss_db t)) \<noteq> {}))
      (\<lambda>_ _. True) t" by (rule wp_isEventProcessed) auto
  from wp_Inr [OF this assms(7)] have u: "ss_db u = ss_db t" and b: "b \<longleftrightarrow> set (ledgerEventKeys z) \<inter> set (t_processed_events (ss_db t)) \<noteq> {}" by simp_all
  have "set (ledgerEventKeys y) = set (ledgerEventKeys z)" "set (ledgerEventKeys z) \<noteq> {}"
    using assms(4,5) set_ledgerEventKeys [OF assms(1-3)] by auto
  then have "set (ledgerEventKeys z) \<inter> set (t_processed_events (ss_db t)) \<noteq> {}" using mark(3) by (metis Int_absorb2)
  then show ?thesis using mark(1,2) u b by simp
qed

theorem event_marks_agree_witness:
  "fst (isEventProcessed sample_store_env ''ledger:e1'' (snd (markEventProcessed sample_store_env ''e1'' sample_store))) = Inr True"
proof -
  have facts: "TrimSpace ''e1'' = ''e1''" "\<not> HasPrefix ''e1'' ledgerEventPrefix" "''ledger:e1'' = ledgerEventPrefix @ ''e1''" by code_simp+
  have "fst (markEventProcessed sample_store_env ''e1'' sample_store) = Inr ()" by code_simp
  then have m: "markEventProcessed sample_store_env ''e1'' sample_store = (Inr (), snd (markEventProcessed sample_store_env ''e1'' sample_store))"
    by (metis prod.collapse)
  have "case fst (isEventProcessed sample_store_env ''ledger:e1'' (snd (markEventProcessed sample_store_env ''e1'' sample_store))) of Inl _ \<Rightarrow> False | Inr _ \<Rightarrow> True"
    by code_simp
  then obtain b where b: "fst (isEventProcessed sample_store_env ''ledger:e1'' (snd (markEventProcessed sample_store_env ''e1'' sample_store))) = Inr b"
    by (auto split: sum.splits)
  then have "isEventProcessed sample_store_env ''ledger:e1'' (snd (markEventProcessed sample_store_env ''e1'' sample_store))
      = (Inr b, snd (isEventProcessed sample_store_env ''ledger:e1'' (snd (markEventProcessed sample_store_env ''e1'' sample_store))))"
    by (simp add: prod_eq_iff)
  from event_marks_agree [OF facts(1) _ facts(2) _ _ m this] facts(3) b show ?thesis by simp
qed

section \<open>Locked funds and fees\<close>

text \<open>
  A debit that is covered by a reservation at all may draw all of its amount from the locked balance, also
  the part that the reservation does not cover. Account 10 reserves 8 USD for order 30 and 9 USD for order 32 and buys for 8 USD with a fee of 1 USD
  on order 30: the fee is taken from the locked funds, and the 8 USD left there no longer cover
  the 9 USD that the reservation of order 32 still promises.
\<close>

definition sample_two_orders :: "int store_state" where
  "sample_two_orders = snd (ReserveBalance sample_store_env 10 32 ''USD'' 9 (snd (ReserveBalance sample_store_env 10 30 ''USD'' 8 sample_store)))"

lemma fee_drawn_from_other_reservation:
  "(let t = snd (ApplySettlement sample_store_env sample_trade sample_two_orders) in
    (balance_of (ss_db sample_two_orders) 10 ''USD'', balance_of (ss_db t) 10 ''USD'',
     map_option (\<lambda>r. (br_Status r, br_Amount r - br_ConsumedAmount r)) (reservation_for (ss_db t) 32)))
   = ((3, 17), (3, 8), Some (''active'', 9))"
  by code_simp

end
