(* ===== verification/Ledger_Service.thy ===== *)
theory Ledger_Service
  imports Ledger_Invariants Go_Service
begin

text \<open>
  The gRPC service of the ledger, \<^verbatim>\<open>services/ledger/internal/service/ledger_service.go\<close>: it validates requests, calls the store and maps
  errors to status codes. It works on the interface \<open>Store\<close>, a record of operations; the locale \<open>ledger_store\<close> states what
  the service relies on, and the store of \<^verbatim>\<open>postgres.go\<close> is shown to provide it.
\<close>

section \<open>Interface and requests\<close>

record ('s, 'd) store_ops =
  st_GetBalance :: "uuid \<Rightarrow> string \<Rightarrow> ('s, 'd LedgerAccount) prog"
  st_ReserveBalance :: "uuid \<Rightarrow> uuid \<Rightarrow> string \<Rightarrow> 'd \<Rightarrow> ('s, 'd BalanceReservation) prog"
  st_ReleaseReservation :: "uuid \<Rightarrow> ('s, 'd BalanceReservation \<times> 'd) prog"
  st_ApplySettlement :: "'d SettlementRequest \<Rightarrow> ('s, 'd SettlementResult) prog"
  st_GetEntriesByReference :: "uuid \<Rightarrow> ('s, 'd LedgerEntry list) prog"
  st_GetOrderAccountID :: "uuid \<Rightarrow> ('s, uuid) prog"
  st_GetBalancesByAccountAssets :: "'d LedgerAccount list \<Rightarrow> ('s, 'd LedgerAccount list) prog"

record GetBalanceResponse =
  gb_AccountId :: string
  gb_Asset :: string
  gb_Available :: string
  gb_Locked :: string
  gb_UpdatedAt :: string

record ReserveBalanceResponse =
  rb_Success :: bool
  rb_ReservationId :: string
  rb_AccountId :: string
  rb_Asset :: string
  rb_Amount :: string
  rb_Available :: string
  rb_Locked :: string

record ReleaseBalanceResponse =
  rl_Success :: bool
  rl_OrderId :: string
  rl_AccountId :: string
  rl_Asset :: string
  rl_ReleasedAmount :: string

record ApplySettlementRequest =
  as_TradeId :: string
  as_MakerOrderId :: string
  as_TakerOrderId :: string
  as_MakerAccountId :: string
  as_TakerAccountId :: string
  as_Symbol :: string
  as_Price :: string
  as_Quantity :: string
  as_MakerSide :: string

record ApplySettlementResponse =
  ar_Success :: bool
  ar_LedgerEntryIds :: "string list"

section \<open>Operations\<close>

definition parseUUID :: "'d service_env \<Rightarrow> string \<Rightarrow> string \<Rightarrow> go_error + uuid" where
  "parseUUID V v field =
     (let trimmed = TrimSpace v in
      if trimmed = [] then Inl (Errorf (field @ '' is required'') [])
      else case sv_parseUUID V trimmed of
          None \<Rightarrow> Inl (Errorf (''invalid '' @ field) [])
        | Some parsed \<Rightarrow> Inr parsed)"

definition parsePositiveDecimal :: "'d::linordered_idom service_env \<Rightarrow> string \<Rightarrow> string \<Rightarrow> go_error + 'd" where
  "parsePositiveDecimal V v field =
     (let trimmed = TrimSpace v in
      if trimmed = [] then Inl (Errorf (field @ '' is required'') [])
      else case NewFromString (sv_dec V) trimmed of
          None \<Rightarrow> Inl (Errorf (field @ '' must be a decimal'') [])
        | Some dec \<Rightarrow> if dec \<le> 0 then Inl (Errorf (field @ '' must be positive'') []) else Inr dec)"

definition LedgerService_GetBalance ::
  "'d service_env \<Rightarrow> ('s, 'd) store_ops \<Rightarrow> string \<Rightarrow> string \<Rightarrow> ('s, GetBalanceResponse) prog" where
  "LedgerService_GetBalance V S account_id raw_asset =
     orInvalid (parseUUID V account_id ''account_id'') (\<lambda>accountID.
     let asset = TrimSpace raw_asset in
     if asset = [] then fail (StatusErr InvalidArgument ''asset is required'')
     else
       attempt (st_GetBalance S accountID asset)
         (\<lambda>_. fail (StatusErr Internal ''balance lookup failed''))
         (\<lambda>balance. ret
           \<lparr>gb_AccountId = sv_uuidString V accountID, gb_Asset = la_Asset balance,
            gb_Available = DecString (sv_dec V) (la_BalanceAvailable balance),
            gb_Locked = DecString (sv_dec V) (la_BalanceLocked balance),
            gb_UpdatedAt = (if IsZeroTime (la_UpdatedAt balance) then [] else FormatRFC3339 (la_UpdatedAt balance))\<rparr>))"

definition LedgerService_ReserveBalance ::
  "'d::linordered_idom service_env \<Rightarrow> ('s, 'd) store_ops \<Rightarrow> string \<Rightarrow> string \<Rightarrow> string \<Rightarrow> string \<Rightarrow> ('s, ReserveBalanceResponse) prog" where
  "LedgerService_ReserveBalance V S account_id order_id raw_asset raw_amount =
     orInvalid (parseUUID V account_id ''account_id'') (\<lambda>accountID.
     orInvalid (parseUUID V order_id ''order_id'') (\<lambda>orderID.
     let asset = TrimSpace raw_asset in
     if asset = [] then fail (StatusErr InvalidArgument ''asset is required'')
     else
       orInvalid (parsePositiveDecimal V raw_amount ''amount'') (\<lambda>amount.
       attempt (st_ReserveBalance S accountID orderID asset amount)
         (\<lambda>err.
           if errors_Is err ErrInsufficientBalance then fail (StatusErr FailedPrecondition ''insufficient balance'')
           else if errors_Is err ErrReservationClosed then fail (StatusErr FailedPrecondition ''reservation closed'')
           else fail (StatusErr Internal ''reserve balance failed''))
         (\<lambda>reservation.
           attempt (st_GetBalance S accountID asset)
             (\<lambda>_. fail (StatusErr Internal ''reserve balance failed''))
             (\<lambda>balance. ret
               \<lparr>rb_Success = True, rb_ReservationId = sv_uuidString V (br_ID reservation),
                rb_AccountId = sv_uuidString V accountID, rb_Asset = asset,
                rb_Amount = DecString (sv_dec V) (br_Amount reservation),
                rb_Available = DecString (sv_dec V) (la_BalanceAvailable balance),
                rb_Locked = DecString (sv_dec V) (la_BalanceLocked balance)\<rparr>)))))"

definition LedgerService_ReleaseBalance ::
  "'d service_env \<Rightarrow> ('s, 'd) store_ops \<Rightarrow> string \<Rightarrow> ('s, ReleaseBalanceResponse) prog" where
  "LedgerService_ReleaseBalance V S order_id =
     orInvalid (parseUUID V order_id ''order_id'') (\<lambda>orderID.
     attempt (st_ReleaseReservation S orderID)
       (\<lambda>err.
         if errors_Is err ErrReservationNotFound then fail (StatusErr NotFound ''reservation not found'')
         else fail (StatusErr Internal ''release balance failed''))
       (\<lambda>(reservation, released). ret
         \<lparr>rl_Success = True, rl_OrderId = sv_uuidString V orderID,
          rl_AccountId = sv_uuidString V (br_AccountID reservation), rl_Asset = br_Asset reservation,
          rl_ReleasedAmount = DecString (sv_dec V) released\<rparr>))"

text \<open>An order ID that is blank stands for no order.\<close>

definition optionalUUID :: "'d service_env \<Rightarrow> string \<Rightarrow> string \<Rightarrow> go_error + uuid" where
  "optionalUUID V v field = (if TrimSpace v \<noteq> [] then parseUUID V v field else Inr uuid_Nil)"

definition applySettlement ::
  "'d::linordered_idom service_env \<Rightarrow> ('s, 'd) store_ops \<Rightarrow> ApplySettlementRequest \<Rightarrow> string \<Rightarrow> ('s, 'd SettlementResult) prog" where
  "applySettlement V S req eventID =
     orInvalid (parseUUID V (as_TradeId req) ''trade_id'') (\<lambda>tradeID.
     orInvalid (optionalUUID V (as_MakerOrderId req) ''maker_order_id'') (\<lambda>makerOrderID.
     orInvalid (optionalUUID V (as_TakerOrderId req) ''taker_order_id'') (\<lambda>takerOrderID.
     orInvalid (parseUUID V (as_MakerAccountId req) ''maker_account_id'') (\<lambda>makerAccountID.
     orInvalid (parseUUID V (as_TakerAccountId req) ''taker_account_id'') (\<lambda>takerAccountID.
     let symbol = TrimSpace (as_Symbol req); makerSide = ToLower (TrimSpace (as_MakerSide req)) in
     if symbol = [] then fail (StatusErr InvalidArgument ''symbol is required'')
     else if makerSide \<noteq> ''buy'' \<and> makerSide \<noteq> ''sell'' then fail (StatusErr InvalidArgument ''maker_side must be buy or sell'')
     else
       orInvalid (parsePositiveDecimal V (as_Price req) ''price'') (\<lambda>price.
       orInvalid (parsePositiveDecimal V (as_Quantity req) ''quantity'') (\<lambda>quantity.
       attempt (st_ApplySettlement S
           \<lparr>sr_TradeID = tradeID, sr_MakerOrderID = makerOrderID, sr_TakerOrderID = takerOrderID,
            sr_MakerAccountID = makerAccountID, sr_TakerAccountID = takerAccountID, sr_Symbol = symbol,
            sr_Price = price, sr_Quantity = quantity, sr_MakerSide = makerSide, sr_EventID = TrimSpace eventID\<rparr>)
         (\<lambda>_. fail (StatusErr Internal ''settlement failed''))
         ret)))))))"

definition ApplySettlementInternal ::
  "'d::linordered_idom service_env \<Rightarrow> ('s, 'd) store_ops \<Rightarrow> ApplySettlementRequest \<Rightarrow> string \<Rightarrow> ('s, 'd SettlementResult) prog" where
  "ApplySettlementInternal V S req eventID = applySettlement V S req eventID"

definition LedgerService_ApplySettlement ::
  "'d::linordered_idom service_env \<Rightarrow> ('s, 'd) store_ops \<Rightarrow> ApplySettlementRequest \<Rightarrow> ('s, ApplySettlementResponse) prog" where
  "LedgerService_ApplySettlement V S req =
     bindM (applySettlement V S req (as_TradeId req)) (\<lambda>result.
     let entryIDs = map (sv_uuidString V) (sres_EntryIDs result) in
     if sres_AlreadyProcessed result \<and> entryIDs = [] then
       orInvalid (parseUUID V (as_TradeId req) ''trade_id'') (\<lambda>tradeID.
       attempt (st_GetEntriesByReference S tradeID)
         (\<lambda>_. fail (StatusErr Internal ''duplicate settlement lookup failed''))
         (\<lambda>entries.
           let entryIDs = map (\<lambda>e. sv_uuidString V (le_ID e)) entries in
           if entryIDs = [] then fail (StatusErr Internal ''duplicate settlement missing entries'')
           else ret \<lparr>ar_Success = True, ar_LedgerEntryIds = entryIDs\<rparr>))
     else ret \<lparr>ar_Success = True, ar_LedgerEntryIds = entryIDs\<rparr>)"

section \<open>What the service relies on\<close>

text \<open>
  What every call of the service guarantees: soundness in any case, and the tables untouched for the status codes that
  say that the request was refused.
\<close>

definition refused :: "go_error \<Rightarrow> bool" where
  "refused e \<longleftrightarrow> (\<exists>m. e = StatusErr InvalidArgument m \<or> e = StatusErr FailedPrecondition m \<or> e = StatusErr NotFound m)"

definition served :: "('s \<Rightarrow> 'v) \<Rightarrow> ('s \<Rightarrow> 's \<Rightarrow> bool) \<Rightarrow> ('s, 'a) prog \<Rightarrow> 's \<Rightarrow> bool" where
  "served view sound m s \<longleftrightarrow> wp m (\<lambda>_ t. sound s t) (\<lambda>e t. sound s t \<and> (refused e \<longrightarrow> view t = view s)) s"

text \<open>
  The contract of the store: \<open>inv\<close> is its invariant, \<open>view\<close> the tables it keeps, and \<open>sound\<close> relates the states before and
  after an operation that may write. Reads keep the tables; a write that fails keeps them as well.
\<close>

locale ledger_store =
  fixes S :: "('s, 'd::linordered_idom) store_ops"
    and inv :: "'s \<Rightarrow> bool"
    and view :: "'s \<Rightarrow> 'v"
    and sound :: "'s \<Rightarrow> 's \<Rightarrow> bool"
  assumes sound_refl: "inv s \<Longrightarrow> sound s s"
    and sound_trans: "sound s t \<Longrightarrow> sound t s' \<Longrightarrow> sound s s'"
    and sound_inv: "sound s t \<Longrightarrow> inv t"
    and reserve_sound: "inv s \<Longrightarrow> st_ReserveBalance S u orderID a x s = (r, t) \<Longrightarrow> sound s t"
    and reserve_error: "inv s \<Longrightarrow> st_ReserveBalance S u orderID a x s = (Inl e, t) \<Longrightarrow> view t = view s"
    and release_sound: "inv s \<Longrightarrow> st_ReleaseReservation S orderID s = (r', t) \<Longrightarrow> sound s t"
    and release_error: "inv s \<Longrightarrow> st_ReleaseReservation S orderID s = (Inl e, t) \<Longrightarrow> view t = view s"
    and settle_sound: "inv s \<Longrightarrow> st_ApplySettlement S req s = (r'', t) \<Longrightarrow> sound s t"
    and settle_error: "inv s \<Longrightarrow> st_ApplySettlement S req s = (Inl e, t) \<Longrightarrow> view t = view s"
    and balance_read: "inv s \<Longrightarrow> st_GetBalance S u a s = (b, t) \<Longrightarrow> sound s t \<and> view t = view s"
    and entries_read: "inv s \<Longrightarrow> st_GetEntriesByReference S ref s = (es, t) \<Longrightarrow> sound s t \<and> view t = view s"
    and order_read: "inv s \<Longrightarrow> st_GetOrderAccountID S orderID s = (acc, t) \<Longrightarrow> sound s t \<and> view t = view s"
    and balances_read: "inv s \<Longrightarrow> st_GetBalancesByAccountAssets S keys s = (bs, t) \<Longrightarrow> sound s t \<and> view t = view s"
begin

lemma wp_reserve:
  "inv s \<Longrightarrow> (\<And>r t. sound s t \<Longrightarrow> Q r t) \<Longrightarrow> (\<And>e t. sound s t \<Longrightarrow> view t = view s \<Longrightarrow> X e t)
   \<Longrightarrow> wp (st_ReserveBalance S u orderID a x) Q X s"
  by (rule wp_I; metis reserve_sound reserve_error)

lemma wp_release:
  "inv s \<Longrightarrow> (\<And>r t. sound s t \<Longrightarrow> Q r t) \<Longrightarrow> (\<And>e t. sound s t \<Longrightarrow> view t = view s \<Longrightarrow> X e t)
   \<Longrightarrow> wp (st_ReleaseReservation S orderID) Q X s"
  by (rule wp_I; metis release_sound release_error)

lemma wp_settle:
  "inv s \<Longrightarrow> (\<And>r t. sound s t \<Longrightarrow> Q r t) \<Longrightarrow> (\<And>e t. sound s t \<Longrightarrow> view t = view s \<Longrightarrow> X e t)
   \<Longrightarrow> wp (st_ApplySettlement S req) Q X s"
  by (rule wp_I; metis settle_sound settle_error)

lemma wp_reads:
  assumes "inv s"
  shows "(\<And>r t. sound s t \<Longrightarrow> view t = view s \<Longrightarrow> Q1 r t) \<Longrightarrow> (\<And>e t. sound s t \<Longrightarrow> view t = view s \<Longrightarrow> X e t) \<Longrightarrow> wp (st_GetBalance S u a) Q1 X s"
    and "(\<And>r t. sound s t \<Longrightarrow> view t = view s \<Longrightarrow> Q2 r t) \<Longrightarrow> (\<And>e t. sound s t \<Longrightarrow> view t = view s \<Longrightarrow> X e t) \<Longrightarrow> wp (st_GetEntriesByReference S ref) Q2 X s"
    and "(\<And>r t. sound s t \<Longrightarrow> view t = view s \<Longrightarrow> Q3 r t) \<Longrightarrow> (\<And>e t. sound s t \<Longrightarrow> view t = view s \<Longrightarrow> X e t) \<Longrightarrow> wp (st_GetOrderAccountID S orderID) Q3 X s"
    and "(\<And>r t. sound s t \<Longrightarrow> view t = view s \<Longrightarrow> Q4 r t) \<Longrightarrow> (\<And>e t. sound s t \<Longrightarrow> view t = view s \<Longrightarrow> X e t) \<Longrightarrow> wp (st_GetBalancesByAccountAssets S keys) Q4 X s"
  using assms balance_read entries_read order_read balances_read by (auto intro!: wp_I)

lemma GetBalance_served: "inv s \<Longrightarrow> served view sound (LedgerService_GetBalance V S acc a) s"
  unfolding served_def LedgerService_GetBalance_def Let_def
  by (intro wp_orInvalid wp_intro wp_reads) (auto simp: refused_def sound_refl)

lemma ReserveBalance_served: "inv s \<Longrightarrow> served view sound (LedgerService_ReserveBalance V S acc ord a x) s"
  unfolding served_def LedgerService_ReserveBalance_def Let_def
  by (intro wp_orInvalid wp_intro wp_reserve wp_reads) (auto simp: refused_def sound_refl intro: sound_inv sound_trans)

lemma ReleaseBalance_served: "inv s \<Longrightarrow> served view sound (LedgerService_ReleaseBalance V S ord) s"
  unfolding served_def LedgerService_ReleaseBalance_def Let_def split_beta
  by (intro wp_orInvalid wp_intro wp_release) (auto simp: refused_def sound_refl)

lemma wp_applySettlement:
  assumes "inv s" and "\<And>r t tr. sound s t \<Longrightarrow> parseUUID V (as_TradeId req) ''trade_id'' = Inr tr \<Longrightarrow> Q r t"
    and "\<And>e t. sound s t \<Longrightarrow> (refused e \<longrightarrow> view t = view s) \<Longrightarrow> X e t"
  shows "wp (applySettlement V S req ev) Q X s"
  unfolding applySettlement_def Let_def
  by (intro wp_orInvalid wp_intro wp_settle assms) (auto simp: refused_def sound_refl assms(1))

lemma ApplySettlement_served: "inv s \<Longrightarrow> served view sound (LedgerService_ApplySettlement V S req) s"
  unfolding served_def LedgerService_ApplySettlement_def Let_def
  apply (intro wp_intro wp_applySettlement)
     apply simp_all
  subgoal for r t tr
    by (simp add: orInvalid_def) (intro wp_intro wp_reads; auto simp: refused_def intro: sound_inv sound_trans)
  done

end

section \<open>The store provides it\<close>

definition ledgerStore :: "'d::linordered_idom store_env \<Rightarrow> ('d store_state, 'd) store_ops" where
  "ledgerStore E =
     \<lparr>st_GetBalance = GetBalance E, st_ReserveBalance = ReserveBalance E, st_ReleaseReservation = ReleaseReservation E,
      st_ApplySettlement = ApplySettlement E, st_GetEntriesByReference = GetEntriesByReference E,
      st_GetOrderAccountID = GetOrderAccountID E, st_GetBalancesByAccountAssets = GetBalancesByAccountAssets E\<rparr>"

lemma ledgerStore_simps [simp]:
  "st_GetBalance (ledgerStore E) = GetBalance E" "st_ReserveBalance (ledgerStore E) = ReserveBalance E"
  "st_ReleaseReservation (ledgerStore E) = ReleaseReservation E" "st_ApplySettlement (ledgerStore E) = ApplySettlement E"
  "st_GetEntriesByReference (ledgerStore E) = GetEntriesByReference E" "st_GetOrderAccountID (ledgerStore E) = GetOrderAccountID E"
  "st_GetBalancesByAccountAssets (ledgerStore E) = GetBalancesByAccountAssets E"
  by (simp_all add: ledgerStore_def)

text \<open>The reads outside of a transaction change neither the tables nor the cache.\<close>

definition reads :: "('d, 'a) store \<Rightarrow> bool" where
  "reads m \<longleftrightarrow> (\<forall>s r t. m s = (r, t) \<longrightarrow> ss_db t = ss_db s \<and> ss_feeCache t = ss_feeCache s)"

lemma reads_bindM: "reads m \<Longrightarrow> (\<And>a. reads (k a)) \<Longrightarrow> reads (bindM m k)"
  unfolding reads_def bindM_def by (fastforce split: prod.splits sum.splits)

lemma reads_attempt: "reads m \<Longrightarrow> (\<And>e. reads (h e)) \<Longrightarrow> (\<And>a. reads (k a)) \<Longrightarrow> reads (attempt m h k)"
  unfolding reads_def attempt_def by (fastforce split: prod.splits sum.splits)

lemma reads_if: "reads m \<Longrightarrow> reads n \<Longrightarrow> reads (if b then m else n)"
  by simp

lemma reads_basic: "reads (ret a)" "reads (fail e)" "reads (parseColumn E what v)"
  by (auto simp: reads_def ret_def fail_def parseColumn_def split: option.splits)

lemma reads_foldM: "(\<And>a x. reads (f a x)) \<Longrightarrow> reads (foldM f xs a)"
  by (induction xs arbitrary: a) (auto intro: reads_basic reads_bindM)

lemma reads_queries:
  "reads (poolQuery E (sql_ledger_account u a))" "reads (poolQuery E (sql_order_account orderID))"
  "reads (poolQuery E (sql_balances_in keys))" "reads (poolQuery E (sql_entries_by_reference ty ref))"
  by (auto simp: reads_def poolQuery_def Let_def sql_ledger_account_def sql_order_account_def sql_balances_in_def sql_entries_by_reference_def
      split: sum.splits option.splits if_splits)

lemmas reads_intro = reads_bindM reads_attempt reads_if reads_basic reads_foldM reads_queries

lemma reads_store: "reads (GetBalance E u a)" "reads (GetOrderAccountID E orderID)" "reads (GetEntriesByReference E ref)"
  "reads (GetBalancesByAccountAssets E assets)"
  unfolding GetBalance_def GetOrderAccountID_def GetEntriesByReference_def GetBalancesByAccountAssets_def scanBalance_def scanEntry_def scanAccount_def
  by (intro reads_intro)+

lemma reads_sound: "reads m \<Longrightarrow> store_inv s \<Longrightarrow> m s = (r, t) \<Longrightarrow> sound_step s t \<and> ss_db t = ss_db s"
  by (auto simp: reads_def sound_step_def store_inv_def)

interpretation ledger: ledger_store "ledgerStore E" "\<lambda>s. env_ok E \<and> store_inv s" ss_db "\<lambda>s t. env_ok E \<and> sound_step s t" for E
proof (unfold_locales, goal_cases)
  case (5 s u orderID a x e t)
  then show ?case using wp_ReserveBalance [of E s u orderID a x] by (simp add: wp_def env_ok_def store_inv_def)
next
  case (7 s orderID e t)
  then show ?case using wp_ReleaseReservation [of E s orderID] by (simp add: wp_def env_ok_def store_inv_def)
next
  case (9 s req e t)
  then show ?case using wp_ApplySettlement [of E s req] by (simp add: wp_def env_ok_def store_inv_def)
next
  case (3 s t)
  then show ?case by (simp add: sound_step_def)
qed (auto intro: sound_step_refl sound_step_trans store_sound
    dest: reads_sound [OF reads_store(1)] reads_sound [OF reads_store(2)] reads_sound [OF reads_store(3)] reads_sound [OF reads_store(4)])

section \<open>Properties\<close>

lemma served_mono: "served view sound m s \<Longrightarrow> (\<And>t. sound s t \<Longrightarrow> sound' s t) \<Longrightarrow> served view sound' m s"
  unfolding served_def by (erule wp_conseq) auto

text \<open>
  Every call of the ledger service on the store, with any request and any failures, leaves the ledger consistent and the amount of every asset
  unchanged; and when it answers \<open>InvalidArgument\<close>, \<open>FailedPrecondition\<close> or \<open>NotFound\<close>, the tables are untouched.
\<close>

theorem LedgerService_served:
  assumes "env_ok E" and "store_inv s"
  shows "served ss_db sound_step (LedgerService_GetBalance V (ledgerStore E) acc a) s
    \<and> served ss_db sound_step (LedgerService_ReserveBalance V (ledgerStore E) acc ord a x) s
    \<and> served ss_db sound_step (LedgerService_ReleaseBalance V (ledgerStore E) ord) s
    \<and> served ss_db sound_step (LedgerService_ApplySettlement V (ledgerStore E) req) s"
  using ledger.GetBalance_served [of E s V acc a] ledger.ReserveBalance_served [of E s V acc ord a x]
    ledger.ReleaseBalance_served [of E s V ord] ledger.ApplySettlement_served [of E s V req] assms
  by (auto elim!: served_mono)

definition sample_service_env :: "int service_env" where
  "sample_service_env = \<lparr>sv_parseUUID = (\<lambda>s. map_option of_int (parse_int s)), sv_uuidString = sample_uuid_text, sv_dec = int_decimal\<rparr>"

theorem LedgerService_served_witness:
  "served ss_db sound_step (LedgerService_ReserveBalance sample_service_env (ledgerStore sample_store_env) ''10'' ''30'' ''USD'' ''25'') sample_store
   \<and> fst (LedgerService_ReserveBalance sample_service_env (ledgerStore sample_store_env) ''10'' ''30'' ''USD'' ''25'' sample_store)
     = Inl (StatusErr FailedPrecondition ''insufficient balance'')"
proof
  have "env_ok sample_store_env" "store_inv sample_store" by (simp_all add: env_ok_def store_inv_def)
  from LedgerService_served [OF this]
  show "served ss_db sound_step (LedgerService_ReserveBalance sample_service_env (ledgerStore sample_store_env) ''10'' ''30'' ''USD'' ''25'') sample_store"
    by blast
  show "fst (LedgerService_ReserveBalance sample_service_env (ledgerStore sample_store_env) ''10'' ''30'' ''USD'' ''25'' sample_store)
     = Inl (StatusErr FailedPrecondition ''insufficient balance'')" by code_simp
qed

text \<open>
  The store reserves under the upper-case asset, but the service then reads the balance under the spelling of the request: a
  reservation of 15 usd of the 20 USD of account 10 is granted and answered with no balance at all.
\<close>

lemma ReserveBalance_lower_case:
  "map_prod (map_sum id (\<lambda>r. (rb_Amount r, rb_Available r, rb_Locked r))) (\<lambda>t. balance_of (ss_db t) 10 ''USD'')
     (LedgerService_ReserveBalance sample_service_env (ledgerStore sample_store_env) ''10'' ''30'' ''usd'' ''15'' sample_store)
   = (Inr (''15'', ''0'', ''0''), (5, 15))"
  by code_simp

end
