(* ===== verification/Trade_Consumer.thy ===== *)
theory Trade_Consumer
  imports Ledger_Service Kafka
begin

text \<open>
  The consumer of executed trades, \<^verbatim>\<open>services/ledger/internal/consumer/trade_consumer.go\<close>: it looks up the accounts of the two orders, has the
  trade settled and publishes the ledger entries and balances per account. It joins the ledger service with the
  Kafka publisher: its properties are proved over both contracts, \<open>ledger_store\<close> and \<open>publisher\<close>, and then
  for the store and the synchronous producer.
\<close>

section \<open>Events\<close>

definition tradesExecutedEventType :: string where
  "tradesExecutedEventType = ''trades.executed''"

definition ledgerEntriesEventType :: string where
  "ledgerEntriesEventType = ''ledger.entries''"

definition balancesUpdatedEventType :: string where
  "balancesUpdatedEventType = ''balances.updated''"

record TradeEvent =
  te_Envelope :: Envelope
  te_TradeID :: string
  te_Symbol :: string
  te_MakerOrderID :: string
  te_TakerOrderID :: string
  te_Price :: string
  te_Quantity :: string
  te_MakerSide :: string
  te_ExecutedAt :: string

record LedgerEntryEvent =
  lee_EntryID :: string
  lee_Asset :: string
  lee_EntryType :: string
  lee_Amount :: string
  lee_ReferenceID :: string
  lee_CreatedAt :: string

record BalanceUpdate =
  bu_Asset :: string
  bu_Available :: string
  bu_Locked :: string
  bu_UpdatedAt :: string

record LedgerEntriesEvent =
  lev_Envelope :: Envelope
  lev_TradeID :: string
  lev_AccountID :: string
  lev_Entries :: "LedgerEntryEvent list"

record BalancesUpdatedEvent =
  bev_Envelope :: Envelope
  bev_TradeID :: string
  bev_AccountID :: string
  bev_Balances :: "BalanceUpdate list"

datatype ledger_payload = EntriesPayload LedgerEntriesEvent | BalancesPayload BalancesUpdatedEvent

definition TradeEvent_Validate :: "'d decimal_ops \<Rightarrow> TradeEvent \<Rightarrow> go_error option" where
  "TradeEvent_Validate D e =
     (case Envelope_Validate (te_Envelope e) of
        Some err \<Rightarrow> Some err
      | None \<Rightarrow>
          if env_EventType (te_Envelope e) \<noteq> tradesExecutedEventType
          then Some (Errorf ''unexpected event_type: %s'' [AStr (env_EventType (te_Envelope e))])
          else if TrimSpace (te_TradeID e) = [] then Some (Errorf ''trade_id is required'' [])
          else if TrimSpace (te_Symbol e) = [] then Some (Errorf ''symbol is required'' [])
          else if TrimSpace (te_MakerOrderID e) = [] then Some (Errorf ''maker_order_id is required'' [])
          else if TrimSpace (te_TakerOrderID e) = [] then Some (Errorf ''taker_order_id is required'' [])
          else if TrimSpace (te_Price e) = [] then Some (Errorf ''price is required'' [])
          else if TrimSpace (te_Quantity e) = [] then Some (Errorf ''quantity is required'' [])
          else if NewFromString D (TrimSpace (te_Price e)) = None then Some (Errorf ''price must be decimal'' [])
          else if NewFromString D (TrimSpace (te_Quantity e)) = None then Some (Errorf ''quantity must be decimal'' [])
          else
            (let side = ToLower (TrimSpace (te_MakerSide e)) in
             if side \<noteq> ''buy'' \<and> side \<noteq> ''sell'' then Some (Errorf ''maker_side must be buy or sell'' []) else None))"

section \<open>Consumer\<close>

text \<open>
  The consumer's state is the store's and the producer's. The environment gives the store, the service, the publisher (\<open>None\<close> when it is
  nil), the JSON decoder, the clock, the hash of \<open>DeterministicEventID\<close> and the order in which \<open>range\<close> visits the keys of a map.
\<close>

record ('s, 'p) trade_state =
  ts_store :: 's
  ts_producer :: 'p

record ('s, 'p, 'd) trade_env =
  tc_store :: "('s, 'd) store_ops"
  tc_service :: "'d service_env"
  tc_publish :: "('p, ledger_payload) publish option"
  tc_decode :: "string \<Rightarrow> go_error + TradeEvent"
  tc_now :: time
  tc_sha1 :: "string \<Rightarrow> string"
  tc_order :: "uuid list \<Rightarrow> uuid list"

definition onStore :: "('s, 'a) prog \<Rightarrow> (('s, 'p) trade_state, 'a) prog" where
  "onStore m st = (case m (ts_store st) of (r, s) \<Rightarrow> (r, st\<lparr>ts_store := s\<rparr>))"

text \<open>\<open>parseUUID\<close> of this package is the same function as the service's.\<close>

definition consumer_parseUUID :: "'d service_env \<Rightarrow> string \<Rightarrow> string \<Rightarrow> go_error + uuid" where
  "consumer_parseUUID V v field =
     (let trimmed = TrimSpace v in
      if trimmed = [] then Inl (Errorf (field @ '' is required'') [])
      else case sv_parseUUID V trimmed of None \<Rightarrow> Inl (Errorf (''invalid '' @ field) []) | Some parsed \<Rightarrow> Inr parsed)"

definition buildBalanceLookup :: "(uuid \<Rightarrow> string) \<Rightarrow> 'd::linordered_idom LedgerEntry list \<Rightarrow> 'd LedgerAccount list" where
  "buildBalanceLookup str entries =
     map snd (foldl (\<lambda>seen entry.
         let key = str (le_AccountID entry) @ '':'' @ ToUpper (le_Asset entry) in
         case map_of seen key of
           Some _ \<Rightarrow> seen
         | None \<Rightarrow> AList.update key
             \<lparr>la_ID = uuid_Nil, la_AccountID = le_AccountID entry, la_Asset = le_Asset entry, la_BalanceAvailable = 0,
              la_BalanceLocked = 0, la_UpdatedAt = 0\<rparr> seen) [] entries)"

text \<open>\<open>m[k] = append(m[k], v)\<close> for every element.\<close>

definition groupBy :: "('a \<Rightarrow> uuid) \<Rightarrow> ('a \<Rightarrow> 'b) \<Rightarrow> 'a list \<Rightarrow> (uuid \<times> 'b list) list" where
  "groupBy key f xs =
     foldl (\<lambda>m x. AList.update (key x) ((case map_of m (key x) of None \<Rightarrow> [] | Some l \<Rightarrow> l) @ [f x]) m) [] xs"

text \<open>\<open>for k, v := range m\<close>: every key once, in an order the language leaves open.\<close>

definition rangeMap :: "(uuid list \<Rightarrow> uuid list) \<Rightarrow> (uuid \<times> 'b list) list \<Rightarrow> (uuid \<times> 'b list) list" where
  "rangeMap order m = map (\<lambda>k. (k, case map_of m k of None \<Rightarrow> [] | Some l \<Rightarrow> l)) (order (map fst m))"

definition entryEvent :: "'d service_env \<Rightarrow> 'd LedgerEntry \<Rightarrow> LedgerEntryEvent" where
  "entryEvent V entry =
     \<lparr>lee_EntryID = sv_uuidString V (le_ID entry), lee_Asset = le_Asset entry, lee_EntryType = le_EntryType entry,
      lee_Amount = DecString (sv_dec V) (le_Amount entry), lee_ReferenceID = sv_uuidString V (le_ReferenceID entry),
      lee_CreatedAt = FormatRFC3339 (le_CreatedAt entry)\<rparr>"

definition balanceUpdate :: "'d service_env \<Rightarrow> 'd LedgerAccount \<Rightarrow> BalanceUpdate" where
  "balanceUpdate V balance =
     \<lparr>bu_Asset = la_Asset balance, bu_Available = DecString (sv_dec V) (la_BalanceAvailable balance),
      bu_Locked = DecString (sv_dec V) (la_BalanceLocked balance), bu_UpdatedAt = FormatRFC3339 (la_UpdatedAt balance)\<rparr>"

definition publishGroup ::
  "('s, 'p, 'd) trade_env \<Rightarrow> ('p, ledger_payload) publish \<Rightarrow> string \<Rightarrow> string \<Rightarrow> string \<Rightarrow> (Envelope \<Rightarrow> string \<Rightarrow> 'b list \<Rightarrow> ledger_payload)
    \<Rightarrow> unit \<Rightarrow> uuid \<times> 'b list \<Rightarrow> (('s, 'p) trade_state, unit) prog" where
  "publishGroup C publish eventType correlationID tradeID payload = (\<lambda>_ (accountID, items) st.
     let key = sv_uuidString (tc_service C) accountID;
         eventID = DeterministicEventID (tc_sha1 C) [eventType, tradeID, key] in
     case NewEnvelopeWithID (tc_now C) eventID eventType 1 correlationID of
       Inl err \<Rightarrow> (Inl err, st)
     | Inr env \<Rightarrow>
         (case publish (ts_producer st) eventType key (payload env key items) of
            (Inl err, p) \<Rightarrow> (Inl err, st\<lparr>ts_producer := p\<rparr>)
          | (Inr _, p) \<Rightarrow> (Inr (), st\<lparr>ts_producer := p\<rparr>)))"

definition publishLedgerEntries ::
  "('s, 'p, 'd) trade_env \<Rightarrow> ('p, ledger_payload) publish \<Rightarrow> string \<Rightarrow> string \<Rightarrow> 'd LedgerEntry list \<Rightarrow> (('s, 'p) trade_state, unit) prog" where
  "publishLedgerEntries C publish correlationID tradeID entries =
     foldM (publishGroup C publish ledgerEntriesEventType correlationID tradeID
         (\<lambda>env account items. EntriesPayload
            \<lparr>lev_Envelope = env, lev_TradeID = tradeID, lev_AccountID = account, lev_Entries = items\<rparr>))
       (rangeMap (tc_order C) (groupBy le_AccountID (entryEvent (tc_service C)) entries)) ()"

definition publishBalanceUpdates ::
  "('s, 'p, 'd) trade_env \<Rightarrow> ('p, ledger_payload) publish \<Rightarrow> string \<Rightarrow> string \<Rightarrow> 'd LedgerAccount list \<Rightarrow> (('s, 'p) trade_state, unit) prog" where
  "publishBalanceUpdates C publish correlationID tradeID balances =
     foldM (publishGroup C publish balancesUpdatedEventType correlationID tradeID
         (\<lambda>env account items. BalancesPayload
            \<lparr>bev_Envelope = env, bev_TradeID = tradeID, bev_AccountID = account, bev_Balances = items\<rparr>))
       (rangeMap (tc_order C) (groupBy la_AccountID (balanceUpdate (tc_service C)) balances)) ()"

definition settlementRequest :: "'d service_env \<Rightarrow> TradeEvent \<Rightarrow> uuid \<Rightarrow> uuid \<Rightarrow> ApplySettlementRequest" where
  "settlementRequest V event makerAccountID takerAccountID =
     \<lparr>as_TradeId = te_TradeID event, as_MakerOrderId = te_MakerOrderID event, as_TakerOrderId = te_TakerOrderID event,
      as_MakerAccountId = sv_uuidString V makerAccountID, as_TakerAccountId = sv_uuidString V takerAccountID,
      as_Symbol = te_Symbol event, as_Price = te_Price event, as_Quantity = te_Quantity event, as_MakerSide = te_MakerSide event\<rparr>"

text \<open>The entries and balances to publish: those of the settlement, or the stored ones of a trade settled before.\<close>

definition settledRows ::
  "('s, 'p, 'd::linordered_idom) trade_env \<Rightarrow> TradeEvent \<Rightarrow> 'd SettlementResult \<Rightarrow> ('s, 'd LedgerEntry list \<times> 'd LedgerAccount list) prog" where
  "settledRows C event result =
     (if sres_AlreadyProcessed result then
        (case consumer_parseUUID (tc_service C) (te_TradeID event) ''trade_id'' of
           Inl err \<Rightarrow> fail err
         | Inr tradeID \<Rightarrow>
             bindM (st_GetEntriesByReference (tc_store C) tradeID) (\<lambda>entries.
             if entries = [] then fail (Errorf ''no ledger entries found for trade %s'' [AStr (te_TradeID event)])
             else
               bindM (st_GetBalancesByAccountAssets (tc_store C) (buildBalanceLookup (sv_uuidString (tc_service C)) entries)) (\<lambda>balances.
               if balances = [] then fail (Errorf ''no balances found for trade %s'' [AStr (te_TradeID event)])
               else ret (entries, balances))))
      else ret (sres_Entries result, sres_Balances result))"

definition settleTrade ::
  "('s, 'p, 'd::linordered_idom) trade_env \<Rightarrow> TradeEvent \<Rightarrow> uuid \<Rightarrow> uuid \<Rightarrow> ('s, 'd LedgerEntry list \<times> 'd LedgerAccount list) prog" where
  "settleTrade C event makerOrderID takerOrderID =
     attempt (st_GetOrderAccountID (tc_store C) makerOrderID) (\<lambda>err. fail (Wrapf ''lookup maker account: %w'' err)) (\<lambda>makerAccountID.
     attempt (st_GetOrderAccountID (tc_store C) takerOrderID) (\<lambda>err. fail (Wrapf ''lookup taker account: %w'' err)) (\<lambda>takerAccountID.
     bindM (ApplySettlementInternal (tc_service C) (tc_store C) (settlementRequest (tc_service C) event makerAccountID takerAccountID)
              (env_EventID (te_Envelope event))) (\<lambda>result.
     settledRows C event result)))"

definition correlationOf :: "TradeEvent \<Rightarrow> string" where
  "correlationOf event =
     (let correlationID = TrimSpace (env_CorrelationID (te_Envelope event)) in
      if correlationID \<noteq> [] then correlationID
      else
        (let eventID = TrimSpace (env_EventID (te_Envelope event)) in
         if eventID \<noteq> [] then eventID else te_TradeID event))"

definition publishSettled ::
  "('s, 'p, 'd) trade_env \<Rightarrow> TradeEvent \<Rightarrow> 'd LedgerEntry list \<Rightarrow> 'd LedgerAccount list \<Rightarrow> (('s, 'p) trade_state, unit) prog" where
  "publishSettled C event entries balances =
     (case tc_publish C of
        None \<Rightarrow> fail (Errorf ''kafka producer not configured'' [])
      | Some publish \<Rightarrow>
          bindM (publishLedgerEntries C publish (correlationOf event) (te_TradeID event) entries) (\<lambda>_.
          publishBalanceUpdates C publish (correlationOf event) (te_TradeID event) balances))"

definition TradeConsumer_HandleMessage ::
  "('s, 'p, 'd::linordered_idom) trade_env \<Rightarrow> ConsumerMessage option \<Rightarrow> (('s, 'p) trade_state, unit) prog" where
  "TradeConsumer_HandleMessage C msg =
     (case msg of
        None \<Rightarrow> fail (DLQErr ''empty_message'' (Errorf ''empty kafka message'' []))
      | Some m \<Rightarrow>
          if length (cm_Value m) = 0 then fail (DLQErr ''empty_message'' (Errorf ''empty kafka message'' []))
          else case tc_decode C (cm_Value m) of
            Inl err \<Rightarrow> fail (DLQErr ''decode'' (Wrapf ''decode trades.executed: %w'' err))
          | Inr event \<Rightarrow>
              (case TradeEvent_Validate (sv_dec (tc_service C)) event of
                 Some err \<Rightarrow> fail (DLQErr ''invalid_event'' err)
               | None \<Rightarrow>
                   (case consumer_parseUUID (tc_service C) (te_MakerOrderID event) ''maker_order_id'' of
                      Inl err \<Rightarrow> fail (DLQErr ''invalid_event'' err)
                    | Inr makerOrderID \<Rightarrow>
                        (case consumer_parseUUID (tc_service C) (te_TakerOrderID event) ''taker_order_id'' of
                           Inl err \<Rightarrow> fail (DLQErr ''invalid_event'' err)
                         | Inr takerOrderID \<Rightarrow>
                             bindM (onStore (settleTrade C event makerOrderID takerOrderID)) (\<lambda>(entries, balances).
                             publishSettled C event entries balances)))))"

section \<open>Grouping by account\<close>

text \<open>The accounts in the order of their first occurrence.\<close>

fun firsts :: "'a list \<Rightarrow> 'a list" where
  "firsts [] = []"
| "firsts (x # xs) = x # filter (\<lambda>y. y \<noteq> x) (firsts xs)"

lemma set_firsts [simp]: "set (firsts xs) = set xs"
  by (induction xs) auto

lemma distinct_firsts [simp]: "distinct (firsts xs)"
  by (induction xs) auto

lemma firsts_snoc: "firsts (xs @ [x]) = (if x \<in> set xs then firsts xs else firsts xs @ [x])"
  by (induction xs) auto

lemma map_update_at:
  "distinct ks \<Longrightarrow> k \<in> set ks \<Longrightarrow>
   AList.update k v (map (\<lambda>a. (a, f a)) ks) = map (\<lambda>a. (a, if a = k then v else f a)) ks"
  by (induction ks) auto

lemma update_new: "k \<notin> fst ` set m \<Longrightarrow> AList.update k v m = m @ [(k, v)]"
  by (induction m) auto

lemma groupBy_spec: "groupBy key f xs = map (\<lambda>a. (a, map f (filter (\<lambda>x. key x = a) xs))) (firsts (map key xs))"
proof (induction xs rule: rev_induct)
  case (snoc x xs)
  let ?m = "map (\<lambda>a. (a, map f (filter (\<lambda>x. key x = a) xs))) (firsts (map key xs))"
  have step: "groupBy key f (xs @ [x]) = AList.update (key x) ((case map_of ?m (key x) of None \<Rightarrow> [] | Some l \<Rightarrow> l) @ [f x]) ?m"
    using snoc by (simp add: groupBy_def)
  have look: "map_of ?m (key x) = (if key x \<in> set (map key xs) then Some (map f (filter (\<lambda>y. key y = key x) xs)) else None)"
    by (simp add: map_of_map_restrict)
  show ?case
  proof (cases "key x \<in> set (map key xs)")
    case True
    then show ?thesis
      unfolding step look by (simp add: firsts_snoc map_update_at)
  next
    case False
    then have new: "filter (\<lambda>y. key y = key x) xs = []" by (auto simp: filter_empty_conv) (metis image_eqI)
    have "AList.update (key x) [f x] ?m = ?m @ [(key x, [f x])]" using False by (intro update_new) (auto simp: image_image)
    then show ?thesis
      using False new unfolding step look by (auto simp: firsts_snoc)
  qed
qed (simp add: groupBy_def)


text \<open>The iteration visits the accounts of the elements, each with all of its elements in their order.\<close>

definition ranges :: "(uuid list \<Rightarrow> uuid list) \<Rightarrow> bool" where
  "ranges order \<longleftrightarrow> (\<forall>ks. mset (order ks) = mset ks)"

lemma rangeMap_groupBy:
  assumes "ranges order"
  shows "rangeMap order (groupBy key f xs) = map (\<lambda>a. (a, map f (filter (\<lambda>x. key x = a) xs))) (order (firsts (map key xs)))"
proof -
  have "map fst (groupBy key f xs) = firsts (map key xs)" by (simp add: groupBy_spec o_def)
  moreover have "set (order ks) = set ks" for ks using assms by (metis ranges_def set_mset_mset)
  ultimately show ?thesis
    unfolding rangeMap_def by (auto simp: groupBy_spec map_of_map_restrict)
qed

section \<open>Publishing\<close>

text \<open>The messages of one account, and the messages of a whole trade.\<close>

definition envelopeOf :: "('s, 'p, 'd) trade_env \<Rightarrow> string \<Rightarrow> string \<Rightarrow> string \<Rightarrow> string \<Rightarrow> Envelope" where
  "envelopeOf C eventType correlationID tradeID account =
     \<lparr>env_EventID = DeterministicEventID (tc_sha1 C) [eventType, tradeID, account], env_EventType = eventType, env_EventVersion = 1,
      env_Timestamp = tc_now C, env_CorrelationID = correlationID\<rparr>"

definition entriesMessage :: "('s, 'p, 'd) trade_env \<Rightarrow> TradeEvent \<Rightarrow> 'd LedgerEntry list \<Rightarrow> uuid \<Rightarrow> string \<times> string \<times> ledger_payload" where
  "entriesMessage C event entries acc =
     (let account = sv_uuidString (tc_service C) acc in
      (ledgerEntriesEventType, account, EntriesPayload
        \<lparr>lev_Envelope = envelopeOf C ledgerEntriesEventType (correlationOf event) (te_TradeID event) account,
         lev_TradeID = te_TradeID event, lev_AccountID = account,
         lev_Entries = map (entryEvent (tc_service C)) (filter (\<lambda>e. le_AccountID e = acc) entries)\<rparr>))"

definition balancesMessage :: "('s, 'p, 'd) trade_env \<Rightarrow> TradeEvent \<Rightarrow> 'd LedgerAccount list \<Rightarrow> uuid \<Rightarrow> string \<times> string \<times> ledger_payload" where
  "balancesMessage C event balances acc =
     (let account = sv_uuidString (tc_service C) acc in
      (balancesUpdatedEventType, account, BalancesPayload
        \<lparr>bev_Envelope = envelopeOf C balancesUpdatedEventType (correlationOf event) (te_TradeID event) account,
         bev_TradeID = te_TradeID event, bev_AccountID = account,
         bev_Balances = map (balanceUpdate (tc_service C)) (filter (\<lambda>b. la_AccountID b = acc) balances)\<rparr>))"

definition tradeMessages ::
  "('s, 'p, 'd) trade_env \<Rightarrow> TradeEvent \<Rightarrow> 'd LedgerEntry list \<Rightarrow> 'd LedgerAccount list \<Rightarrow> (string \<times> string \<times> ledger_payload) list" where
  "tradeMessages C event entries balances =
     map (entriesMessage C event entries) (tc_order C (firsts (map le_AccountID entries)))
     @ map (balancesMessage C event balances) (tc_order C (firsts (map la_AccountID balances)))"

locale trade_publisher = publisher publish log enc serves
  for publish :: "('p, ledger_payload) publish" and log :: "'p \<Rightarrow> (string \<times> string \<times> 'm) list" and enc and serves +
  fixes C :: "('s, 'p, 'd::linordered_idom) trade_env"
  assumes publishes: "tc_publish C = Some publish"
    and topics: "serves ledgerEntriesEventType" "serves balancesUpdatedEventType"
begin

definition sends :: "(string \<times> string \<times> ledger_payload) list \<Rightarrow> ('s, 'p) trade_state \<Rightarrow> ('s, 'p) trade_state \<Rightarrow> bool" where
  "sends msgs st st' \<longleftrightarrow> ts_store st' = ts_store st \<and> log (ts_producer st') = log (ts_producer st) @ map (\<lambda>(t, k, v). (t, k, enc v)) msgs"

lemma sends_trans: "sends xs s t \<Longrightarrow> sends ys t u \<Longrightarrow> sends (xs @ ys) s u"
  by (simp add: sends_def)

lemma sends_prefix:
  assumes "sends xs s t" and "\<exists>n < length ys. sends (take n ys) t u"
  shows "\<exists>n < length (xs @ ys). sends (take n (xs @ ys)) s u"
proof -
  obtain n where "n < length ys" "sends (take n ys) t u" using assms(2) by blast
  then show ?thesis using sends_trans [OF assms(1)] by (intro exI [of _ "length xs + n"]) simp
qed

lemma sends_prefix_left:
  "n < length xs \<Longrightarrow> sends (take n xs) s u \<Longrightarrow> \<exists>n < length (xs @ ys). sends (take n (xs @ ys)) s u"
  by (rule exI [of _ n]) simp

lemma wp_publishGroups:
  assumes "serves ty"
  shows "wp (foldM (publishGroup C publish ty corr tid payload) groups ())
    (\<lambda>_. sends (map (\<lambda>(a, xs). (ty, sv_uuidString (tc_service C) a, payload (envelopeOf C ty corr tid (sv_uuidString (tc_service C) a))
                                  (sv_uuidString (tc_service C) a) xs)) groups) st)
    (\<lambda>_ t. \<exists>n < length groups. sends (take n (map (\<lambda>(a, xs). (ty, sv_uuidString (tc_service C) a,
              payload (envelopeOf C ty corr tid (sv_uuidString (tc_service C) a)) (sv_uuidString (tc_service C) a) xs)) groups)) st t) st"
proof (induction groups arbitrary: st)
  case (Cons g gs)
  obtain a xs where g: "g = (a, xs)" by (cases g)
  let ?k = "sv_uuidString (tc_service C) a"
  have "wp (publishGroup C publish ty corr tid payload () g)
     (\<lambda>_. sends [(ty, ?k, payload (envelopeOf C ty corr tid ?k) ?k xs)] st) (\<lambda>_. sends [] st) st"
    using publish_ok [OF assms] publish_fail [OF assms] unfolding g
    by (auto intro!: wp_I simp: publishGroup_def NewEnvelopeWithID_def envelopeOf_def sends_def Let_def split: prod.splits sum.splits if_splits)
  then show ?case
    apply (simp add: g)
    apply (erule wp_conseq)
     apply (rule wp_conseq [OF Cons.IH])
      apply (drule (1) sends_trans, simp)
    subgoal by (elim exE conjE) (drule (1) sends_trans, force)
    apply (rule exI [of _ 0], simp)
    done
qed (simp add: sends_def)

lemma wp_publishLedgerEntries:
  assumes "ranges (tc_order C)"
  shows "wp (publishLedgerEntries C publish (correlationOf event) (te_TradeID event) entries)
     (\<lambda>_. sends (map (entriesMessage C event entries) (tc_order C (firsts (map le_AccountID entries)))) st)
     (\<lambda>_ t. \<exists>n < length (map (entriesMessage C event entries) (tc_order C (firsts (map le_AccountID entries)))).
        sends (take n (map (entriesMessage C event entries) (tc_order C (firsts (map le_AccountID entries))))) st t) st"
  unfolding publishLedgerEntries_def rangeMap_groupBy [OF assms]
  by (rule wp_conseq [OF wp_publishGroups [OF topics(1)]]) (simp_all add: o_def entriesMessage_def [abs_def] Let_def)

lemma wp_publishBalanceUpdates:
  assumes "ranges (tc_order C)"
  shows "wp (publishBalanceUpdates C publish (correlationOf event) (te_TradeID event) balances)
     (\<lambda>_. sends (map (balancesMessage C event balances) (tc_order C (firsts (map la_AccountID balances)))) st)
     (\<lambda>_ t. \<exists>n < length (map (balancesMessage C event balances) (tc_order C (firsts (map la_AccountID balances)))).
        sends (take n (map (balancesMessage C event balances) (tc_order C (firsts (map la_AccountID balances))))) st t) st"
  unfolding publishBalanceUpdates_def rangeMap_groupBy [OF assms]
  by (rule wp_conseq [OF wp_publishGroups [OF topics(2)]]) (simp_all add: o_def balancesMessage_def [abs_def] Let_def)

text \<open>A trade is published account by account: all of its messages, or a proper prefix when an error stops it.\<close>

lemma wp_publishSettled:
  assumes "ranges (tc_order C)"
  shows "wp (publishSettled C event entries balances) (\<lambda>_. sends (tradeMessages C event entries balances) st)
     (\<lambda>_ t. \<exists>n < length (tradeMessages C event entries balances). sends (take n (tradeMessages C event entries balances)) st t) st"
  unfolding publishSettled_def publishes option.case tradeMessages_def
  apply (simp only: wp_bindM)
  apply (rule wp_conseq [OF wp_publishLedgerEntries [OF assms]])
   apply (rule wp_conseq [OF wp_publishBalanceUpdates [OF assms]])
    apply (erule (1) sends_trans)
   apply (erule (1) sends_prefix)
  apply (elim exE conjE)
  apply (erule (1) sends_prefix_left)
  done

end

section \<open>The consumer over both contracts\<close>

lemma wp_onStore: "wp (onStore m) Q X st = wp m (\<lambda>a s. Q a (st\<lparr>ts_store := s\<rparr>)) (\<lambda>e s. X e (st\<lparr>ts_store := s\<rparr>)) (ts_store st)"
  by (simp add: wp_def onStore_def split: prod.splits sum.splits)

lemma consumer_parseUUID_eq: "consumer_parseUUID V v field = parseUUID V v field"
  by (simp add: consumer_parseUUID_def parseUUID_def)

text \<open>Errors other than those for dead letters come from the store, the settlement or the publisher.\<close>

lemma wp_HandleMessage:
  assumes settle: "\<And>m event maker taker. msg = Some m \<Longrightarrow> tc_decode C (cm_Value m) = Inr event \<Longrightarrow>
      TradeEvent_Validate (sv_dec (tc_service C)) event = None \<Longrightarrow>
      parseUUID (tc_service C) (te_MakerOrderID event) ''maker_order_id'' = Inr maker \<Longrightarrow>
      parseUUID (tc_service C) (te_TakerOrderID event) ''taker_order_id'' = Inr taker \<Longrightarrow>
      wp (settleTrade C event maker taker)
        (\<lambda>(entries, balances) s. wp (publishSettled C event entries balances) Q X (st\<lparr>ts_store := s\<rparr>)) (\<lambda>e s. X e (st\<lparr>ts_store := s\<rparr>)) (ts_store st)"
    and refuse: "\<And>reason e. X (DLQErr reason e) st"
  shows "wp (TradeConsumer_HandleMessage C msg) Q X st"
  using refuse
  by (auto simp: TradeConsumer_HandleMessage_def wp_onStore split_beta consumer_parseUUID_eq
      split: option.split sum.split intro!: settle [unfolded split_beta])

locale trade_consumer = trade_publisher publish log enc serves C + ledger_store "tc_store C" inv view sound
  for publish :: "('p, ledger_payload) publish" and log :: "'p \<Rightarrow> (string \<times> string \<times> 'm) list" and enc and serves
    and C :: "('s, 'p, 'd::linordered_idom) trade_env"
    and inv :: "'s \<Rightarrow> bool" and view :: "'s \<Rightarrow> 'v" and sound :: "'s \<Rightarrow> 's \<Rightarrow> bool"
begin

lemma wp_settleTrade:
  assumes "inv s" and "\<And>r t. sound s t \<Longrightarrow> Q r t" and "\<And>e t. sound s t \<Longrightarrow> X e t"
  shows "wp (settleTrade C event maker taker) Q X s"
  unfolding settleTrade_def settledRows_def ApplySettlementInternal_def
  by (intro wp_intro wp_case_sum wp_reads wp_applySettlement) (auto simp: assms intro: sound_inv sound_trans assms)

text \<open>
  Whatever the message: the store stays sound, what is published is a trade's messages, all of them on success and a part of them from the
  start otherwise, and a message that is refused for good changes nothing.
\<close>

lemma HandleMessage_contract:
  assumes "inv (ts_store st)" and "ranges (tc_order C)"
  shows "wp (TradeConsumer_HandleMessage C msg)
    (\<lambda>_ t. sound (ts_store st) (ts_store t))
    (\<lambda>e t. (\<exists>reason e'. e = DLQErr reason e') \<and> t = st \<or>
       (\<exists>m event entries balances n. msg = Some m \<and> tc_decode C (cm_Value m) = Inr event \<and>
          TradeEvent_Validate (sv_dec (tc_service C)) event = None \<and> sound (ts_store st) (ts_store t) \<and>
          log (ts_producer t) = log (ts_producer st) @ map (\<lambda>(t, k, v). (t, k, enc v)) (take n (tradeMessages C event entries balances)))) st"
  (is "wp _ ?Q ?X st")
proof (intro wp_HandleMessage wp_settleTrade assms(1))
  fix m event s and r :: "'d LedgerEntry list \<times> 'd LedgerAccount list"
  assume m: "msg = Some m" "tc_decode C (cm_Value m) = Inr event" "TradeEvent_Validate (sv_dec (tc_service C)) event = None"
    and s: "sound (ts_store st) s"
  obtain entries balances where r: "r = (entries, balances)" by (cases r)
  show "(case r of (entries, balances) \<Rightarrow> \<lambda>s. wp (publishSettled C event entries balances) ?Q ?X (st\<lparr>ts_store := s\<rparr>)) s"
    unfolding r prod.case
    by (rule wp_conseq [OF wp_publishSettled [OF assms(2)]]) (use m s in \<open>simp_all add: sends_def\<close>, blast)
next
  fix m event e t
  assume "msg = Some m" "tc_decode C (cm_Value m) = Inr event" "TradeEvent_Validate (sv_dec (tc_service C)) event = None"
    "sound (ts_store st) t"
  then show "?X e (st\<lparr>ts_store := t\<rparr>)"
    by (intro disjI2 exI [of _ m] exI [of _ event] exI [of _ "[]"] exI [of _ 0]) simp
qed simp

end

interpretation trade: trade_consumer "SyncProducer_PublishJSON B marshal" ps_sent "encoded marshal" "\<lambda>_. True"
    "C\<lparr>tc_store := ledgerStore E, tc_publish := Some (SyncProducer_PublishJSON B marshal)\<rparr>"
    "\<lambda>s. env_ok E \<and> store_inv s" ss_db "\<lambda>s t. env_ok E \<and> sound_step s t" for B marshal C E
  by (intro trade_consumer.intro trade_publisher.intro trade_publisher_axioms.intro sync_producer.publisher_axioms)
    (simp_all add: ledger.ledger_store_axioms)

section \<open>A settled trade and its entries\<close>

definition tradeRows :: "uuid \<Rightarrow> 'd ledger_db \<Rightarrow> 'd entry_row list" where
  "tradeRows tradeID db = filter (\<lambda>e. er_reference_type e = referenceTypeTrade \<and> er_reference_id e = tradeID) (t_ledger_entries db)"

lemma settled_tradeRows: "settled tradeID db \<longleftrightarrow> tradeRows tradeID db \<noteq> []"
  by (auto simp: settled_def tradeRows_def filter_empty_conv)

text \<open>In consistent tables every entry has exactly one ledger account, so the join neither drops nor repeats one.\<close>

lemma filter_unique: "distinct (map f xs) \<Longrightarrow> k \<in> f ` set xs \<Longrightarrow> \<exists>x. filter (\<lambda>x. f x = k) xs = [x]"
  by (induction xs) (auto simp: filter_empty_conv image_iff)

lemma joinEntry_ID: "ledger_inv db \<Longrightarrow> e \<in> set (t_ledger_entries db) \<Longrightarrow> map le_ID (joinEntry (t_ledger_accounts db) e) = [er_id e]"
  using filter_unique [of la_ID "t_ledger_accounts db" "er_ledger_account_id e"]
  by (auto simp: ledger_inv_def accounts_ok_def entries_ok_def list_all_iff joinEntry_def)

lemma concat_joins:
  "ledger_inv db \<Longrightarrow> set es \<subseteq> set (t_ledger_entries db) \<Longrightarrow> map le_ID (concat (map (joinEntry (t_ledger_accounts db)) es)) = map er_id es"
  by (induction es) (simp_all add: joinEntry_ID)

lemma wp_GetEntriesByReference:
  assumes "exact_text (se_dec E)" and "ledger_inv (ss_db s)"
    and "\<And>es t. ss_db t = ss_db s \<Longrightarrow> mset (map le_ID es) = mset (map er_id (tradeRows ref (ss_db s))) \<Longrightarrow> Q es t" and "\<And>e t. X e t"
  shows "wp (GetEntriesByReference E ref) Q X s"
proof -
  have scan: "wp (foldM (scanEntry E) rows []) (\<lambda>es t. es = rows \<and> ss_db t = ss_db s) X s1" if "ss_db s1 = ss_db s" for rows s1
    by (rule wp_foldM [where I = "\<lambda>xs es t. es = xs \<and> ss_db t = ss_db s"]) (auto simp: that scanEntry_def assms(1))
  have sort: "mset (map le_ID (sort_key le_CreatedAt xs)) = mset (map le_ID xs)" for xs :: "'a LedgerEntry list" by simp
  have ids: "mset (map le_ID (sort_key le_CreatedAt (concat (map (joinEntry (t_ledger_accounts (ss_db s))) (tradeRows ref (ss_db s))))))
      = mset (map er_id (tradeRows ref (ss_db s)))"
    using concat_joins [OF assms(2), of "tradeRows ref (ss_db s)"] by (subst sort) (simp add: tradeRows_def del: mset_map map_concat)
  show ?thesis
    unfolding GetEntriesByReference_def
    apply (intro wp_intro wp_poolQuery assms(4))
    apply (rule wp_conseq [OF scan])
    subgoal by (auto simp: sql_entries_by_reference_def)
    subgoal for n a db t es t'
      using ids by (intro assms(3)) (auto simp: sql_entries_by_reference_def tradeRows_def)
    by (rule assms(4))
qed

lemma settlement_post_rows:
  assumes "settlement_post E req db res db'" and "\<not> sres_AlreadyProcessed res"
  shows "map le_ID (sres_Entries res) = map er_id (tradeRows (sr_TradeID req) db')" and "tradeRows (sr_TradeID req) db' \<noteq> []"
proof -
  obtain es where es: "es \<noteq> []" "settles (sr_TradeID req) es db (map le_ID (sres_Entries res)) db'"
    using assms by (auto simp: settlement_post_def)
  then obtain new where new: "t_ledger_entries db' = t_ledger_entries db @ new" "map le_ID (sres_Entries res) = map er_id new"
    "list_all2 (\<lambda>e. recorded (sr_TradeID req) e db') es new"
    unfolding settles_def by blast
  have "tradeRows (sr_TradeID req) db = []" using assms settled_tradeRows by (fastforce simp: settlement_post_def)
  moreover have "filter (\<lambda>e. er_reference_type e = referenceTypeTrade \<and> er_reference_id e = sr_TradeID req) new = new"
    using new(3) by (auto simp: list_all2_conv_all_nth recorded_def in_set_conv_nth intro!: filter_True)
  ultimately have "tradeRows (sr_TradeID req) db' = new" using new(1) by (simp add: tradeRows_def)
  then show "map le_ID (sres_Entries res) = map er_id (tradeRows (sr_TradeID req) db')" "tradeRows (sr_TradeID req) db' \<noteq> []"
    using new es by auto
qed

lemma wp_applySettlement_post:
  assumes "env_ok E" and "store_inv s"
    and "\<And>req' res t. parseUUID V (as_TradeId req) ''trade_id'' = Inr (sr_TradeID req') \<Longrightarrow>
      settlement_post E req' (ss_db s) res (ss_db t) \<Longrightarrow> store_inv t \<Longrightarrow> Q res t"
    and "\<And>e t. X e t"
  shows "wp (applySettlement V (ledgerStore E) req ev) Q X s"
proof -
  have call: "wp (st_ApplySettlement (ledgerStore E) req') Q' X' s"
    if "parseUUID V (as_TradeId req) ''trade_id'' = Inr (sr_TradeID req')" "\<And>res t. Q res t \<Longrightarrow> Q' res t" "\<And>e t. X' e t" for req' Q' X'
    using wp_ApplySettlement [of E s req'] ApplySettlement_sound [OF assms(1,2), of req'] assms that
    by (auto simp: wp_def env_ok_def store_inv_def sound_step_def split: prod.splits sum.splits)
  show ?thesis
    unfolding applySettlement_def Let_def
    by (intro wp_orInvalid wp_intro call assms(4)) (simp_all add: assms(4))
qed

lemma wp_reads_db: "reads m \<Longrightarrow> (\<And>r t. ss_db t = ss_db s \<Longrightarrow> Q r t) \<Longrightarrow> (\<And>e t. X e t) \<Longrightarrow> wp m Q X s"
  by (rule wp_I) (auto simp: reads_def)

lemma wp_settleTrade_rows:
  assumes "env_ok E" and "store_inv s" and "tc_store C = ledgerStore E"
    and "\<And>entries balances t tr. parseUUID (tc_service C) (te_TradeID event) ''trade_id'' = Inr tr \<Longrightarrow>
      mset (map le_ID entries) = mset (map er_id (tradeRows tr (ss_db t))) \<Longrightarrow> settled tr (ss_db t) \<Longrightarrow> Q (entries, balances) t"
    and "\<And>e t. X e t"
  shows "wp (settleTrade C event maker taker) Q X s"
proof -
  have rows: "wp (settledRows C event res) Q X t"
    if "parseUUID (tc_service C) (te_TradeID event) ''trade_id'' = Inr (sr_TradeID req')"
      "settlement_post E req' db res (ss_db t)" "store_inv t" for res req' db t
  proof (cases "sres_AlreadyProcessed res")
    case False
    then show ?thesis
      using settlement_post_rows [OF that(2)] by (simp add: settledRows_def settled_tradeRows assms(4) [OF that(1)])
  next
    case True
    show ?thesis
      unfolding settledRows_def consumer_parseUUID_eq that(1) assms(3) ledgerStore_simps sum.case if_P [OF True]
      using assms(1) that(3)
      by (intro wp_intro wp_GetEntriesByReference wp_reads_db [OF reads_store(4)] assms(4) [OF that(1)] assms(5))
         (auto simp: env_ok_def store_inv_def settled_tradeRows)
  qed
  show ?thesis
    unfolding settleTrade_def ApplySettlementInternal_def assms(3)
    by (intro wp_intro wp_applySettlement_post ledger.wp_reads rows)
       (use assms(1,2) in \<open>simp_all add: settlementRequest_def assms(5) sound_step_def\<close>)
qed

section \<open>Properties\<close>

text \<open>A consumer that settles in the store and publishes with the synchronous producer.\<close>

definition tradeConsumer ::
  "('d::linordered_idom store_state, producer_state, 'd) trade_env \<Rightarrow> 'd store_env \<Rightarrow> broker \<Rightarrow> (ledger_payload \<Rightarrow> go_error + string)
    \<Rightarrow> ('d store_state, producer_state, 'd) trade_env" where
  "tradeConsumer C E B marshal = C\<lparr>tc_store := ledgerStore E, tc_publish := Some (SyncProducer_PublishJSON B marshal)\<rparr>"

lemma tradeConsumer_simps [simp]:
  "tc_decode (tradeConsumer C E B marshal) = tc_decode C" "tc_service (tradeConsumer C E B marshal) = tc_service C"
  "tc_order (tradeConsumer C E B marshal) = tc_order C" "tc_store (tradeConsumer C E B marshal) = ledgerStore E"
  by (simp_all add: tradeConsumer_def)

definition sent :: "(ledger_payload \<Rightarrow> go_error + string) \<Rightarrow> (string \<times> string \<times> ledger_payload) list \<Rightarrow> (string \<times> string \<times> string) list" where
  "sent marshal = map (\<lambda>(topic, key, v). (topic, key, encoded marshal v))"

text \<open>An executed trade of account 10, which buys, with account 11; payloads are encoded as the trade and the entries or assets in them.\<close>

definition sample_payload :: "ledger_payload \<Rightarrow> go_error + string" where
  "sample_payload p = Inr (case p of
     EntriesPayload e \<Rightarrow> concat (map (\<lambda>x. lee_EntryType x @ lee_Amount x @ lee_Asset x @ '' '') (lev_Entries e))
   | BalancesPayload b \<Rightarrow> concat (map (\<lambda>x. bu_Available x @ bu_Asset x @ '' '') (bev_Balances b)))"

definition sample_executed :: TradeEvent where
  "sample_executed =
     \<lparr>te_Envelope = \<lparr>env_EventID = ''e1'', env_EventType = ''trades.executed'', env_EventVersion = 1, env_Timestamp = 1, env_CorrelationID = ''''\<rparr>,
      te_TradeID = ''50'', te_Symbol = ''BTC-USD'', te_MakerOrderID = ''30'', te_TakerOrderID = ''31'', te_Price = ''4'', te_Quantity = ''2'',
      te_MakerSide = ''buy'', te_ExecutedAt = ''''\<rparr>"

definition sample_trade_env :: "(int store_state, producer_state, int) trade_env" where
  "sample_trade_env = \<lparr>tc_store = ledgerStore sample_store_env, tc_service = sample_service_env, tc_publish = None,
     tc_decode = (\<lambda>s. if s = ''bad'' then Inl DBErr else Inr sample_executed), tc_now = 1, tc_sha1 = (\<lambda>s. s), tc_order = rev\<rparr>"

definition failing_after :: "nat \<Rightarrow> broker" where
  "failing_after n = \<lparr>br_ctx = (\<lambda>_. None), br_send = (\<lambda>k. if k < n then Inr (0, 0) else Inl DBErr)\<rparr>"

definition sample_trade_consumer :: "nat \<Rightarrow> (int store_state, producer_state, int) trade_env" where
  "sample_trade_consumer n = tradeConsumer sample_trade_env sample_store_env (failing_after n) sample_payload"

definition sample_trade_state :: "(int store_state, producer_state) trade_state" where
  "sample_trade_state = \<lparr>ts_store = sample_store, ts_producer = \<lparr>ps_sent = [], ps_calls = 0\<rparr>\<rparr>"

lemma sample_trade_ok:
  "env_ok sample_store_env" "store_inv (ts_store sample_trade_state)" "ranges (tc_order sample_trade_env)"
  by (simp_all add: env_ok_def store_inv_def sample_trade_state_def sample_trade_env_def ranges_def)



text \<open>
  A trade message the handler cannot process leaves the ledger consistent with every asset's amount unchanged. A
  message that is empty, undecodable or invalid is refused with a dead-letter error and changes nothing at all; any other failure is
  one of a valid trade, of whose messages a part from the start may have been published.
\<close>

theorem trade_failures:
  assumes "env_ok E" and "store_inv (ts_store st)" and "ranges (tc_order C)"
    and "TradeConsumer_HandleMessage (tradeConsumer C E B marshal) msg st = (Inl e, t)"
  shows "(\<exists>reason e'. e = DLQErr reason e') \<and> t = st
    \<or> (\<exists>m event entries balances n. msg = Some m \<and> tc_decode C (cm_Value m) = Inr event
        \<and> TradeEvent_Validate (sv_dec (tc_service C)) event = None \<and> sound_step (ts_store st) (ts_store t)
        \<and> ps_sent (ts_producer t) = ps_sent (ts_producer st)
            @ sent marshal (take n (tradeMessages (tradeConsumer C E B marshal) event entries balances)))"
  using wp_Inl [OF trade.HandleMessage_contract [where E = E and C = C and B = B and marshal = marshal and msg = msg] assms(4) [unfolded tradeConsumer_def]] assms(1-3)
  by (simp add: tradeConsumer_def sent_def)

theorem trade_failures_witness:
  "let t = snd (TradeConsumer_HandleMessage (sample_trade_consumer 2) (Some (sample_msg 0)) sample_trade_state)
   in sound_step sample_store (ts_store t)
    \<and> ps_sent (ts_producer t) = [(''ledger.entries'', ''113'', ''credit2USD ''), (''ledger.entries'', ''11'', ''credit7USD debit2BTC '')]"
proof -
  let ?r = "TradeConsumer_HandleMessage (sample_trade_consumer 2) (Some (sample_msg 0)) sample_trade_state"
  have ok: "fst ?r = Inl (Wrapf ''kafka publish failed: %w'' DBErr)"
    and msgs: "ps_sent (ts_producer (snd ?r)) = [(''ledger.entries'', ''113'', ''credit2USD ''), (''ledger.entries'', ''11'', ''credit7USD debit2BTC '')]"
    by code_simp+
  then have "?r = (Inl (Wrapf ''kafka publish failed: %w'' DBErr), snd ?r)" by (metis prod.collapse)
  from trade_failures [OF sample_trade_ok this [unfolded sample_trade_consumer_def]]
  have "sound_step (ts_store sample_trade_state) (ts_store (snd ?r))"
    by (auto simp: sample_trade_consumer_def)
  then show ?thesis using msgs by (simp add: sample_trade_state_def)
qed

end
