(* ===== verification/Fee_Cache.thy ===== *)
theory Fee_Cache
  imports Go_Service
begin

text \<open>
  Fee tiers and their cache, \<^verbatim>\<open>services/fee/internal/storage/postgres.go\<close> and \<^verbatim>\<open>services/fee/internal/cache/tier_cache.go\<close>: a tier applies from a
  30-day volume on, the cache keeps the tiers by the text of that volume and the volumes in descending order and finds the
  tier of a volume by binary search. The lemmas show that a loaded cache gives the answers of the database.
\<close>

section \<open>Tables\<close>

record FeeTier =
  ft_ID :: uuid
  ft_Name :: string
  ft_MakerFeeBps :: int
  ft_TakerFeeBps :: int
  ft_MinVolume :: string

record 'd tier_row =
  fr_id :: uuid
  fr_name :: string
  fr_maker_fee_bps :: int
  fr_taker_fee_bps :: int
  fr_min_volume :: 'd

record 'd trade_row =
  tr_symbol :: string
  tr_maker_order_id :: uuid
  tr_taker_order_id :: uuid
  tr_price :: 'd
  tr_quantity :: 'd
  tr_executed_at :: time

record 'd fee_db =
  f_fee_tiers :: "'d tier_row list"
  f_trades :: "'d trade_row list"
  f_orders :: "(uuid \<times> uuid) list"

text \<open>The row as it is scanned, with \<open>min_volume::text\<close>.\<close>

definition scanTier :: "'d decimal_ops \<Rightarrow> 'd tier_row \<Rightarrow> FeeTier" where
  "scanTier D r = \<lparr>ft_ID = fr_id r, ft_Name = fr_name r, ft_MakerFeeBps = fr_maker_fee_bps r, ft_TakerFeeBps = fr_taker_fee_bps r,
     ft_MinVolume = DecString D (fr_min_volume r)\<rparr>"

text \<open>\<open>ORDER BY min_volume DESC\<close>.\<close>

definition by_volume :: "'d::linordered_idom tier_row list \<Rightarrow> 'd tier_row list" where
  "by_volume rows = sort_key (\<lambda>r. - fr_min_volume r) rows"

definition sql_all_tiers :: "'d::linordered_idom decimal_ops \<Rightarrow> ('d fee_db, FeeTier list) stmt" where
  "sql_all_tiers D n db = Inr (map (scanTier D) (by_volume (f_fee_tiers db)), db)"

text \<open>The parameter is text that the server converts to \<open>numeric\<close>, which fails for other texts.\<close>

definition sql_tier_by_volume :: "'d::linordered_idom decimal_ops \<Rightarrow> string \<Rightarrow> ('d fee_db, FeeTier) stmt" where
  "sql_tier_by_volume D volume n db =
     (case NewFromString D volume of
        None \<Rightarrow> Inl DBErr
      | Some v \<Rightarrow>
          (case by_volume (filter (\<lambda>r. fr_min_volume r \<le> v) (f_fee_tiers db)) of
             [] \<Rightarrow> Inl NoRows | r # _ \<Rightarrow> Inr (scanTier D r, db)))"

definition sql_default_tier :: "'d decimal_ops \<Rightarrow> ('d fee_db, FeeTier) stmt" where
  "sql_default_tier D n db =
     (case filter (\<lambda>r. fr_name r = ''default'') (f_fee_tiers db) of [] \<Rightarrow> Inl NoRows | r # _ \<Rightarrow> Inr (scanTier D r, db))"

definition thirty_days :: duration where
  "thirty_days = 30 * 86400 * nanos_per_second"

text \<open>The trades of one side joined with the orders of the account.\<close>

definition side_volume :: "time \<Rightarrow> uuid \<Rightarrow> ('d trade_row \<Rightarrow> uuid) \<Rightarrow> 'd::linordered_idom fee_db \<Rightarrow> 'd" where
  "side_volume now accountID side db =
     sum_list (map (\<lambda>t. tr_price t * tr_quantity t)
       (concat (map (\<lambda>t. map (\<lambda>_. t) (filter (\<lambda>(oid, acc). oid = side t \<and> acc = accountID) (f_orders db)))
         (filter (\<lambda>t. tr_executed_at t \<ge> now - thirty_days) (f_trades db)))))"

definition sql_volume_30d :: "'d::linordered_idom decimal_ops \<Rightarrow> (nat \<Rightarrow> time) \<Rightarrow> uuid \<Rightarrow> ('d fee_db, string) stmt" where
  "sql_volume_30d D clock accountID n db =
     Inr (DecString D (side_volume (clock n) accountID tr_maker_order_id db + side_volume (clock n) accountID tr_taker_order_id db), db)"

section \<open>Store\<close>

type_synonym ('d, 'z, 'a) fee_prog = "(('d fee_db, 'z) sql_state_scheme, 'a) prog"

definition GetAllFeeTiers :: "('d::linordered_idom, 'e) sql_env_scheme \<Rightarrow> ('d, 'z, FeeTier list) fee_prog" where
  "GetAllFeeTiers E = poolQuery E (sql_all_tiers (se_dec E))"

definition GetFeeTierByVolume :: "('d::linordered_idom, 'e) sql_env_scheme \<Rightarrow> string \<Rightarrow> ('d, 'z, FeeTier option) fee_prog" where
  "GetFeeTierByVolume E volume =
     attempt (poolQuery E (sql_tier_by_volume (se_dec E) volume))
       (\<lambda>err. if err = NoRows then ret None else fail err) (\<lambda>tier. ret (Some tier))"

definition GetDefaultFeeTier :: "('d::linordered_idom, 'e) sql_env_scheme \<Rightarrow> ('d, 'z, FeeTier option) fee_prog" where
  "GetDefaultFeeTier E =
     attempt (poolQuery E (sql_default_tier (se_dec E)))
       (\<lambda>err. if err = NoRows then ret None else fail err) (\<lambda>tier. ret (Some tier))"

definition GetAccountVolume30d :: "('d::linordered_idom, 'e) sql_env_scheme \<Rightarrow> uuid \<Rightarrow> ('d, 'z, string) fee_prog" where
  "GetAccountVolume30d E accountID =
     attempt (poolQuery E (sql_volume_30d (se_dec E) (se_clock E) accountID)) (\<lambda>err. fail (Wrapf ''query volume: %w'' err)) ret"

section \<open>Cache\<close>

record 'd TierCache =
  tch_tiers :: "(string \<times> FeeTier) list"
  tch_thresholds :: "'d list"
  tch_lastRefresh :: time

definition NewTierCache :: "'d TierCache" where
  "NewTierCache = \<lparr>tch_tiers = [], tch_thresholds = [], tch_lastRefresh = 0\<rparr>"

text \<open>\<open>sort.Slice\<close> with \<open>GreaterThan\<close>.\<close>

definition sortDescending :: "'d::linordered_idom list \<Rightarrow> 'd list" where
  "sortDescending xs = sort_key (\<lambda>x. - x) xs"

text \<open>The loop of \<open>Load\<close>: a tier whose volume does not parse is left out.\<close>

definition loadTier :: "'d decimal_ops \<Rightarrow> (string \<times> FeeTier) list \<times> 'd list \<Rightarrow> FeeTier \<Rightarrow> (string \<times> FeeTier) list \<times> 'd list" where
  "loadTier D acc tier =
     (case acc of (tiers, thresholds) \<Rightarrow>
      case NewFromString D (ft_MinVolume tier) of
        None \<Rightarrow> (tiers, thresholds)
      | Some vol \<Rightarrow>
          (let normalized = DecString D vol in
           (AList.update normalized (tier\<lparr>ft_MinVolume := normalized\<rparr>) tiers, thresholds @ [vol])))"

definition loadTiers :: "'d::linordered_idom decimal_ops \<Rightarrow> time \<Rightarrow> FeeTier list \<Rightarrow> 'd TierCache" where
  "loadTiers D now tiers =
     (case foldl (loadTier D) ([], []) tiers of (m, thresholds) \<Rightarrow>
      \<lparr>tch_tiers = m, tch_thresholds = (if length thresholds > 1 then sortDescending thresholds else thresholds), tch_lastRefresh = now\<rparr>)"

definition SetTierByVolume :: "'d::linordered_idom decimal_ops \<Rightarrow> string \<Rightarrow> FeeTier \<Rightarrow> 'd TierCache \<Rightarrow> 'd TierCache" where
  "SetTierByVolume D volume tier c =
     (case NewFromString D (TrimSpace volume) of
        None \<Rightarrow> c
      | Some vol \<Rightarrow>
          (let normalized = DecString D vol;
               c1 = c\<lparr>tch_tiers := AList.update normalized (tier\<lparr>ft_MinVolume := normalized\<rparr>) (tch_tiers c)\<rparr> in
           if list_ex (\<lambda>existing. existing = vol) (tch_thresholds c) then c1
           else c1\<lparr>tch_thresholds := sortDescending (tch_thresholds c @ [vol])\<rparr>))"

text \<open>\<open>sort.Search\<close> of the standard library, on the interval from \<open>i\<close> to \<open>j\<close>.\<close>

function sortSearch :: "(nat \<Rightarrow> bool) \<Rightarrow> nat \<Rightarrow> nat \<Rightarrow> nat" where
  "sortSearch f i j =
     (if i < j then let h = (i + j) div 2 in if \<not> f h then sortSearch f (h + 1) j else sortSearch f i h
      else i)"
  by pat_completeness auto

termination
  by (relation "measure (\<lambda>(f, i, j). j - i)") auto

declare sortSearch.simps [simp del]

definition GetTierByVolume :: "'d::linordered_idom decimal_ops \<Rightarrow> string \<Rightarrow> 'd TierCache \<Rightarrow> FeeTier option" where
  "GetTierByVolume D volume c =
     (case NewFromString D volume of
        None \<Rightarrow> None
      | Some vol \<Rightarrow>
          (let n = length (tch_thresholds c) in
           if n = 0 then None
           else
             (let idx = sortSearch (\<lambda>i. tch_thresholds c ! i \<le> vol) 0 n in
              if idx \<ge> n then None else map_of (tch_tiers c) (DecString D (tch_thresholds c ! idx)))))"

definition TierCache_Size :: "'d TierCache \<Rightarrow> nat" where
  "TierCache_Size c = length (tch_thresholds c)"

text \<open>The state of the service: the database and the cache.\<close>

record 'd fee_state = "'d fee_db sql_state" +
  fs_cache :: "'d TierCache"

definition TierCache_Load :: "('d::linordered_idom, 'e) sql_env_scheme \<Rightarrow> ('d fee_state, unit) prog" where
  "TierCache_Load E =
     bindM (GetAllFeeTiers E) (\<lambda>tiers.
     bindM (Now E) (\<lambda>now s. (Inr (), s\<lparr>fs_cache := loadTiers (se_dec E) now tiers\<rparr>)))"

definition TierCache_Refresh :: "('d::linordered_idom, 'e) sql_env_scheme \<Rightarrow> ('d fee_state, unit) prog" where
  "TierCache_Refresh E = TierCache_Load E"

section \<open>Binary search\<close>

text \<open>For a predicate that stays true once it is true, the search ends at the first index where it holds, or at the end.\<close>

lemma sortSearch_least:
  assumes "\<And>a b. a \<le> b \<Longrightarrow> b < n \<Longrightarrow> f a \<Longrightarrow> f b" and "i \<le> j" and "j \<le> n" and "\<And>k. k < i \<Longrightarrow> \<not> f k" and "f j \<or> j = n"
  shows "sortSearch f i j \<le> j \<and> (\<forall>k < sortSearch f i j. \<not> f k) \<and> (f (sortSearch f i j) \<or> sortSearch f i j = n)"
  using assms
proof (induction f i j rule: sortSearch.induct)
  case (1 f i j)
  let ?h = "(i + j) div 2"
  show ?case
  proof (cases "i < j")
    case False
    then show ?thesis using "1.prems" by (subst (1 2 3 4) sortSearch.simps) auto
  next
    case ij: True
    then have h: "?h < j" "?h < n" using "1.prems"(3) by simp_all
    show ?thesis
    proof (cases "f ?h")
      case True
      have "sortSearch f i ?h \<le> ?h \<and> (\<forall>k < sortSearch f i ?h. \<not> f k) \<and> (f (sortSearch f i ?h) \<or> sortSearch f i ?h = n)"
        using ij True "1.prems" h by (intro "1.IH"(2) [OF ij refl]) auto
      moreover have "sortSearch f i j = sortSearch f i ?h" using ij True by (subst sortSearch.simps) (simp add: Let_def)
      ultimately show ?thesis using h(1) by (metis le_trans less_imp_le)
    next
      case False
      then have "\<not> f k" if "k < ?h + 1" for k using that "1.prems"(1) [of k ?h] h by auto
      then have "sortSearch f (?h + 1) j \<le> j \<and> (\<forall>k < sortSearch f (?h + 1) j. \<not> f k)
          \<and> (f (sortSearch f (?h + 1) j) \<or> sortSearch f (?h + 1) j = n)"
        using ij False "1.prems" h by (intro "1.IH"(1) [OF ij refl]) auto
      moreover have "sortSearch f i j = sortSearch f (?h + 1) j" using ij False by (subst sortSearch.simps) (simp add: Let_def)
      ultimately show ?thesis by auto
    qed
  qed
qed

lemma sortDescending_nth: "i \<le> j \<Longrightarrow> j < length xs \<Longrightarrow> sortDescending xs ! j \<le> sortDescending xs ! i"
  using sorted_nth_mono [of "map uminus (sortDescending xs)" i j] by (simp add: sortDescending_def)

lemma set_sortDescending [simp]: "set (sortDescending xs) = set xs" "length (sortDescending xs) = length xs"
  by (simp_all add: sortDescending_def)

text \<open>On volumes in descending order, the search finds the largest one that is not above the limit.\<close>

lemma search_thresholds:
  fixes ts :: "'d::linordered_idom list"
  assumes "\<And>i j. i \<le> j \<Longrightarrow> j < length ts \<Longrightarrow> ts ! j \<le> ts ! i"
  shows "let idx = sortSearch (\<lambda>i. ts ! i \<le> v) 0 (length ts) in
    if idx \<ge> length ts then \<forall>t \<in> set ts. v < t
    else ts ! idx \<le> v \<and> (\<forall>t \<in> set ts. t \<le> v \<longrightarrow> t \<le> ts ! idx)"
proof -
  define idx where "idx = sortSearch (\<lambda>i. ts ! i \<le> v) 0 (length ts)"
  have mono: "ts ! b \<le> v" if "a \<le> b" "b < length ts" "ts ! a \<le> v" for a b
    using assms [OF that(1,2)] that(3) by (rule order_trans)
  have idx: "idx \<le> length ts" "\<forall>k < idx. \<not> ts ! k \<le> v" "ts ! idx \<le> v \<or> idx = length ts"
    using sortSearch_least [of "length ts" "\<lambda>i. ts ! i \<le> v" 0 "length ts"] mono unfolding idx_def by simp_all
  have "t \<le> ts ! idx" if "idx < length ts" and t: "t \<in> set ts" "t \<le> v" for t
  proof -
    obtain k where "k < length ts" "t = ts ! k" using t(1) by (auto simp: in_set_conv_nth)
    moreover from this have "idx \<le> k" using idx(2) t(2) by (meson not_le)
    ultimately show ?thesis using assms by blast
  qed
  then show ?thesis
    unfolding Let_def idx_def [symmetric] using idx by (auto simp: not_le in_set_conv_nth)
qed

section \<open>The cache gives the answers of the database\<close>

text \<open>The tier of a volume: the one that starts highest among those that have been reached.\<close>

definition bestTier :: "'d::linordered_idom tier_row list \<Rightarrow> 'd \<Rightarrow> 'd tier_row option" where
  "bestTier rows v = (case by_volume (filter (\<lambda>r. fr_min_volume r \<le> v) rows) of [] \<Rightarrow> None | r # _ \<Rightarrow> Some r)"

lemma set_by_volume [simp]: "set (by_volume rows) = set rows"
  by (simp add: by_volume_def)

lemma by_volume_Nil: "by_volume rows = [] \<longleftrightarrow> rows = []"
  by (metis set_by_volume set_empty)

lemma bestTier_None: "bestTier rows v = None \<longleftrightarrow> (\<forall>r \<in> set rows. v < fr_min_volume r)"
proof -
  have "bestTier rows v = None \<longleftrightarrow> by_volume (filter (\<lambda>r. fr_min_volume r \<le> v) rows) = []"
    by (simp add: bestTier_def split: list.split)
  then show ?thesis by (auto simp: by_volume_Nil filter_empty_conv not_le)
qed

lemma bestTier_Some:
  assumes "distinct (map fr_min_volume rows)"
  shows "bestTier rows v = Some r \<longleftrightarrow>
    r \<in> set rows \<and> fr_min_volume r \<le> v \<and> (\<forall>r' \<in> set rows. fr_min_volume r' \<le> v \<longrightarrow> fr_min_volume r' \<le> fr_min_volume r)"
    (is "_ \<longleftrightarrow> ?P r")
proof -
  have P: "?P r0" if best: "bestTier rows v = Some r0" for r0
  proof -
    obtain rs where rs: "by_volume (filter (\<lambda>r. fr_min_volume r \<le> v) rows) = r0 # rs"
      using best by (cases "by_volume (filter (\<lambda>r. fr_min_volume r \<le> v) rows)") (simp_all add: bestTier_def)
    have "sorted (map (\<lambda>r. - fr_min_volume r) (r0 # rs))" unfolding rs [symmetric] by (simp add: by_volume_def)
    moreover have "set (r0 # rs) = {r \<in> set rows. fr_min_volume r \<le> v}" unfolding rs [symmetric] by simp
    ultimately show ?thesis by auto
  qed
  show ?thesis
  proof
    assume r: "?P r"
    then obtain r0 where r0: "bestTier rows v = Some r0" by (metis bestTier_None not_le option.exhaust)
    from P [OF r0] r have "fr_min_volume r = fr_min_volume r0" by (meson antisym)
    then show "bestTier rows v = Some r"
      using r r0 P [OF r0] assms by (auto simp: distinct_map inj_on_def)
  qed (rule P)
qed

lemma foldl_loadTier:
  assumes "exact_text D"
  shows "foldl (loadTier D) (m, ts) (map (scanTier D) rows)
    = (foldl (\<lambda>m r. AList.update (DecString D (fr_min_volume r)) (scanTier D r) m) m rows, ts @ map fr_min_volume rows)"
proof (induction rows arbitrary: m ts)
  case (Cons r rows)
  have "loadTier D (m, ts) (scanTier D r) = (AList.update (DecString D (fr_min_volume r)) (scanTier D r) m, ts @ [fr_min_volume r])"
    using assms by (simp add: loadTier_def scanTier_def exact_text_def Let_def)
  then show ?case using Cons.IH by simp
qed simp

lemma map_of_loaded:
  assumes "inj (DecString D)" and "distinct (map fr_min_volume rows)" and "r \<in> set rows"
  shows "map_of (foldl (\<lambda>m r. AList.update (DecString D (fr_min_volume r)) (scanTier D r) m) m rows) (DecString D (fr_min_volume r))
    = Some (scanTier D r)"
  using assms(2,3)
proof (induction rows arbitrary: m rule: rev_induct)
  case (snoc x rows)
  have neq: "DecString D (fr_min_volume r) = DecString D (fr_min_volume x) \<longleftrightarrow> fr_min_volume r = fr_min_volume x"
    using assms(1) by (auto dest: injD)
  show ?case
    using snoc neq by (cases "r = x") (auto simp: image_iff)
qed simp

lemma exact_text_inj: "exact_text D \<Longrightarrow> inj (DecString D)"
  unfolding exact_text_def inj_def by (metis option.inject)

lemma distinct_by_volume: "distinct (map fr_min_volume (by_volume rows)) \<longleftrightarrow> distinct (map fr_min_volume rows)"
proof -
  have "mset (by_volume rows) = mset rows" by (simp add: by_volume_def)
  then have "mset (map fr_min_volume (by_volume rows)) = mset (map fr_min_volume rows)" by simp
  then show ?thesis by (metis mset_eq_imp_distinct_iff)
qed

lemma loadTiers_lookup:
  assumes "exact_text D" and "distinct (map fr_min_volume rows)"
  shows "GetTierByVolume D volume (loadTiers D now (map (scanTier D) (by_volume rows)))
    = Option.bind (NewFromString D volume) (\<lambda>v. map_option (scanTier D) (bestTier rows v))"
proof (cases "NewFromString D volume")
  case (Some v)
  let ?rows = "by_volume rows"
  let ?ts = "sortDescending (map fr_min_volume ?rows)"
  let ?idx = "sortSearch (\<lambda>i. ?ts ! i \<le> v) 0 (length ?ts)"
  let ?m = "foldl (\<lambda>m r. AList.update (DecString D (fr_min_volume r)) (scanTier D r) m) [] ?rows"
  have short: "(if length xs > 1 then sortDescending xs else xs) = sortDescending xs" for xs :: "'a list"
    by (cases xs rule: remdups_adj.cases) (simp_all add: sortDescending_def)
  have load: "loadTiers D now (map (scanTier D) ?rows) = \<lparr>tch_tiers = ?m, tch_thresholds = ?ts, tch_lastRefresh = now\<rparr>"
    unfolding loadTiers_def foldl_loadTier [OF assms(1)] short by simp
  have ts: "set ?ts = fr_min_volume ` set rows" by simp
  have search: "if ?idx \<ge> length ?ts then \<forall>t \<in> set ?ts. v < t
    else ?ts ! ?idx \<le> v \<and> (\<forall>t \<in> set ?ts. t \<le> v \<longrightarrow> t \<le> ?ts ! ?idx)"
    using search_thresholds [of ?ts v] by (simp add: sortDescending_nth Let_def)
  have get: "GetTierByVolume D volume (loadTiers D now (map (scanTier D) ?rows))
      = (if ?idx \<ge> length ?ts then None else map_of ?m (DecString D (?ts ! ?idx)))"
    unfolding load by (auto simp: GetTierByVolume_def Some Let_def)
  show ?thesis
  proof (cases "?idx \<ge> length ?ts")
    case True
    then have "bestTier rows v = None" using search ts by (auto simp: bestTier_None)
    then show ?thesis using get True Some by simp
  next
    case False
    then have "?ts ! ?idx \<in> set ?ts" by (meson not_le nth_mem)
    then obtain r where r: "r \<in> set rows" "?ts ! ?idx = fr_min_volume r" using ts by auto
    then have "bestTier rows v = Some r"
      using search False ts by (auto simp: bestTier_Some [OF assms(2)])
    moreover have "map_of ?m (DecString D (?ts ! ?idx)) = Some (scanTier D r)"
      unfolding r(2) by (rule map_of_loaded [OF exact_text_inj [OF assms(1)]]) (simp_all add: distinct_by_volume assms(2) r(1))
    ultimately show ?thesis using get False Some by simp
  qed
qed (simp add: GetTierByVolume_def)

end
