(* ===== verification/Fee_Service.thy ===== *)
theory Fee_Service
  imports Fee_Cache Ledger_Fees
begin

text \<open>
  The fee service, \<^verbatim>\<open>services/fee/internal/service/fee_service.go\<close>: it looks up the tier of an account by its volume, in the cache first, and
  computes fees in basis points. The service works on the interfaces \<open>TierStore\<close> and \<open>TierCache\<close>; the locale
  \<open>fee_tiers\<close> states what they promise.
\<close>

section \<open>Interfaces\<close>

record 's tier_ops =
  to_GetFeeTierByVolume :: "string \<Rightarrow> ('s, FeeTier option) prog"
  to_GetDefaultFeeTier :: "('s, FeeTier option) prog"
  to_GetAccountVolume30d :: "uuid \<Rightarrow> ('s, string) prog"
  to_cacheGet :: "string \<Rightarrow> 's \<Rightarrow> FeeTier option"
  to_cacheSet :: "string \<Rightarrow> FeeTier \<Rightarrow> 's \<Rightarrow> 's"

record GetFeeTierResponse =
  gt_TierId :: string
  gt_TierName :: string
  gt_MakerFeeBps :: "32 word"
  gt_TakerFeeBps :: "32 word"

record FeeResponse = CalculateFeesResponse +
  cr_TierApplied :: string

section \<open>Operations\<close>

definition parseAccountID :: "('d, 'e) api_env_scheme \<Rightarrow> string \<Rightarrow> go_error + uuid" where
  "parseAccountID E val =
     (let i = TrimSpace val in
      if i = [] then Inl (Errorf ''account_id is required'' [])
      else case ae_parseUUID E i of None \<Rightarrow> Inl (Errorf ''invalid account_id'' []) | Some parsed \<Rightarrow> Inr parsed)"

definition fee_parsePositiveDecimal :: "'d::linordered_idom decimal_ops \<Rightarrow> string \<Rightarrow> string \<Rightarrow> go_error + 'd" where
  "fee_parsePositiveDecimal D val field =
     (let trimmed = TrimSpace val in
      if trimmed = [] then Inl (Errorf (field @ '' is required'') [])
      else case NewFromString D trimmed of
          None \<Rightarrow> Inl (Errorf (field @ '' must be a decimal'') [])
        | Some dec \<Rightarrow> if dec \<le> 0 then Inl (Errorf (field @ '' must be positive'') []) else Inr dec)"

definition parseNonNegativeDecimal :: "'d::linordered_idom decimal_ops \<Rightarrow> string \<Rightarrow> string \<Rightarrow> go_error + 'd" where
  "parseNonNegativeDecimal D val field =
     (let trimmed = TrimSpace val in
      if trimmed = [] then Inl (Errorf (field @ '' is required'') [])
      else case NewFromString D trimmed of
          None \<Rightarrow> Inl (Errorf (field @ '' must be a decimal'') [])
        | Some dec \<Rightarrow> if dec < 0 then Inl (Errorf (field @ '' must be non-negative'') []) else Inr dec)"

text \<open>The part after the separator, when there are exactly two.\<close>

definition quotePart :: "string \<Rightarrow> char \<Rightarrow> string option" where
  "quotePart symbol sep =
     (if Contains symbol sep then
        (case Split symbol sep of [_, q] \<Rightarrow> if q \<noteq> [] then Some q else None | _ \<Rightarrow> None)
      else None)"

definition fee_quoteAsset :: "string \<Rightarrow> go_error + string" where
  "fee_quoteAsset symbol =
     (if symbol = [] then Inl (Errorf ''symbol is required'' [])
      else case quotePart symbol CHR ''-'' of
          Some q \<Rightarrow> Inr q
        | None \<Rightarrow>
            (case quotePart symbol CHR ''/'' of
               Some q \<Rightarrow> Inr q | None \<Rightarrow> Inl (Errorf ''symbol must be in BASE-QUOTE format'' [])))"

definition resolveTier :: "'s tier_ops \<Rightarrow> string \<Rightarrow> ('s, FeeTier \<times> bool) prog" where
  "resolveTier T volume s =
     (case to_cacheGet T volume s of
        Some tier \<Rightarrow> ret (tier, True) s
      | None \<Rightarrow>
          attempt (to_GetFeeTierByVolume T volume)
            (\<lambda>_. fail (StatusErr Internal ''fee tier lookup failed''))
            (\<lambda>found.
              case found of
                Some tier \<Rightarrow> (\<lambda>t. ret (tier, False) (to_cacheSet T (ft_MinVolume tier) tier t))
              | None \<Rightarrow>
                  attempt (to_GetDefaultFeeTier T)
                    (\<lambda>_. fail (StatusErr Internal ''default fee tier lookup failed''))
                    (\<lambda>defaultTier.
                      case defaultTier of
                        None \<Rightarrow> fail (StatusErr NotFound ''fee tier not found'')
                      | Some tier \<Rightarrow> (\<lambda>t. ret (tier, False) (to_cacheSet T (ft_MinVolume tier) tier t)))) s)"

definition FeeService_GetFeeTier ::
  "('d::linordered_idom, 'e) api_env_scheme \<Rightarrow> 's tier_ops \<Rightarrow> string \<Rightarrow> string \<Rightarrow> ('s, GetFeeTierResponse) prog" where
  "FeeService_GetFeeTier E T account_id raw_volume =
     orInvalid (parseAccountID E account_id) (\<lambda>accountID.
     let volume = TrimSpace raw_volume in
     bindM
       (if volume = [] then
          attempt (to_GetAccountVolume30d T accountID) (\<lambda>_. fail (StatusErr Internal ''failed to lookup volume'')) ret
        else orInvalid (parseNonNegativeDecimal (se_dec E) volume ''volume'') (\<lambda>parsed. ret (DecString (se_dec E) parsed)))
       (\<lambda>volume.
         bindM (resolveTier T volume) (\<lambda>(tier, _).
         ret \<lparr>gt_TierId = se_uuidString E (ft_ID tier), gt_TierName = ft_Name tier,
              gt_MakerFeeBps = word_of_int (ft_MakerFeeBps tier), gt_TakerFeeBps = word_of_int (ft_TakerFeeBps tier)\<rparr>)))"

text \<open>The fee of a notional amount in basis points.\<close>

definition feeAmountOf :: "'d::linordered_idom decimal_ops \<Rightarrow> FeeTier \<Rightarrow> string \<Rightarrow> 'd \<Rightarrow> 'd" where
  "feeAmountOf D tier orderType notional =
     (let bps = (if orderType = ''taker'' then ft_TakerFeeBps tier else ft_MakerFeeBps tier);
          feeRate = DecDiv D (of_int bps) (of_int 10000) in
      notional * feeRate)"

definition FeeService_CalculateFees ::
  "('d::linordered_idom, 'e) api_env_scheme \<Rightarrow> 's tier_ops \<Rightarrow> CalculateFeesRequest \<Rightarrow> ('s, FeeResponse) prog" where
  "FeeService_CalculateFees E T req =
     orInvalid (parseAccountID E (cf_AccountId req)) (\<lambda>accountID.
     let orderType = ToLower (TrimSpace (cf_OrderType req)); side = ToLower (TrimSpace (cf_Side req)) in
     if orderType \<noteq> ''maker'' \<and> orderType \<noteq> ''taker'' then fail (StatusErr InvalidArgument ''order_type must be maker or taker'')
     else if side \<noteq> ''buy'' \<and> side \<noteq> ''sell'' then fail (StatusErr InvalidArgument ''side must be buy or sell'')
     else
       orInvalid (fee_quoteAsset (TrimSpace (cf_Symbol req))) (\<lambda>feeAsset.
       orInvalid (fee_parsePositiveDecimal (se_dec E) (cf_Quantity req) ''quantity'') (\<lambda>quantity.
       orInvalid (fee_parsePositiveDecimal (se_dec E) (cf_Price req) ''price'') (\<lambda>price.
       attempt (to_GetAccountVolume30d T accountID)
         (\<lambda>_. fail (StatusErr Internal ''failed to lookup volume''))
         (\<lambda>volume.
           bindM (resolveTier T volume) (\<lambda>(tier, _).
           ret \<lparr>cr_FeeAmount = DecString (se_dec E) (feeAmountOf (se_dec E) tier orderType (quantity * price)),
                cr_FeeAsset = feeAsset, cr_TierApplied = ft_Name tier\<rparr>))))))"

section \<open>What the service relies on\<close>

text \<open>The tier that applies: the one of the volume, or the default tier.\<close>

definition tierApplied :: "(string \<Rightarrow> FeeTier option) \<Rightarrow> FeeTier option \<Rightarrow> string \<Rightarrow> FeeTier \<Rightarrow> bool" where
  "tierApplied tier_of default_tier v tier \<longleftrightarrow> (case tier_of v of Some x \<Rightarrow> tier = x | None \<Rightarrow> default_tier = Some tier)"

text \<open>
  \<open>tier_of\<close> is the tier of a volume and \<open>volume_of\<close> the volume of an account. The cache is right where it has an answer and complete, the
  store's answers are the same, and no operation changes them.
\<close>

locale fee_tiers =
  fixes T :: "'s tier_ops"
    and inv :: "'s \<Rightarrow> bool"
    and tier_of :: "string \<Rightarrow> FeeTier option"
    and default_tier :: "FeeTier option"
    and is_volume :: "uuid \<Rightarrow> string \<Rightarrow> bool"
  assumes cache_right: "inv s \<Longrightarrow> to_cacheGet T v s = tier_of v"
    and store_tier: "inv s \<Longrightarrow> to_GetFeeTierByVolume T v s = (r, t) \<Longrightarrow> inv t \<and> (r = Inr tier \<longrightarrow> tier = tier_of v)"
    and store_default: "inv s \<Longrightarrow> to_GetDefaultFeeTier T s = (r, t) \<Longrightarrow> inv t \<and> (r = Inr tier \<longrightarrow> tier = default_tier)"
    and volume: "inv s \<Longrightarrow> to_GetAccountVolume30d T u s = (rv, t) \<Longrightarrow> inv t \<and> (rv = Inr w \<longrightarrow> is_volume u w)"
    and set_default: "inv s \<Longrightarrow> default_tier = Some d \<Longrightarrow> inv (to_cacheSet T (ft_MinVolume d) d s)"
begin

lemma wp_resolveTier:
  assumes "inv s" and "\<And>tier hit t. inv t \<Longrightarrow> tierApplied tier_of default_tier v tier \<Longrightarrow> Q (tier, hit) t" and "\<And>e t. inv t \<Longrightarrow> X e t"
  shows "wp (resolveTier T v) Q X s"
proof (cases "tier_of v")
  case (Some tier)
  then show ?thesis
    using assms cache_right [OF assms(1), of v] by (simp add: resolveTier_def wp_def ret_def tierApplied_def)
next
  case None
  obtain r t where r: "to_GetFeeTierByVolume T v s = (r, t)" by fastforce
  obtain r' t' where r': "to_GetDefaultFeeTier T t = (r', t')" by fastforce
  have t: "inv t" "\<And>tier. r = Inr tier \<Longrightarrow> tier = None" using store_tier [OF assms(1) r] None by auto
  have t': "inv t'" "\<And>tier. r' = Inr tier \<Longrightarrow> tier = default_tier" using store_default [OF t(1) r'] by auto
  have c: "to_cacheGet T v s = None" using cache_right [OF assms(1), of v] None by simp
  show ?thesis
  proof (cases r)
    case (Inl e)
    then show ?thesis using c r t(1) assms(3) by (simp add: wp_def resolveTier_def attempt_def fail_def)
  next
    case (Inr x)
    then have x: "r = Inr None" using t(2) by simp
    show ?thesis
    proof (cases r')
      case (Inl e)
      then show ?thesis using c r x r' t' assms(3) by (simp add: wp_def resolveTier_def attempt_def fail_def)
    next
      case (Inr y)
      then have y: "r' = Inr default_tier" using t'(2) by simp
      show ?thesis
      proof (cases default_tier)
        case (Some d)
        have "Q (d, False) (to_cacheSet T (ft_MinVolume d) d t')"
          using None Some by (intro assms(2) [OF set_default [OF t'(1) Some]]) (simp add: tierApplied_def)
        then show ?thesis using c r x r' y Some by (simp add: wp_def resolveTier_def attempt_def ret_def)
      next
        case None
        then have "r' = Inr None" using y by simp
        then show ?thesis using c r x r' assms(3) [OF t'(1)] by (simp add: wp_def resolveTier_def attempt_def fail_def)
      qed
    qed
  qed
qed

lemma wp_volume:
  "inv s \<Longrightarrow> (\<And>w t. inv t \<Longrightarrow> is_volume u w \<Longrightarrow> Q w t) \<Longrightarrow> (\<And>e t. inv t \<Longrightarrow> X e t) \<Longrightarrow> wp (to_GetAccountVolume30d T u) Q X s"
  by (rule wp_I) (use volume in blast)+

text \<open>What a successful calculation returns.\<close>

lemma wp_CalculateFees:
  assumes "inv s"
  shows "wp (FeeService_CalculateFees E T req)
    (\<lambda>res t. inv t \<and> (\<exists>u v tier quantity price. parseAccountID E (cf_AccountId req) = Inr u \<and> is_volume u v \<and> tierApplied tier_of default_tier v tier
       \<and> fee_parsePositiveDecimal (se_dec E) (cf_Quantity req) ''quantity'' = Inr quantity
       \<and> fee_parsePositiveDecimal (se_dec E) (cf_Price req) ''price'' = Inr price
       \<and> cr_FeeAmount res = DecString (se_dec E) (feeAmountOf (se_dec E) tier (ToLower (TrimSpace (cf_OrderType req))) (quantity * price))
       \<and> fee_quoteAsset (TrimSpace (cf_Symbol req)) = Inr (cr_FeeAsset res) \<and> cr_TierApplied res = ft_Name tier))
    (\<lambda>e t. inv t) s"
  unfolding FeeService_CalculateFees_def Let_def split_beta
  by (intro wp_orInvalid wp_intro wp_volume wp_resolveTier assms) (auto intro: assms)

lemma wp_GetFeeTier:
  assumes "inv s"
  shows "wp (FeeService_GetFeeTier E T acc raw)
    (\<lambda>res t. inv t \<and> (\<exists>v tier. tierApplied tier_of default_tier v tier \<and> gt_TierName res = ft_Name tier \<and> gt_MakerFeeBps res = word_of_int (ft_MakerFeeBps tier)
       \<and> gt_TakerFeeBps res = word_of_int (ft_TakerFeeBps tier)))
    (\<lambda>e t. inv t) s"
  unfolding FeeService_GetFeeTier_def Let_def split_beta
  by (intro wp_orInvalid wp_intro wp_volume wp_resolveTier assms) (auto intro: assms)

end

section \<open>The store and the cache provide it\<close>

definition feeOps :: "('d::linordered_idom, 'e) sql_env_scheme \<Rightarrow> 'd fee_state tier_ops" where
  "feeOps E = \<lparr>to_GetFeeTierByVolume = GetFeeTierByVolume E, to_GetDefaultFeeTier = GetDefaultFeeTier E,
     to_GetAccountVolume30d = GetAccountVolume30d E, to_cacheGet = (\<lambda>v s. GetTierByVolume (se_dec E) v (fs_cache s)),
     to_cacheSet = (\<lambda>v tier s. s\<lparr>fs_cache := SetTierByVolume (se_dec E) v tier (fs_cache s)\<rparr>)\<rparr>"

text \<open>A cache that holds the tiers of the table, as \<open>Load\<close> leaves it.\<close>

definition synced :: "'d::linordered_idom decimal_ops \<Rightarrow> 'd tier_row list \<Rightarrow> 'd TierCache \<Rightarrow> bool" where
  "synced D rows c \<longleftrightarrow> (\<exists>now. c = loadTiers D now (map (scanTier D) (by_volume rows)))"

definition tierOf :: "'d::linordered_idom decimal_ops \<Rightarrow> 'd fee_db \<Rightarrow> string \<Rightarrow> FeeTier option" where
  "tierOf D db volume = Option.bind (NewFromString D volume) (\<lambda>v. map_option (scanTier D) (bestTier (f_fee_tiers db) v))"

definition defaultRow :: "'d fee_db \<Rightarrow> 'd tier_row option" where
  "defaultRow db = find (\<lambda>r. fr_name r = ''default'') (f_fee_tiers db)"

definition volume30d :: "time \<Rightarrow> uuid \<Rightarrow> 'd::linordered_idom fee_db \<Rightarrow> 'd" where
  "volume30d now u db = side_volume now u tr_maker_order_id db + side_volume now u tr_taker_order_id db"

definition fee_inv :: "('d::linordered_idom, 'e) sql_env_scheme \<Rightarrow> 'd fee_db \<Rightarrow> 'd fee_state \<Rightarrow> bool" where
  "fee_inv E db s \<longleftrightarrow> plain_text (se_dec E) \<and> distinct (map fr_min_volume (f_fee_tiers db)) \<and> ss_db s = db
     \<and> synced (se_dec E) (f_fee_tiers db) (fs_cache s)"

lemma sql_default_tier_row: "sql_default_tier D n db = (case defaultRow db of None \<Rightarrow> Inl NoRows | Some r \<Rightarrow> Inr (scanTier D r, db))"
proof -
  have "find P xs = (case filter P xs of [] \<Rightarrow> None | x # _ \<Rightarrow> Some x)" for P :: "'a tier_row \<Rightarrow> bool" and xs
    by (induction xs) auto
  then show ?thesis by (simp add: sql_default_tier_def defaultRow_def split: list.split)
qed

lemma sql_tier_by_volume_best:
  "sql_tier_by_volume D volume n db =
     (if NewFromString D volume = None then Inl DBErr
      else case tierOf D db volume of None \<Rightarrow> Inl NoRows | Some tier \<Rightarrow> Inr (tier, db))"
  by (simp add: sql_tier_by_volume_def tierOf_def bestTier_def split: option.split list.split)

text \<open>A tier of the table is in the cache already, so setting it again changes nothing.\<close>

lemma SetTierByVolume_known:
  assumes "plain_text D" and "distinct (map fr_min_volume rows)" and "synced D rows c" and "r \<in> set rows"
  shows "SetTierByVolume D (ft_MinVolume (scanTier D r)) (scanTier D r) c = c"
proof -
  let ?m = "foldl (\<lambda>m r. AList.update (DecString D (fr_min_volume r)) (scanTier D r) m) [] (by_volume rows)"
  obtain now ts where c: "c = \<lparr>tch_tiers = ?m, tch_thresholds = ts, tch_lastRefresh = now\<rparr>" and ts: "set ts = fr_min_volume ` set rows"
    using assms(3) by (force simp: synced_def loadTiers_def foldl_loadTier [OF plain_textD(1) [OF assms(1)]])
  have "map_of ?m (DecString D (fr_min_volume r)) = Some (scanTier D r)"
    using assms by (intro map_of_loaded exact_text_inj) (simp_all add: distinct_by_volume)
  then have "AList.update (DecString D (fr_min_volume r)) (scanTier D r) ?m = ?m" by (rule update_triv)
  moreover have "scanTier D r\<lparr>ft_MinVolume := DecString D (fr_min_volume r)\<rparr> = scanTier D r" by (simp add: scanTier_def)
  moreover have "list_ex (\<lambda>x. x = fr_min_volume r) ts" using ts assms(4) by (auto simp: list_ex_iff)
  ultimately show ?thesis using assms(1) c by (simp add: SetTierByVolume_def scanTier_def Let_def)
qed

lemma fee_inv_step [simp]: "fee_inv E db (s\<lparr>ss_step := n\<rparr>) = fee_inv E db s"
  by (simp add: fee_inv_def)

interpretation fee: fee_tiers "feeOps E" "fee_inv E db" "tierOf (se_dec E) db" "map_option (scanTier (se_dec E)) (defaultRow db)"
    "\<lambda>u w. \<exists>now. w = DecString (se_dec E) (volume30d now u db)" for E db
proof (unfold_locales, goal_cases)
  case (1 s v)
  then show ?case
    by (auto simp: feeOps_def fee_inv_def synced_def tierOf_def loadTiers_lookup)
next
  case (2 s v r t tier)
  then show ?case
    by (auto simp: feeOps_def fee_inv_def GetFeeTierByVolume_def attempt_def poolQuery_def Let_def ret_def fail_def sql_tier_by_volume_best
        split: if_splits option.splits)
next
  case (3 s r t tier)
  then show ?case
    by (auto simp: feeOps_def fee_inv_def GetDefaultFeeTier_def attempt_def poolQuery_def Let_def ret_def fail_def sql_default_tier_row
        split: if_splits option.splits)
next
  case (4 s u rv t w)
  then show ?case
    by (auto simp: feeOps_def fee_inv_def GetAccountVolume30d_def attempt_def poolQuery_def Let_def ret_def fail_def sql_volume_30d_def volume30d_def
        split: if_splits)
next
  case (5 s d)
  then obtain r where r: "defaultRow db = Some r" "d = scanTier (se_dec E) r" by auto
  then have "r \<in> set (f_fee_tiers db)" by (auto simp: defaultRow_def find_Some_iff)
  then show ?case
    using 5 r SetTierByVolume_known [of "se_dec E" "f_fee_tiers db" "fs_cache s" r] by (simp add: feeOps_def fee_inv_def)
qed

section \<open>Properties\<close>

lemma fee_inv_Load:
  assumes "plain_text (se_dec E)" and "distinct (map fr_min_volume (f_fee_tiers (ss_db s)))" and "TierCache_Load E s = (Inr (), t)"
  shows "fee_inv E (ss_db s) t"
  using assms
  by (auto simp: fee_inv_def synced_def TierCache_Load_def GetAllFeeTiers_def bindM_def poolQuery_def Let_def sql_all_tiers_def Now_def split: if_splits)


definition sample_tier :: "uuid \<Rightarrow> string \<Rightarrow> int \<Rightarrow> int \<Rightarrow> int \<Rightarrow> int tier_row" where
  "sample_tier i name mk tk v = \<lparr>fr_id = i, fr_name = name, fr_maker_fee_bps = mk, fr_taker_fee_bps = tk, fr_min_volume = v\<rparr>"

definition sample_fee_db :: "int fee_db" where
  "sample_fee_db = \<lparr>f_fee_tiers = [sample_tier 1 ''default'' 10000 20000 0, sample_tier 3 ''gold'' 0 10000 1000, sample_tier 2 ''pro'' 10000 10000 100],
     f_trades = [\<lparr>tr_symbol = ''BTC-USD'', tr_maker_order_id = 30, tr_taker_order_id = 31, tr_price = 10, tr_quantity = 20, tr_executed_at = 5\<rparr>],
     f_orders = [(30, 10), (31, 11)]\<rparr>"

definition sample_fee_env :: "int api_env" where
  "sample_fee_env = \<lparr>se_fault = (\<lambda>_. False), se_clock = int, se_uuid = (\<lambda>n. 100 + of_nat n), se_uniqueErr = UniqueViolation,
     se_uuidString = (\<lambda>u. nat_string (unat u)), se_dec = int_decimal, ae_parseUUID = (\<lambda>s. map_option of_int (parse_int s))\<rparr>"

definition sample_fee_state :: "int fee_state" where
  "sample_fee_state = \<lparr>ss_db = sample_fee_db, ss_aborted = False, ss_step = 0, fs_cache = NewTierCache\<rparr>"

lemma sample_fee_ok:
  "plain_text (se_dec sample_fee_env)" "distinct (map fr_min_volume (f_fee_tiers (ss_db sample_fee_state)))"
  "TierCache_Load sample_fee_env sample_fee_state = (Inr (), snd (TierCache_Load sample_fee_env sample_fee_state))"
proof -
  show "plain_text (se_dec sample_fee_env)" by (simp add: sample_fee_env_def)
  show "distinct (map fr_min_volume (f_fee_tiers (ss_db sample_fee_state)))" by code_simp
  have "fst (TierCache_Load sample_fee_env sample_fee_state) = Inr ()" by code_simp
  then show "TierCache_Load sample_fee_env sample_fee_state = (Inr (), snd (TierCache_Load sample_fee_env sample_fee_state))"
    by (metis prod.collapse)
qed



definition sample_fee_request :: CalculateFeesRequest where
  "sample_fee_request = \<lparr>cf_AccountId = ''11'', cf_Symbol = ''BTC-USD'', cf_Side = ''buy'', cf_OrderType = ''Taker'', cf_Quantity = ''3'', cf_Price = ''4''\<rparr>"


section \<open>The ledger as a client\<close>

text \<open>The generated client: the response of the service on its current state, or its error.\<close>

definition feeClientOf ::
  "('d::linordered_idom, 'e) api_env_scheme \<Rightarrow> 'd fee_state \<Rightarrow> nat \<Rightarrow> CalculateFeesRequest \<Rightarrow> go_error + CalculateFeesResponse option" where
  "feeClientOf E s n req =
     (case fst (FeeService_CalculateFees E (feeOps E) req s) of
        Inl e \<Rightarrow> Inl e | Inr res \<Rightarrow> Inr (Some (CalculateFeesResponse.truncate res)))"

lemma Split_two: "Split s c = [a, b] \<Longrightarrow> s = a @ c # b"
proof (induction s arbitrary: a)
  case (Cons x xs)
  have one: "Split ys c = [w] \<Longrightarrow> ys = w" for ys w
    by (induction ys arbitrary: w) (auto split: list.splits if_splits)
  show ?case using Cons one by (auto split: list.splits if_splits)
qed simp

text \<open>The fee asset of a symbol without surrounding blanks is not blank.\<close>

lemma quotePart_not_blank: "quotePart (TrimSpace s) c = Some q \<Longrightarrow> TrimSpace q \<noteq> []"
proof -
  assume "quotePart (TrimSpace s) c = Some q"
  then obtain a where q: "TrimSpace s = a @ c # q" "q \<noteq> []"
    by (auto simp: quotePart_def dest: Split_two split: if_splits list.splits)
  have "rev (TrimSpace s) = dropWhile isSpace (rev (dropWhile isSpace s))" by (simp add: TrimSpace_def)
  moreover have "rev (TrimSpace s) \<noteq> []" using q(1) by simp
  ultimately have "\<not> isSpace (hd (rev (TrimSpace s)))" using dropWhile_hd [of isSpace "rev (dropWhile isSpace s)"] by metis
  then have "\<not> isSpace (last q)" using q by (simp add: hd_rev)
  then have "last q \<in> set (TrimSpace q)"
    using q(2) by (cases q rule: rev_cases) (auto simp: TrimSpace_def dropWhile_append)
  then show ?thesis by (metis empty_iff empty_set)
qed

lemma feeAsset_not_blank: "fee_quoteAsset (TrimSpace s) = Inr q \<Longrightarrow> TrimSpace q \<noteq> []"
  by (auto simp: fee_quoteAsset_def split: if_splits option.splits dest: quotePart_not_blank)

lemma calculateFee_answered:
  assumes "se_feeClient L = Some client" and "side = ''buy'' \<or> side = ''sell''" and "ty = ''maker'' \<or> ty = ''taker''"
    and "\<And>n. client n (feeRequest L u symbol side ty quantity price) = Inr (Some resp)" and "TrimSpace (cr_FeeAsset resp) \<noteq> []"
    and "NewFromString (se_dec L) (cr_FeeAmount resp) = Some amount" and "0 \<le> amount"
  shows "\<exists>t. calculateFee L u symbol side ty quantity price st = (Inr \<lparr>fq_Asset = cr_FeeAsset resp, fq_Amount = amount\<rparr>, t)
    \<and> ss_feeCalls t = ss_feeCalls st @ [feeRequest L u symbol side ty quantity price]"
proof -
  have norm: "ToLower (TrimSpace side) = side" "ToLower (TrimSpace ty) = ty" using assms(2,3) by (auto simp: TrimSpace_def ToLower_def lower_char_def isSpace_def)
  show ?thesis
    unfolding calculateFee_def norm Let_def using assms
    by (auto simp: bindM_def callFee_def acceptFee_def feeRateCache_set_def Now_def ret_def Let_def)
qed


definition sample_ledger_env :: "int store_env" where
  "sample_ledger_env = sample_store_env\<lparr>se_feeClient := Some (feeClientOf sample_fee_env (snd (TierCache_Load sample_fee_env sample_fee_state)))\<rparr>"


end
