(* ===== verification/Go_Encoding.thy ===== *)
theory Go_Encoding
  imports Go_Prelude
begin

text \<open>
  The texts the services read back: \<open>base64.StdEncoding.DecodeString\<close>, \<open>strings.SplitN\<close>, and the layouts \<open>time.RFC3339\<close> and
  \<open>time.RFC3339Nano\<close> of \<open>time.Parse\<close> and \<open>Format\<close>. The lemmas show that decoding undoes encoding and that parsing undoes
  formatting.
\<close>

section \<open>Definitions\<close>

text \<open>\<open>strings.SplitN(s, sep, 2)\<close> for a one-byte separator.\<close>

fun SplitN2 :: "string \<Rightarrow> char \<Rightarrow> string list" where
  "SplitN2 [] c = [[]]"
| "SplitN2 (x # xs) c =
     (if x = c then [[], xs] else case SplitN2 xs c of [] \<Rightarrow> [[x]] | w # ws \<Rightarrow> (x # w) # ws)"

definition base64_value :: "char \<Rightarrow> nat option" where
  "base64_value c =
     (let n = (of_char c :: nat) in
      if 65 \<le> n \<and> n \<le> 90 then Some (n - 65)
      else if 97 \<le> n \<and> n \<le> 122 then Some (n - 71)
      else if 48 \<le> n \<and> n \<le> 57 then Some (n + 4)
      else if c = CHR ''+'' then Some 62
      else if c = CHR ''/'' then Some 63
      else None)"

text \<open>Quanta of four characters; only the last one may be padded, and the bits its padding drops are ignored.\<close>

fun decodeQuanta :: "string \<Rightarrow> string option" where
  "decodeQuanta [] = Some []"
| "decodeQuanta (a # b # c # d # rest) =
     (case (base64_value a, base64_value b) of
        (Some x, Some y) \<Rightarrow>
          if c = CHR ''='' \<and> d = CHR ''='' \<and> rest = [] then Some [char_of (x * 4 + y div 16)]
          else (case base64_value c of
              None \<Rightarrow> None
            | Some z \<Rightarrow>
                if d = CHR ''='' \<and> rest = [] then Some [char_of (x * 4 + y div 16), char_of (y mod 16 * 16 + z div 4)]
                else (case (base64_value d, decodeQuanta rest) of
                    (Some w, Some bytes) \<Rightarrow>
                      Some ([char_of (x * 4 + y div 16), char_of (y mod 16 * 16 + z div 4), char_of (z mod 4 * 64 + w)] @ bytes)
                  | _ \<Rightarrow> None))
      | _ \<Rightarrow> None)"
| "decodeQuanta _ = None"

text \<open>Line breaks are skipped.\<close>

definition DecodeString :: "string \<Rightarrow> string option" where
  "DecodeString s = decodeQuanta (filter (\<lambda>c. c \<noteq> CHR 0x0A \<and> c \<noteq> CHR 0x0D) s)"

text \<open>\<open>t.UTC().Format(time.RFC3339Nano)\<close>: the fraction of a second without its trailing zeros, and no point when there is none.\<close>

definition formatFraction :: "int \<Rightarrow> string" where
  "formatFraction nanos =
     (if nanos = 0 then [] else CHR ''.'' # rev (dropWhile (\<lambda>c. c = CHR ''0'') (rev (pad_nat 9 nanos))))"

definition FormatRFC3339Nano :: "time \<Rightarrow> string" where
  "FormatRFC3339Nano t =
     (let secs = t div nanos_per_second; (y, m, d) = civil_date (secs div 86400); s = secs mod 86400 in
      pad_nat 4 y @ ''-'' @ pad_nat 2 m @ ''-'' @ pad_nat 2 d @ ''T'' @
      pad_nat 2 (s div 3600) @ '':'' @ pad_nat 2 (s mod 3600 div 60) @ '':'' @ pad_nat 2 (s mod 60) @
      formatFraction (t mod nanos_per_second) @ ''Z'')"

text \<open>
  \<open>time.Parse\<close> with either layout. A field is a number and the rest of the text. The hour may have one digit, the fraction may be written with
  a comma and is cut after nine digits, an offset may be up to 24 hours and 60 minutes, and the day has to exist.
\<close>

definition takeDigits :: "nat \<Rightarrow> string \<Rightarrow> (int \<times> string) option" where
  "takeDigits w s =
     (if length s < w then None
      else case parse_digits 0 (take w s) of None \<Rightarrow> None | Some n \<Rightarrow> Some (int n, drop w s))"

definition takeHour :: "string \<Rightarrow> (int \<times> string) option" where
  "takeHour s = (case takeDigits 2 s of Some r \<Rightarrow> Some r | None \<Rightarrow> takeDigits 1 s)"

definition skipChar :: "char \<Rightarrow> string \<Rightarrow> string option" where
  "skipChar c s = (case s of [] \<Rightarrow> None | x # xs \<Rightarrow> if x = c then Some xs else None)"

definition isDigit :: "char \<Rightarrow> bool" where
  "isDigit c \<longleftrightarrow> digit_val c \<noteq> None"

definition takeFraction :: "string \<Rightarrow> int \<times> string" where
  "takeFraction s =
     (case s of
        p # d # rest \<Rightarrow>
          if (p = CHR ''.'' \<or> p = CHR '','') \<and> isDigit d then
            (let digits = takeWhile isDigit (d # rest); kept = take 9 digits in
             (int (the (parse_digits 0 kept)) * 10 ^ (9 - length kept), dropWhile isDigit (d # rest)))
          else (0, s)
      | _ \<Rightarrow> (0, s))"

text \<open>The offset from UTC in seconds, which has to end the text.\<close>

definition parseZone :: "string \<Rightarrow> int option" where
  "parseZone s =
     (case s of
        [] \<Rightarrow> None
      | c # rest \<Rightarrow>
          if c = CHR ''Z'' then (if rest = [] then Some 0 else None)
          else if c = CHR ''+'' \<or> c = CHR ''-'' then
            Option.bind (takeDigits 2 rest) (\<lambda>(hh, r1).
            Option.bind (skipChar CHR '':'' r1) (\<lambda>r2.
            Option.bind (takeDigits 2 r2) (\<lambda>(mm, r3).
            if r3 \<noteq> [] \<or> hh > 24 \<or> mm > 60 then None
            else Some ((if c = CHR ''+'' then 1 else - 1) * (hh * 3600 + mm * 60)))))
          else None)"

definition month_lengths :: "int \<Rightarrow> int list" where
  "month_lengths y = [31, if leap_year y then 29 else 28, 31, 30, 31, 30, 31, 31, 30, 31, 30, 31]"

text \<open>Days from 1 January of year 1 to a civil date.\<close>

definition days_civil :: "int \<Rightarrow> int \<Rightarrow> int \<Rightarrow> int" where
  "days_civil y m d =
     365 * (y - 1) + (y - 1) div 4 - (y - 1) div 100 + (y - 1) div 400 + sum_list (take (nat (m - 1)) (month_lengths y)) + (d - 1)"

definition ParseRFC3339 :: "string \<Rightarrow> time option" where
  "ParseRFC3339 s =
     Option.bind (takeDigits 4 s) (\<lambda>(y, s).
     Option.bind (skipChar CHR ''-'' s) (\<lambda>s.
     Option.bind (takeDigits 2 s) (\<lambda>(m, s).
     Option.bind (skipChar CHR ''-'' s) (\<lambda>s.
     Option.bind (takeDigits 2 s) (\<lambda>(d, s).
     Option.bind (skipChar CHR ''T'' s) (\<lambda>s.
     Option.bind (takeHour s) (\<lambda>(hh, s).
     Option.bind (skipChar CHR '':'' s) (\<lambda>s.
     Option.bind (takeDigits 2 s) (\<lambda>(mm, s).
     Option.bind (skipChar CHR '':'' s) (\<lambda>s.
     Option.bind (takeDigits 2 s) (\<lambda>(ss, s).
     case takeFraction s of (nanos, s) \<Rightarrow>
     Option.bind (parseZone s) (\<lambda>offset.
     if m < 1 \<or> 12 < m \<or> d < 1 \<or> month_lengths y ! nat (m - 1) < d \<or> 24 \<le> hh \<or> 60 \<le> mm \<or> 60 \<le> ss then None
     else Some ((days_civil y m d * 86400 + hh * 3600 + mm * 60 + ss - offset) * nanos_per_second + nanos)))))))))))))"

section \<open>Decoding undoes encoding\<close>

lemma base64_value_digit [simp]: "n < 64 \<Longrightarrow> base64_value (base64_digit n) = Some n"
  by (auto simp: base64_value_def base64_digit_def Let_def)

lemma base64_digit_plain [simp]:
  "n < 64 \<Longrightarrow> base64_digit n \<noteq> CHR ''=''" "n < 64 \<Longrightarrow> base64_digit n \<noteq> CHR 0x0A" "n < 64 \<Longrightarrow> base64_digit n \<noteq> CHR 0x0D"
  using base64_value_digit [of n] by (auto simp: base64_value_def)

lemma quantum_arith:
  fixes x y z :: nat
  assumes "x < 256" "y < 256" "z < 256"
  shows "x div 4 < 64" "x mod 4 * 16 + y div 16 < 64" "y mod 16 * 4 + z div 64 < 64" "x mod 4 * 16 < 64" "y mod 16 * 4 < 64"
    and "y div 16 div 16 = 0" "y div 16 mod 16 = y div 16" "z div 64 div 4 = 0" "z div 64 mod 4 = z div 64"
proof -
  have less: "x div 4 < 64" "y div 16 < 16" "z div 64 < 4" using assms by (simp_all add: less_mult_imp_div_less)
  moreover have "x mod 4 < 4" "y mod 16 < 16" by simp_all
  ultimately show "x div 4 < 64" "x mod 4 * 16 + y div 16 < 64" "y mod 16 * 4 + z div 64 < 64" "x mod 4 * 16 < 64" "y mod 16 * 4 < 64"
    by linarith+
  show "y div 16 div 16 = 0" "y div 16 mod 16 = y div 16" "z div 64 div 4 = 0" "z div 64 mod 4 = z div 64"
    using less by simp_all
qed

lemmas quantum_chars [simp] = quantum_arith [OF nat_of_char_less_256 nat_of_char_less_256 nat_of_char_less_256]

lemma decodeQuanta_encode: "decodeQuanta (EncodeToString s) = Some s"
  by (induction s rule: EncodeToString.induct) (simp_all add: Let_def)

lemma EncodeToString_chars: "c \<in> set (EncodeToString s) \<Longrightarrow> c \<noteq> CHR 0x0A \<and> c \<noteq> CHR 0x0D"
  by (induction s rule: EncodeToString.induct) (auto simp: Let_def)

theorem DecodeString_EncodeToString [simp]: "DecodeString (EncodeToString s) = Some s"
proof -
  have "filter (\<lambda>c. c \<noteq> CHR 0x0A \<and> c \<noteq> CHR 0x0D) (EncodeToString s) = EncodeToString s"
    by (rule filter_True) (use EncodeToString_chars in blast)
  then show ?thesis by (simp add: DecodeString_def decodeQuanta_encode)
qed

lemma SplitN2_append: "c \<notin> set a \<Longrightarrow> SplitN2 (a @ c # b) c = [a, b]"
  by (induction a) auto

section \<open>Parsing undoes formatting\<close>

lemma nat_string_length: "n < 10 ^ w \<Longrightarrow> 0 < w \<Longrightarrow> length (nat_string n) \<le> w"
proof (induction n arbitrary: w rule: nat_string.induct)
  case (1 n)
  show ?case
  proof (cases "n < 10")
    case True
    then show ?thesis using "1.prems" by (simp add: nat_string.simps [of n])
  next
    case False
    then obtain v where w: "w = Suc v" "0 < v" using "1.prems" by (cases w; cases "w - 1") auto
    then have "n div 10 < 10 ^ v" using "1.prems"(1) by (simp add: less_mult_imp_div_less mult.commute)
    then show ?thesis using "1.IH" [OF False _ w(2)] False w(1) by (simp add: nat_string.simps [of n])
  qed
qed

lemma length_pad_nat: "0 \<le> i \<Longrightarrow> i < 10 ^ w \<Longrightarrow> 0 < w \<Longrightarrow> length (pad_nat w i) = w"
  using nat_string_length [of "nat i" w] by (simp add: pad_nat_def Let_def nat_less_iff)

lemma parse_digits_zeros: "parse_digits 0 (replicate k CHR ''0'' @ s) = parse_digits 0 s"
  by (induction k) (simp_all add: digit_val_def)

lemma parse_digits_pad_nat: "0 \<le> i \<Longrightarrow> parse_digits 0 (pad_nat w i) = Some (nat i)"
  by (simp add: pad_nat_def Let_def parse_digits_zeros parse_digits_nat_string)

lemma takeDigits_pad_nat: "0 \<le> i \<Longrightarrow> i < 10 ^ w \<Longrightarrow> 0 < w \<Longrightarrow> takeDigits w (pad_nat w i @ rest) = Some (i, rest)"
  by (simp add: takeDigits_def length_pad_nat parse_digits_pad_nat)

lemma skipChar_Cons [simp]: "skipChar c (c # s) = Some s"
  by (simp add: skipChar_def)

subsection \<open>Civil dates\<close>

lemma month_day_inverse:
  assumes "month_day m ns d = (m', d')" "0 \<le> d" "d < sum_list ns" "\<forall>n \<in> set ns. 0 < n"
  shows "m \<le> m' \<and> m' < m + int (length ns) \<and> 1 \<le> d' \<and> d' \<le> ns ! nat (m' - m) \<and> sum_list (take (nat (m' - m)) ns) + (d' - 1) = d"
  using assms
proof (induction m ns d rule: month_day.induct)
  case (2 m n ns d)
  show ?case
  proof (cases "d < n")
    case True
    then show ?thesis using 2 by auto
  next
    case False
    then have ih: "m + 1 \<le> m'" "m' < m + 1 + int (length ns)" "1 \<le> d'" "d' \<le> ns ! nat (m' - (m + 1))"
      "sum_list (take (nat (m' - (m + 1))) ns) + (d' - 1) = d - n"
      using "2.IH" [OF False] "2.prems" by auto
    then have "nat (m' - m) = Suc (nat (m' - (m + 1)))" by simp
    then show ?thesis using ih by auto
  qed
qed simp

lemma civil_parts:
  fixes days :: int
  defines "a \<equiv> days div 146097" and "r \<equiv> days mod 146097"
  defines "b \<equiv> min 3 (r div 36524)"
  defines "q \<equiv> r - b * 36524"
  defines "c \<equiv> q div 1461" and "p \<equiv> q mod 1461"
  defines "e \<equiv> min 3 (p div 365)"
  defines "y \<equiv> 400 * a + 100 * b + 4 * c + e + 1"
  shows "days = 365 * (y - 1) + (y - 1) div 4 - (y - 1) div 100 + (y - 1) div 400 + (p - e * 365)"
    and "0 \<le> p - e * 365" and "p - e * 365 < (if leap_year y then 366 else 365)"
    and "0 \<le> days \<Longrightarrow> 1 \<le> y" and "days < 3652059 \<Longrightarrow> y \<le> 9999"
proof -
  have r: "0 \<le> r" "r < 146097" "days = 146097 * a + r" by (simp_all add: r_def a_def)
  have b: "0 \<le> b" "b \<le> 3" "0 \<le> q" "b < 3 \<Longrightarrow> q < 36524" "q \<le> 36524"
    using r(1,2) unfolding q_def b_def by (auto simp: min_def)
  have q: "q = 1461 * c + p" "0 \<le> p" "p < 1461" by (simp_all add: c_def p_def)
  have c: "0 \<le> c" "c \<le> 24" using b(3,5) q by linarith+
  have e: "0 \<le> e" "e \<le> 3" "0 \<le> p - e * 365" "e < 3 \<Longrightarrow> p - e * 365 < 365" "p - e * 365 \<le> 365"
    using q(2,3) unfolding e_def by (auto simp: min_def)
  have y1: "y - 1 = 400 * a + 100 * b + 4 * c + e" by (simp add: y_def)
  have "(y - 1) div 4 = 100 * a + 25 * b + c" "(y - 1) div 100 = 4 * a + b" "(y - 1) div 400 = a"
    unfolding y1 using b(1,2) c e(1,2)
    by (auto intro!: int_div_pos_eq [where r = e] int_div_pos_eq [where r = "4 * c + e"] int_div_pos_eq [where r = "100 * b + 4 * c + e"])
  then show "days = 365 * (y - 1) + (y - 1) div 4 - (y - 1) div 100 + (y - 1) div 400 + (p - e * 365)"
    unfolding y1 using r(3) q(1) by (simp add: q_def)
  show "0 \<le> p - e * 365" by (rule e)
  have days: "days = 146097 * a + 36524 * b + 1461 * c + p" using r(3) q(1) by (simp add: q_def)
  show "1 \<le> y" if "0 \<le> days" using that b(1) c(1) e(1) by (simp add: y_def a_def)
  show "y \<le> 9999" if "days < 3652059" using that days b c e by (simp add: y_def)
  have "leap_year y" if "\<not> p - e * 365 < 365"
  proof -
    have full: "e = 3" "p = 1460" using that e q(3) by linarith+
    have y4: "y = 400 * a + 100 * b + 4 * (c + 1)" using full by (simp add: y_def)
    show ?thesis
    proof (cases "c = 24")
      case True
      then have "b = 3" using full b q(1) by linarith
      then have "y = 400 * (a + 1)" using True y4 by simp
      then show ?thesis by (simp add: leap_year_def)
    next
      case False
      have "y mod 100 = 4 * (c + 1)" unfolding y4 using False c by (auto intro!: int_mod_pos_eq [where q = "4 * a + b"])
      moreover have "y mod 4 = 0" unfolding y4 by (rule int_mod_pos_eq [where q = "100 * a + 25 * b + c + 1"]) simp_all
      moreover have "4 * (c + 1) \<noteq> 0" using c by simp
      ultimately have "y mod 4 = 0" "y mod 100 \<noteq> 0" by simp_all
      then show ?thesis by (simp add: leap_year_def)
    qed
  qed
  then show "p - e * 365 < (if leap_year y then 366 else 365)" using e(5) by (cases "p - e * 365 < 365") simp_all
qed

lemma civil_date_inverse:
  assumes "civil_date days = (y, m, d)"
  shows "days_civil y m d = days" "1 \<le> m" "m \<le> 12" "1 \<le> d" "d \<le> month_lengths y ! nat (m - 1)"
    and "0 \<le> days \<Longrightarrow> 1 \<le> y" "days < 3652059 \<Longrightarrow> y \<le> 9999"
proof -
  let ?b = "min 3 (days mod 146097 div 36524)"
  let ?q = "days mod 146097 - ?b * 36524"
  let ?e = "min 3 (?q mod 1461 div 365)"
  let ?yday = "?q mod 1461 - ?e * 365"
  let ?y = "400 * (days div 146097) + 100 * ?b + 4 * (?q div 1461) + ?e + 1"
  obtain m1 d1 where md1: "month_day 1 (month_lengths ?y) ?yday = (m1, d1)" by (meson surj_pair)
  have "civil_date days = (?y, m1, d1)"
    by (simp only: civil_date_def Let_def month_lengths_def [symmetric] md1 prod.case)
  then have y: "?y = y" and md: "month_day 1 (month_lengths y) ?yday = (m, d)"
    using assms md1 by (simp_all only: prod.inject)
  note parts = civil_parts [of days, unfolded y]
  define yday where "yday = ?yday"
  have sums: "sum_list (month_lengths y) = (if leap_year y then 366 else 365)" and pos: "\<forall>n \<in> set (month_lengths y). 0 < n"
    and len: "length (month_lengths y) = 12" by (simp_all add: month_lengths_def)
  have "0 \<le> yday" "yday < sum_list (month_lengths y)" unfolding yday_def sums by (fact parts)+
  from month_day_inverse [OF md [folded yday_def] this pos]
  have month: "1 \<le> m" "m \<le> 12" "1 \<le> d" "d \<le> month_lengths y ! nat (m - 1)" "sum_list (take (nat (m - 1)) (month_lengths y)) + (d - 1) = yday"
    by (simp_all add: len)
  show "days_civil y m d = days" unfolding days_civil_def using parts(1) [folded yday_def] month(5) by linarith
  show "1 \<le> m" "m \<le> 12" "1 \<le> d" "d \<le> month_lengths y ! nat (m - 1)" by (fact month)+
  show "0 \<le> days \<Longrightarrow> 1 \<le> y" "days < 3652059 \<Longrightarrow> y \<le> 9999" by (fact parts)+
qed

lemma month_lengths_le: "1 \<le> m \<Longrightarrow> m \<le> 12 \<Longrightarrow> month_lengths y ! nat (m - 1) \<le> 31"
proof -
  assume "1 \<le> m" "m \<le> 12"
  then have "nat (m - 1) < length (month_lengths y)" by (simp add: month_lengths_def)
  then have "month_lengths y ! nat (m - 1) \<in> set (month_lengths y)" by (rule nth_mem)
  then show ?thesis by (auto simp: month_lengths_def split: if_splits)
qed

text \<open>The years the four digits of the layout can hold.\<close>

definition maxTime :: time where
  "maxTime = 3652059 * 86400 * nanos_per_second"

subsection \<open>Fractions\<close>

lemma isDigit_digit_char [simp]: "k < 10 \<Longrightarrow> isDigit (digit_char k)"
  by (simp add: isDigit_def)

lemma nat_string_digits: "c \<in> set (nat_string n) \<Longrightarrow> isDigit c"
proof (induction n rule: nat_string.induct)
  case (1 n)
  then show ?case by (subst (asm) (2) nat_string.simps) (auto split: if_splits)
qed

lemma pad_nat_digits: "c \<in> set (pad_nat w i) \<Longrightarrow> isDigit c"
  by (auto simp: pad_nat_def Let_def isDigit_def [of "CHR ''0''"] digit_val_def nat_string_digits split: if_splits)

lemma takeHour_pad_nat: "0 \<le> i \<Longrightarrow> i < 100 \<Longrightarrow> takeHour (pad_nat 2 i @ rest) = Some (i, rest)"
  by (simp add: takeHour_def takeDigits_pad_nat)

lemma parse_digits_trailing_zeros: "parse_digits acc (s @ replicate k CHR ''0'') = map_option (\<lambda>n. n * 10 ^ k) (parse_digits acc s)"
proof -
  have "parse_digits n (replicate k CHR ''0'') = Some (n * 10 ^ k)" for n
    by (induction k arbitrary: n) (simp_all add: digit_val_def)
  then show ?thesis by (simp add: parse_digits_append split: option.splits)
qed

text \<open>A text is its part before the trailing zeros, followed by them.\<close>

lemma trailing_zeros:
  obtains k where "s = rev (dropWhile (\<lambda>c. c = z) (rev s)) @ replicate k z" "k = length (takeWhile (\<lambda>c. c = z) (rev s))"
proof -
  have "takeWhile (\<lambda>c. c = z) xs = replicate (length (takeWhile (\<lambda>c. c = z) xs)) z" for xs :: "'a list"
    by (induction xs) auto
  then have "rev (takeWhile (\<lambda>c. c = z) (rev s)) = replicate (length (takeWhile (\<lambda>c. c = z) (rev s))) z"
    by (metis rev_replicate)
  moreover have "s = rev (dropWhile (\<lambda>c. c = z) (rev s)) @ rev (takeWhile (\<lambda>c. c = z) (rev s))"
    by (metis rev_append rev_rev_ident takeWhile_dropWhile_id)
  ultimately show ?thesis using that by metis
qed

lemma takeFraction_format:
  assumes "0 \<le> nanos" "nanos < 10 ^ 9"
  shows "takeFraction (formatFraction nanos @ ''Z'') = (nanos, ''Z'')"
proof (cases "nanos = 0")
  case True
  then show ?thesis by (simp add: takeFraction_def formatFraction_def)
next
  case False
  obtain k where k: "pad_nat 9 nanos = rev (dropWhile (\<lambda>c. c = CHR ''0'') (rev (pad_nat 9 nanos))) @ replicate k CHR ''0''"
    using trailing_zeros by metis
  define ds where "ds = rev (dropWhile (\<lambda>c. c = CHR ''0'') (rev (pad_nat 9 nanos)))"
  have len: "length ds + k = 9" using arg_cong [OF k, of length] assms length_pad_nat [of nanos 9] by (simp add: ds_def)
  have "parse_digits 0 (ds @ replicate k CHR ''0'') = Some (nat nanos)"
    using parse_digits_pad_nat [OF assms(1), of 9] k unfolding ds_def by metis
  then obtain n where n: "parse_digits 0 ds = Some n" "n * 10 ^ k = nat nanos"
    by (auto simp: parse_digits_trailing_zeros)
  then have "ds \<noteq> []" using False assms(1) by auto
  then obtain d rest where ds: "ds = d # rest" by (cases ds) auto
  have digits: "\<forall>c \<in> set ds. isDigit c"
    using pad_nat_digits [of _ 9 nanos] k unfolding ds_def by (metis in_set_conv_decomp append_assoc append_Cons)
  have Z: "\<not> isDigit CHR ''Z''" by (simp add: isDigit_def digit_val_def)
  have tw: "takeWhile isDigit (ds @ ''Z'') = ds" "dropWhile isDigit (ds @ ''Z'') = ''Z''"
    using digits Z by (simp_all add: takeWhile_append2 dropWhile_append2)
  have kept: "take 9 ds = ds" "9 - length ds = k" using len by simp_all
  have "formatFraction nanos @ ''Z'' = CHR ''.'' # ds @ ''Z''" using False by (simp add: formatFraction_def ds_def)
  moreover have "takeFraction (CHR ''.'' # ds @ ''Z'') = (int n * 10 ^ k, ''Z'')"
  proof -
    have "isDigit d" using digits ds by simp
    then show ?thesis
      using tw kept n(1) unfolding ds append_Cons takeFraction_def list.case by (simp only: Let_def option.sel simp_thms if_True)
  qed
  moreover have "int n * 10 ^ k = nanos" using n(2) assms(1) by (metis int_nat_eq of_nat_mult of_nat_numeral of_nat_power)
  ultimately show ?thesis by simp
qed

lemma time_of_parts:
  fixes secs t :: int
  assumes "secs = t div nanos_per_second" "s = secs mod 86400"
  shows "(secs div 86400 * 86400 + s div 3600 * 3600 + s mod 3600 div 60 * 60 + s mod 60 - 0) * nanos_per_second + t mod nanos_per_second = t"
proof -
  have "s mod 3600 mod 60 = s mod 60" by (simp add: mod_mod_cancel)
  then have "s div 3600 * 3600 + s mod 3600 div 60 * 60 + s mod 60 = s" by (metis add.assoc div_mult_mod_eq)
  then have "secs div 86400 * 86400 + s div 3600 * 3600 + s mod 3600 div 60 * 60 + s mod 60 = secs"
    using assms(2) by (simp add: add.assoc)
  then show ?thesis using assms(1) by simp
qed

lemma ParseRFC3339_Format:
  assumes "0 \<le> t" "t < maxTime"
  shows "ParseRFC3339 (FormatRFC3339Nano t) = Some t"
proof -
  define secs where "secs = t div nanos_per_second"
  define s where "s = secs mod 86400"
  obtain y m d where c: "civil_date (secs div 86400) = (y, m, d)" by (metis prod_cases3)
  have "0 \<le> secs" "secs < 3652059 * 86400"
    using assms unfolding secs_def maxTime_def nanos_per_second_def by auto
  then have days: "0 \<le> secs div 86400" "secs div 86400 < 3652059" by auto
  note cd = civil_date_inverse [OF c]
  have ymd: "0 \<le> y" "y < 10 ^ 4" "0 \<le> m" "m < 10 ^ 2" "0 \<le> d" "d < 10 ^ 2"
    using cd(2-4) cd(6) [OF days(1)] cd(7) [OF days(2)] order_trans [OF cd(5) month_lengths_le [OF cd(2,3)]] by auto
  have "0 \<le> s" "s < 86400" by (simp_all add: s_def)
  then have hms: "0 \<le> s div 3600" "s div 3600 < 24" "0 \<le> s mod 3600 div 60" "s mod 3600 div 60 < 60" "0 \<le> s mod 60" "s mod 60 < 60"
    by auto
  have frac: "takeFraction (formatFraction (t mod nanos_per_second) @ ''Z'') = (t mod nanos_per_second, ''Z'')"
    by (rule takeFraction_format) (simp_all add: nanos_per_second_def)
  have zone: "parseZone ''Z'' = Some 0" by (simp add: parseZone_def)
  have date: "\<not> (m < 1 \<or> 12 < m \<or> d < 1 \<or> month_lengths y ! nat (m - 1) < d)" using cd(2-5) by simp
  have total: "(days_civil y m d * 86400 + s div 3600 * 3600 + s mod 3600 div 60 * 60 + s mod 60 - 0) * nanos_per_second + t mod nanos_per_second = t"
    unfolding cd(1) by (rule time_of_parts [OF secs_def s_def])
  show ?thesis
    unfolding FormatRFC3339Nano_def Let_def secs_def [symmetric] s_def [symmetric] c prod.case ParseRFC3339_def append_assoc
    using ymd hms date by (simp add: takeDigits_pad_nat takeHour_pad_nat frac zone total [simplified])
qed

end
