(* ===== verification/Order_Store.thy ===== *)
theory Order_Store
  imports Fee_Cache Go_Service Go_Encoding "HOL-Library.Product_Lexorder"
begin

text \<open>
  The store of the order ingest service, \<^verbatim>\<open>services/order-ingest/internal/storage\<close>: the table of orders with its constraints, the account of
  a user, listing with cursors, cancelling, and the fills a trade brings to its two orders. The lemmas show how an order may change, that every
  trade is counted once, and what a page of a listing holds.
\<close>

section \<open>Data\<close>

definition OrderStatusPending :: string where "OrderStatusPending = ''pending''"
definition OrderStatusOpen :: string where "OrderStatusOpen = ''open''"
definition OrderStatusFilled :: string where "OrderStatusFilled = ''filled''"
definition OrderStatusCancelled :: string where "OrderStatusCancelled = ''cancelled''"
definition OrderStatusRejected :: string where "OrderStatusRejected = ''rejected''"
definition OrderStatusExpired :: string where "OrderStatusExpired = ''expired''"

lemmas status_defs = OrderStatusPending_def OrderStatusOpen_def OrderStatusFilled_def OrderStatusCancelled_def
  OrderStatusRejected_def OrderStatusExpired_def

record 'd StoredOrder =
  so_ID :: uuid
  so_ClientOrderID :: string
  so_AccountID :: uuid
  so_Symbol :: string
  so_Side :: string
  so_Type :: string
  so_Price :: "'d option"
  so_Quantity :: 'd
  so_FilledQuantity :: 'd
  so_Status :: string
  so_TimeInForce :: string
  so_CreatedAt :: time
  so_UpdatedAt :: time

record OrderFilter =
  of_Symbol :: string
  of_Status :: string
  of_From :: "time option"
  of_To :: "time option"
  of_Cursor :: string
  of_Limit :: int

record AuditLog =
  al_ActorID :: uuid
  al_ActorType :: string
  al_Action :: string
  al_EntityType :: string
  al_EntityID :: "uuid option"
  al_IP :: string
  al_UserAgent :: string

record 'd OrderFill =
  fl_OrderID :: uuid
  fl_Quantity :: 'd

record ApplyTradeResult =
  at_AlreadyProcessed :: bool
  at_FilledOrderIDs :: "uuid list"

text \<open>A row of \<open>accounts\<close> is its ID, its user, its status and the time it was created.\<close>

record 'd order_db =
  o_accounts :: "(uuid \<times> uuid \<times> string \<times> time) list"
  o_orders :: "'d StoredOrder list"
  o_trades :: "'d trade_row list"
  o_processed :: "string list"
  o_audit :: "AuditLog list"

definition ErrOrderStoreNotFound :: go_error where
  "ErrOrderStoreNotFound = Sentinel ''not found''"

definition ErrInvalidCursor :: go_error where
  "ErrInvalidCursor = Sentinel ''invalid cursor''"

definition ErrInvalidStatus :: go_error where
  "ErrInvalidStatus = Sentinel ''invalid status transition''"

type_synonym ('d, 'z, 'a) order_prog = "(('d order_db, 'z) sql_state_scheme, 'a) prog"

section \<open>Statements\<close>

text \<open>The \<open>CHECK\<close> constraints of the table.\<close>

definition order_checks :: "'d::linordered_idom StoredOrder \<Rightarrow> bool" where
  "order_checks o' \<longleftrightarrow>
     0 < so_Quantity o' \<and> 0 \<le> so_FilledQuantity o' \<and> so_FilledQuantity o' \<le> so_Quantity o'
     \<and> (case so_Price o' of None \<Rightarrow> True | Some p \<Rightarrow> 0 \<le> p)
     \<and> so_Side o' \<in> {''buy'', ''sell''} \<and> so_Type o' \<in> {''market'', ''limit''}
     \<and> so_Status o' \<in> {''pending'', ''open'', ''filled'', ''cancelled'', ''rejected'', ''expired''}
     \<and> so_TimeInForce o' \<in> {''GTC'', ''IOC'', ''FOK''}
     \<and> (so_Type o' = ''market'' \<and> so_Price o' = None \<or> so_Type o' = ''limit'' \<and> so_Price o' \<noteq> None)"

definition sql_account_for_user :: "uuid \<Rightarrow> ('d order_db, uuid) stmt" where
  "sql_account_for_user userID n db =
     (case sort_key (\<lambda>(i, u, st, created). created) (filter (\<lambda>(i, u, st, created). u = userID \<and> st = ''active'') (o_accounts db)) of
        [] \<Rightarrow> Inl NoRows | a # _ \<Rightarrow> Inr (fst a, db))"

text \<open>
  \<open>INSERT ... ON CONFLICT (client_order_id, account_id) DO NOTHING RETURNING\<close>: the checks come first, a conflict returns no row, another key conflict or
  an account that does not exist is an error. Without an ID the server draws one.
\<close>

definition sql_insert_order :: "('d::linordered_idom, 'e) sql_env_scheme \<Rightarrow> 'd StoredOrder \<Rightarrow> ('d order_db, 'd StoredOrder) stmt" where
  "sql_insert_order E order n db =
     (let row = order\<lparr>so_ID := (if so_ID order \<noteq> uuid_Nil then so_ID order else se_uuid E n),
                      so_CreatedAt := se_clock E n, so_UpdatedAt := se_clock E n\<rparr> in
      if \<not> order_checks row then Inl DBErr
      else if list_ex (\<lambda>o'. so_ClientOrderID o' = so_ClientOrderID row \<and> so_AccountID o' = so_AccountID row) (o_orders db) then Inl NoRows
      else if list_ex (\<lambda>o'. so_ID o' = so_ID row) (o_orders db) then Inl (se_uniqueErr E)
      else if \<not> list_ex (\<lambda>(i, _). i = so_AccountID row) (o_accounts db) then Inl DBErr
      else Inr (row, db\<lparr>o_orders := o_orders db @ [row]\<rparr>))"

definition sql_order :: "('d StoredOrder \<Rightarrow> bool) \<Rightarrow> ('d order_db, 'd StoredOrder) stmt" where
  "sql_order P n db = (case filter P (o_orders db) of [] \<Rightarrow> Inl NoRows | o' # _ \<Rightarrow> Inr (o', db))"

definition sql_order_last_price :: "'d decimal_ops \<Rightarrow> string \<Rightarrow> ('d order_db, string) stmt" where
  "sql_order_last_price D symbol n db =
     (case sort_key (\<lambda>t. - tr_executed_at t) (filter (\<lambda>t. tr_symbol t = symbol) (o_trades db)) of
        [] \<Rightarrow> Inl NoRows | t # _ \<Rightarrow> Inr (DecString D (tr_price t), db))"

definition order_key :: "'d StoredOrder \<Rightarrow> time \<times> uuid" where
  "order_key o' = (so_CreatedAt o', so_ID o')"

text \<open>The rows a filter selects, in the order of the listing.\<close>

definition matchesFilter :: "uuid \<Rightarrow> OrderFilter \<Rightarrow> 'd StoredOrder \<Rightarrow> bool" where
  "matchesFilter accountID f o' \<longleftrightarrow>
     so_AccountID o' = accountID \<and> (of_Symbol f = [] \<or> so_Symbol o' = of_Symbol f) \<and> (of_Status f = [] \<or> so_Status o' = of_Status f)
     \<and> (case of_From f of None \<Rightarrow> True | Some t \<Rightarrow> t \<le> so_CreatedAt o') \<and> (case of_To f of None \<Rightarrow> True | Some t \<Rightarrow> so_CreatedAt o' \<le> t)"

definition sql_list_orders :: "uuid \<Rightarrow> OrderFilter \<Rightarrow> (time \<times> uuid) option \<Rightarrow> int \<Rightarrow> ('d order_db, 'd StoredOrder list) stmt" where
  "sql_list_orders accountID f cursor limit n db =
     Inr (take (nat limit) (sort_key order_key
            (filter (\<lambda>o'. matchesFilter accountID f o' \<and> (case cursor of None \<Rightarrow> True | Some k \<Rightarrow> k < order_key o')) (o_orders db))), db)"

text \<open>
  An \<open>UPDATE ... WHERE ... RETURNING\<close> that matches at most one row: the checks apply to the new row, and no match returns no row.
\<close>

definition sql_update_order ::
  "('d::linordered_idom StoredOrder \<Rightarrow> bool) \<Rightarrow> ('d StoredOrder \<Rightarrow> 'd StoredOrder) \<Rightarrow> ('d order_db, 'd StoredOrder) stmt" where
  "sql_update_order P f n db =
     (case filter P (o_orders db) of
        [] \<Rightarrow> Inl NoRows
      | o' # _ \<Rightarrow>
          if list_all (\<lambda>x. P x \<longrightarrow> order_checks (f x)) (o_orders db)
          then Inr (f o', db\<lparr>o_orders := map (\<lambda>x. if P x then f x else x) (o_orders db)\<rparr>)
          else Inl DBErr)"

text \<open>An \<open>UPDATE\<close> by \<open>Exec\<close>: no match is not an error.\<close>

definition sql_exec_order ::
  "('d::linordered_idom StoredOrder \<Rightarrow> bool) \<Rightarrow> ('d StoredOrder \<Rightarrow> 'd StoredOrder) \<Rightarrow> ('d order_db, unit) stmt" where
  "sql_exec_order P f n db =
     (if list_all (\<lambda>x. P x \<longrightarrow> order_checks (f x)) (o_orders db)
      then Inr ((), db\<lparr>o_orders := map (\<lambda>x. if P x then f x else x) (o_orders db)\<rparr>)
      else Inl DBErr)"

definition sql_insert_audit :: "AuditLog \<Rightarrow> ('d order_db, unit) stmt" where
  "sql_insert_audit log n db = Inr ((), db\<lparr>o_audit := o_audit db @ [log]\<rparr>)"

definition sql_order_event_exists :: "string \<Rightarrow> ('d order_db, bool) stmt" where
  "sql_order_event_exists eventID n db = Inr (List.member (o_processed db) eventID, db)"

definition sql_insert_order_event :: "string \<Rightarrow> ('d order_db, unit) stmt" where
  "sql_insert_order_event eventID n db =
     Inr ((), if List.member (o_processed db) eventID then db else db\<lparr>o_processed := o_processed db @ [eventID]\<rparr>)"

section \<open>Operations\<close>

text \<open>The numeric columns are read as text and parsed; a price that is NULL or empty stays nil.\<close>

definition scanOrderRow :: "('d, 'e) sql_env_scheme \<Rightarrow> 'd StoredOrder \<Rightarrow> ('s, 'd StoredOrder) prog" where
  "scanOrderRow E row =
     bindM (case so_Price row of
              None \<Rightarrow> ret None
            | Some p \<Rightarrow>
                if DecString (se_dec E) p = [] then ret None
                else bindM (parseColumn E ''parse price: %w'' p) (\<lambda>v. ret (Some v))) (\<lambda>price.
     bindM (parseColumn E ''parse quantity: %w'' (so_Quantity row)) (\<lambda>qty.
     bindM (parseColumn E ''parse filled quantity: %w'' (so_FilledQuantity row)) (\<lambda>filled.
     ret (row\<lparr>so_Price := price, so_Quantity := qty, so_FilledQuantity := filled\<rparr>))))"

definition orStoreNotFound :: "('s, 'a) prog \<Rightarrow> ('s, 'a) prog" where
  "orStoreNotFound m = attempt m (\<lambda>err. if errors_Is err NoRows then fail ErrOrderStoreNotFound else fail err) ret"

definition GetAccountIDForUser :: "('d, 'e) sql_env_scheme \<Rightarrow> uuid \<Rightarrow> ('d, 'z, uuid) order_prog" where
  "GetAccountIDForUser E userID = orStoreNotFound (poolQuery E (sql_account_for_user userID))"

definition GetOrderByID :: "('d, 'e) sql_env_scheme \<Rightarrow> uuid \<Rightarrow> ('d, 'z, 'd StoredOrder) order_prog" where
  "GetOrderByID E orderID =
     orStoreNotFound (bindM (poolQuery E (sql_order (\<lambda>o'. so_ID o' = orderID))) (scanOrderRow E))"

definition GetOrderByClientID :: "('d, 'e) sql_env_scheme \<Rightarrow> uuid \<Rightarrow> string \<Rightarrow> ('d, 'z, 'd StoredOrder) order_prog" where
  "GetOrderByClientID E accountID clientOrderID =
     orStoreNotFound (bindM (poolQuery E (sql_order (\<lambda>o'. so_AccountID o' = accountID \<and> so_ClientOrderID o' = clientOrderID)))
       (scanOrderRow E))"

text \<open>The result says whether the order was created.\<close>

definition CreateOrder :: "('d::linordered_idom, 'e) sql_env_scheme \<Rightarrow> 'd StoredOrder \<Rightarrow> ('d, 'z, 'd StoredOrder \<times> bool) order_prog" where
  "CreateOrder E order =
     attempt (bindM (poolQuery E (sql_insert_order E order)) (scanOrderRow E))
       (\<lambda>err.
         if \<not> errors_Is err NoRows then fail err
         else bindM (GetOrderByClientID E (so_AccountID order) (so_ClientOrderID order)) (\<lambda>existing. ret (existing, False)))
       (\<lambda>stored. ret (stored, True))"

definition OrderStore_GetLastTradePrice :: "('d::linordered_idom, 'e) sql_env_scheme \<Rightarrow> string \<Rightarrow> ('d, 'z, 'd) order_prog" where
  "OrderStore_GetLastTradePrice E raw =
     (let symbol = ToUpper (TrimSpace raw) in
      if symbol = [] then fail ErrOrderStoreNotFound
      else
        bindM (orStoreNotFound (poolQuery E (sql_order_last_price (se_dec E) symbol))) (\<lambda>priceStr.
        case NewFromString (se_dec E) (TrimSpace priceStr) of
          None \<Rightarrow> fail (Wrapf ''parse trade price: %w'' decimal_error)
        | Some price \<Rightarrow> if price \<le> 0 then fail ErrOrderStoreNotFound else ret price))"

definition clampLimit :: "int \<Rightarrow> int" where
  "clampLimit limit = (if limit \<le> 0 then 50 else if limit > 100 then 100 else limit)"

definition encodeCursor :: "('d, 'e) sql_env_scheme \<Rightarrow> time \<Rightarrow> uuid \<Rightarrow> string" where
  "encodeCursor E ts i = EncodeToString (FormatRFC3339Nano ts @ ''|'' @ se_uuidString E i)"

definition decodeCursor :: "('d, 'e) api_env_scheme \<Rightarrow> string \<Rightarrow> go_error + time \<times> uuid" where
  "decodeCursor E cursor =
     (case DecodeString cursor of
        None \<Rightarrow> Inl ErrInvalidCursor
      | Some decoded \<Rightarrow>
          (case SplitN2 decoded CHR ''|'' of
             [t, i] \<Rightarrow>
               (case ParseRFC3339 t of
                  None \<Rightarrow> Inl ErrInvalidCursor
                | Some ts \<Rightarrow> (case ae_parseUUID E i of None \<Rightarrow> Inl ErrInvalidCursor | Some u \<Rightarrow> Inr (ts, u)))
           | _ \<Rightarrow> Inl ErrInvalidCursor))"

definition ListOrders :: "('d, 'e) api_env_scheme \<Rightarrow> uuid \<Rightarrow> OrderFilter \<Rightarrow> ('d, 'z, 'd StoredOrder list \<times> string) order_prog" where
  "ListOrders E accountID f =
     (let limit = clampLimit (of_Limit f);
          rest = (\<lambda>cursor.
            bindM (poolQuery E (sql_list_orders accountID f cursor (limit + 1))) (\<lambda>rows.
            bindM (foldM (\<lambda>acc row. bindM (scanOrderRow E row) (\<lambda>order. ret (acc @ [order]))) rows []) (\<lambda>orders.
            if int (length orders) > limit
            then (let last = orders ! nat limit in ret (take (nat limit) orders, encodeCursor E (so_CreatedAt last) (so_ID last)))
            else ret (orders, [])))) in
      if of_Cursor f \<noteq> [] then
        (case decodeCursor E (of_Cursor f) of Inl _ \<Rightarrow> fail ErrInvalidCursor | Inr k \<Rightarrow> rest (Some k))
      else rest None)"

text \<open>The status that remains when an update found no row: the order does not exist, or may not change.\<close>

definition refusedUpdate :: "('d, 'e) sql_env_scheme \<Rightarrow> ('d StoredOrder \<Rightarrow> bool) \<Rightarrow> go_error \<Rightarrow> ('d, 'z, 'd StoredOrder) order_prog" where
  "refusedUpdate E P err =
     (if \<not> errors_Is err NoRows then fail err
      else attempt (poolQuery E (sql_order P))
        (\<lambda>scanErr. if errors_Is scanErr NoRows then fail ErrOrderStoreNotFound else fail scanErr)
        (\<lambda>_. fail ErrInvalidStatus))"

definition UpdateOrderStatus ::
  "('d::linordered_idom, 'e) sql_env_scheme \<Rightarrow> uuid \<Rightarrow> string \<Rightarrow> 'd \<Rightarrow> ('d, 'z, 'd StoredOrder) order_prog" where
  "UpdateOrderStatus E orderID status filledQuantity =
     attempt
       (bindM (poolQuery E (\<lambda>n. sql_update_order
            (\<lambda>o'. so_ID o' = orderID \<and> so_Status o' \<notin> {''cancelled'', ''rejected'', ''expired''})
            (\<lambda>o'. o'\<lparr>so_Status := status, so_FilledQuantity := filledQuantity, so_UpdatedAt := se_clock E n\<rparr>) n))
          (scanOrderRow E))
       (refusedUpdate E (\<lambda>o'. so_ID o' = orderID)) ret"

definition cancellable :: "uuid \<Rightarrow> uuid \<Rightarrow> 'd StoredOrder \<Rightarrow> bool" where
  "cancellable orderID accountID o' \<longleftrightarrow> so_ID o' = orderID \<and> so_AccountID o' = accountID \<and> so_Status o' \<in> {''pending'', ''open''}"

definition cancelRow :: "time \<Rightarrow> 'd StoredOrder \<Rightarrow> 'd StoredOrder" where
  "cancelRow now o' = o'\<lparr>so_Status := OrderStatusCancelled, so_UpdatedAt := now\<rparr>"

definition OrderStore_CancelOrder :: "('d::linordered_idom, 'e) sql_env_scheme \<Rightarrow> uuid \<Rightarrow> uuid \<Rightarrow> ('d, 'z, 'd StoredOrder) order_prog" where
  "OrderStore_CancelOrder E orderID accountID =
     attempt
       (bindM (poolQuery E (\<lambda>n. sql_update_order (cancellable orderID accountID) (cancelRow (se_clock E n)) n))
          (scanOrderRow E))
       (refusedUpdate E (\<lambda>o'. so_ID o' = orderID \<and> so_AccountID o' = accountID)) ret"

definition InsertAudit :: "('d, 'e) sql_env_scheme \<Rightarrow> AuditLog \<Rightarrow> ('d, 'z, unit) order_prog" where
  "InsertAudit E log = poolQuery E (sql_insert_audit log)"

section \<open>Fills of a trade\<close>

definition orderIngestEventPrefix :: string where
  "orderIngestEventPrefix = ''order-ingest:''"

definition orderIngestEventKey :: "string \<Rightarrow> string" where
  "orderIngestEventKey eventID =
     (let trimmed = TrimSpace eventID in
      if trimmed = [] then []
      else if HasPrefix trimmed orderIngestEventPrefix then trimmed
      else orderIngestEventPrefix @ trimmed)"

definition orderEventProcessed :: "('d, 'e) sql_env_scheme \<Rightarrow> string \<Rightarrow> ('d, 'z, bool) order_prog" where
  "orderEventProcessed E eventID =
     (let key = orderIngestEventKey eventID in if key = [] then ret False else txStmt E (sql_order_event_exists key))"

definition getOrderForUpdate :: "('d, 'e) sql_env_scheme \<Rightarrow> uuid \<Rightarrow> ('d, 'z, 'd StoredOrder) order_prog" where
  "getOrderForUpdate E orderID =
     orStoreNotFound (bindM (txStmt E (sql_order (\<lambda>o'. so_ID o' = orderID))) (scanOrderRow E))"

text \<open>One fill: the filled quantity is capped by the quantity; the orders it completes are collected.\<close>

definition applyFill ::
  "('d::linordered_idom, 'e) sql_env_scheme \<Rightarrow> time \<Rightarrow> uuid list \<Rightarrow> 'd OrderFill \<Rightarrow> ('d, 'z, uuid list) order_prog" where
  "applyFill E now filledOrders fill =
     bindM (getOrderForUpdate E (fl_OrderID fill)) (\<lambda>order.
     if so_Status order = OrderStatusCancelled \<or> so_Status order = OrderStatusRejected \<or> so_Status order = OrderStatusExpired
     then fail (Errorf ''order %s not updatable'' [AUuid (so_ID order)])
     else
       (let sum = so_FilledQuantity order + fl_Quantity fill;
            newFilled = (if sum > so_Quantity order then so_Quantity order else sum);
            newStatus = (if newFilled = so_Quantity order then OrderStatusFilled else OrderStatusOpen) in
        bindM (txStmt E (sql_exec_order (\<lambda>o'. so_ID o' = so_ID order)
            (\<lambda>o'. o'\<lparr>so_FilledQuantity := newFilled, so_Status := newStatus, so_UpdatedAt := now\<rparr>))) (\<lambda>_.
        ret (if newStatus = OrderStatusFilled \<and> so_Status order \<noteq> OrderStatusFilled
             then filledOrders @ [so_ID order] else filledOrders))))"

definition ApplyTradeExecution ::
  "('d::linordered_idom, 'e) sql_env_scheme \<Rightarrow> string \<Rightarrow> 'd OrderFill list \<Rightarrow> ('d, 'z, ApplyTradeResult) order_prog" where
  "ApplyTradeExecution E eventID fills =
     withTx E (
       bindM (if TrimSpace eventID \<noteq> [] then orderEventProcessed E eventID else ret False) (\<lambda>processed.
       if processed then ret (TxRollback (ret \<lparr>at_AlreadyProcessed = True, at_FilledOrderIDs = []\<rparr>))
       else
         bindM (Now E) (\<lambda>now.
         bindM (foldM (applyFill E now) fills []) (\<lambda>filledOrders.
         bindM (if TrimSpace eventID \<noteq> [] then txStmt E (sql_insert_order_event (orderIngestEventKey eventID)) else ret ()) (\<lambda>_.
         ret (TxCommit \<lparr>at_AlreadyProcessed = False, at_FilledOrderIDs = filledOrders\<rparr>))))))"

section \<open>Invariant and evolution of orders\<close>

text \<open>
  The invariant: keys are unique, every row satisfies the checks, and the orders that are filled are those whose quantity has been traded.
\<close>

definition consistent_fill :: "'d::linordered_idom StoredOrder \<Rightarrow> bool" where
  "consistent_fill o' \<longleftrightarrow> (so_Status o' = ''filled'' \<longleftrightarrow> so_FilledQuantity o' = so_Quantity o')"

definition orders_inv :: "'d::linordered_idom order_db \<Rightarrow> bool" where
  "orders_inv db \<longleftrightarrow>
     distinct (map so_ID (o_orders db)) \<and> distinct (map (\<lambda>o'. (so_ClientOrderID o', so_AccountID o')) (o_orders db))
     \<and> (\<forall>o' \<in> set (o_orders db). order_checks o' \<and> consistent_fill o')"

text \<open>
  How an order may change: what was ordered never does; a cancelled, rejected or expired order stays as it is; and the status moves along
  \<open>pending\<close>, \<open>open\<close>, \<open>filled\<close> or to \<open>cancelled\<close>.
\<close>

definition closed :: "'d StoredOrder \<Rightarrow> bool" where
  "closed o' \<longleftrightarrow> so_Status o' = OrderStatusCancelled \<or> so_Status o' = OrderStatusRejected \<or> so_Status o' = OrderStatusExpired"

definition status_rank :: "string \<Rightarrow> nat" where
  "status_rank st = (if st = ''pending'' then 0 else if st = ''open'' then 1 else if st = ''filled'' then 2 else 3)"

definition same_terms :: "'d StoredOrder \<Rightarrow> 'd StoredOrder \<Rightarrow> bool" where
  "same_terms a b \<longleftrightarrow> so_ID b = so_ID a \<and> so_ClientOrderID b = so_ClientOrderID a \<and> so_AccountID b = so_AccountID a \<and> so_Symbol b = so_Symbol a
     \<and> so_Side b = so_Side a \<and> so_Type b = so_Type a \<and> so_Price b = so_Price a \<and> so_Quantity b = so_Quantity a
     \<and> so_TimeInForce b = so_TimeInForce a \<and> so_CreatedAt b = so_CreatedAt a"

definition order_evolves :: "'d::linordered_idom StoredOrder \<Rightarrow> 'd StoredOrder \<Rightarrow> bool" where
  "order_evolves a b \<longleftrightarrow> same_terms a b \<and> (closed a \<longrightarrow> b = a) \<and> (so_Status a = ''filled'' \<longrightarrow> so_Status b = ''filled'')
     \<and> status_rank (so_Status a) \<le> status_rank (so_Status b) \<and> so_FilledQuantity a \<le> so_FilledQuantity b"

definition orders_evolve :: "'d::linordered_idom order_db \<Rightarrow> 'd order_db \<Rightarrow> bool" where
  "orders_evolve db db' \<longleftrightarrow> (\<exists>upd new. o_orders db' = upd @ new \<and> list_all2 order_evolves (o_orders db) upd)"

lemma same_terms_refl [simp]: "same_terms a a"
  by (simp add: same_terms_def)

lemma order_evolves_refl [simp]: "order_evolves a a"
  by (simp add: order_evolves_def)

lemma order_evolves_trans: "order_evolves a b \<Longrightarrow> order_evolves b c \<Longrightarrow> order_evolves a c"
  by (auto simp: order_evolves_def same_terms_def)

lemma orders_evolve_refl [simp]: "orders_evolve db db"
  unfolding orders_evolve_def by (intro exI [of _ "o_orders db"] exI [of _ "[]"]) (simp add: list.rel_refl)

lemma orders_evolve_trans: "orders_evolve a b \<Longrightarrow> orders_evolve b c \<Longrightarrow> orders_evolve a c"
proof -
  assume "orders_evolve a b" "orders_evolve b c"
  then obtain u n v m where b: "o_orders b = u @ n" "list_all2 order_evolves (o_orders a) u"
    and c: "o_orders c = v @ m" "list_all2 order_evolves (o_orders b) v" by (auto simp: orders_evolve_def)
  then obtain v1 v2 where v: "v = v1 @ v2" "list_all2 order_evolves u v1" by (auto simp: list_all2_append1)
  have "list_all2 order_evolves (o_orders a) v1"
    by (rule list_all2_trans [OF _ b(2) v(2)]) (rule order_evolves_trans)
  then show ?thesis unfolding orders_evolve_def using c(1) v(1) by (intro exI [of _ v1] exI [of _ "v2 @ m"]) simp
qed

text \<open>An insert and an update of rows, and what they keep.\<close>

lemma orders_evolve_insert: "o_orders db' = o_orders db @ [row] \<Longrightarrow> orders_evolve db db'"
  unfolding orders_evolve_def by (intro exI [of _ "o_orders db"] exI [of _ "[row]"]) (simp add: list.rel_refl)

lemma orders_inv_insert:
  assumes "orders_inv db" "o_orders db' = o_orders db @ [row]" "order_checks row" "consistent_fill row"
    and "\<not> list_ex (\<lambda>o'. so_ClientOrderID o' = so_ClientOrderID row \<and> so_AccountID o' = so_AccountID row) (o_orders db)"
    and "\<not> list_ex (\<lambda>o'. so_ID o' = so_ID row) (o_orders db)"
  shows "orders_inv db'"
  using assms by (auto simp: orders_inv_def list_ex_iff)

lemma orders_evolve_update:
  assumes "\<And>x. x \<in> set (o_orders db) \<Longrightarrow> P x \<Longrightarrow> order_evolves x (f x)" "o_orders db' = map (\<lambda>x. if P x then f x else x) (o_orders db)"
  shows "orders_evolve db db'"
  unfolding orders_evolve_def using assms
  by (intro exI [of _ "o_orders db'"] exI [of _ "[]"]) (auto simp: list_all2_conv_all_nth)

lemma orders_inv_update:
  assumes "orders_inv db" "o_orders db' = map (\<lambda>x. if P x then f x else x) (o_orders db)"
    and "\<And>x. x \<in> set (o_orders db) \<Longrightarrow> P x \<Longrightarrow> same_terms x (f x) \<and> order_checks (f x) \<and> consistent_fill (f x)"
  shows "orders_inv db'"
proof -
  let ?g = "\<lambda>x. if P x then f x else x"
  have "map so_ID (o_orders db') = map so_ID (o_orders db)"
    "map (\<lambda>o'. (so_ClientOrderID o', so_AccountID o')) (o_orders db') = map (\<lambda>o'. (so_ClientOrderID o', so_AccountID o')) (o_orders db)"
    using assms(2,3) by (auto simp: same_terms_def)
  moreover have "\<forall>o' \<in> set (o_orders db'). order_checks o' \<and> consistent_fill o'" using assms unfolding orders_inv_def by auto
  ultimately show ?thesis using assms(1) unfolding orders_inv_def by (simp only: simp_thms)
qed

section \<open>What the operations return\<close>

text \<open>Decimals print as texts that can be read back and are never empty.\<close>

definition printed_text :: "'d decimal_ops \<Rightarrow> bool" where
  "printed_text D \<longleftrightarrow> exact_text D \<and> (\<forall>v. DecString D v \<noteq> [])"

lemma printed_text_int [simp]: "printed_text int_decimal"
  by (auto simp: printed_text_def int_string_def)

lemma wp_scanOrderRow [simp, wp_simps]: "printed_text (se_dec E) \<Longrightarrow> wp (scanOrderRow E row) Q X s = Q row s"
  by (cases row; cases "so_Price row") (simp_all add: scanOrderRow_def printed_text_def)

lemma wp_scanOrderRow_intro [wp_intro]: "printed_text (se_dec E) \<Longrightarrow> Q row s \<Longrightarrow> wp (scanOrderRow E row) Q X s"
  by simp

lemma wp_orStoreNotFound:
  "wp m Q (\<lambda>e. X (if errors_Is e NoRows then ErrOrderStoreNotFound else e)) s \<Longrightarrow> wp (orStoreNotFound m) Q X s"
  unfolding orStoreNotFound_def by (simp add: if_distrib [of fail]) (erule wp_conseq; auto split: if_splits)

lemma sql_order_row: "sql_order P n db = Inr (o', db') \<Longrightarrow> db' = db \<and> o' \<in> set (o_orders db) \<and> P o'"
  unfolding sql_order_def by (drule first_row) auto

lemma sql_order_none: "sql_order P n db = Inl e \<Longrightarrow> e = NoRows \<and> (\<forall>o' \<in> set (o_orders db). \<not> P o')"
  by (auto simp: sql_order_def filter_empty_conv split: list.splits)

text \<open>Reads of the pool leave the tables alone, and \<open>ErrNotFound\<close> means that there is no such row.\<close>

lemma wp_orderQuery:
  assumes "printed_text (se_dec E)"
    and "\<And>o' t. ss_db t = ss_db s \<Longrightarrow> o' \<in> set (o_orders (ss_db s)) \<Longrightarrow> P o' \<Longrightarrow> Q o' t"
    and "\<And>t. ss_db t = ss_db s \<Longrightarrow> \<forall>o' \<in> set (o_orders (ss_db s)). \<not> P o' \<Longrightarrow> X ErrOrderStoreNotFound t" and "\<And>t. ss_db t = ss_db s \<Longrightarrow> X DBErr t"
  shows "wp (orStoreNotFound (bindM (poolQuery E (sql_order P)) (scanOrderRow E))) Q X s"
  by (intro wp_orStoreNotFound wp_intro_structural wp_poolRead)
     (auto simp: assms(1) dest: sql_order_row sql_order_none intro!: assms(2-4))

lemma wp_GetOrderByID:
  assumes "printed_text (se_dec E)"
    and "\<And>o' t. ss_db t = ss_db s \<Longrightarrow> o' \<in> set (o_orders (ss_db s)) \<Longrightarrow> so_ID o' = orderID \<Longrightarrow> Q o' t"
    and "\<And>t. ss_db t = ss_db s \<Longrightarrow> \<forall>o' \<in> set (o_orders (ss_db s)). so_ID o' \<noteq> orderID \<Longrightarrow> X ErrOrderStoreNotFound t" and "\<And>t. ss_db t = ss_db s \<Longrightarrow> X DBErr t"
  shows "wp (GetOrderByID E orderID) Q X s"
  unfolding GetOrderByID_def by (intro wp_orderQuery assms)

lemma wp_GetOrderByClientID:
  assumes "printed_text (se_dec E)"
    and "\<And>o' t. ss_db t = ss_db s \<Longrightarrow> o' \<in> set (o_orders (ss_db s)) \<Longrightarrow> so_AccountID o' = u \<and> so_ClientOrderID o' = cid \<Longrightarrow> Q o' t"
    and "\<And>t. ss_db t = ss_db s \<Longrightarrow> \<forall>o' \<in> set (o_orders (ss_db s)). \<not> (so_AccountID o' = u \<and> so_ClientOrderID o' = cid) \<Longrightarrow> X ErrOrderStoreNotFound t"
    and "\<And>t. ss_db t = ss_db s \<Longrightarrow> X DBErr t"
  shows "wp (GetOrderByClientID E u cid) Q X s"
  unfolding GetOrderByClientID_def by (intro wp_orderQuery assms)

lemma wp_GetAccountIDForUser:
  assumes "\<And>u t. ss_db t = ss_db s \<Longrightarrow> (\<exists>created. (u, userID, ''active'', created) \<in> set (o_accounts (ss_db s))) \<Longrightarrow> Q u t"
    and "\<And>e t. ss_db t = ss_db s \<Longrightarrow> X e t"
  shows "wp (GetAccountIDForUser E userID) Q X s"
proof -
  have row: "db' = db \<and> (\<exists>created. (u, userID, ''active'', created) \<in> set (o_accounts db))"
    if "sql_account_for_user userID n db = Inr (u, db')" for n u db' and db :: "'a order_db"
    using that unfolding sql_account_for_user_def by (drule_tac first_row) auto
  show ?thesis
    unfolding GetAccountIDForUser_def by (intro wp_orStoreNotFound wp_poolRead) (auto dest: row intro!: assms)
qed

text \<open>What creating an order adds.\<close>

definition inserts_order :: "'d::linordered_idom StoredOrder \<Rightarrow> 'd order_db \<Rightarrow> 'd StoredOrder \<Rightarrow> 'd order_db \<Rightarrow> bool" where
  "inserts_order order db stored db' \<longleftrightarrow>
     db' = db\<lparr>o_orders := o_orders db @ [stored]\<rparr> \<and> order_checks stored
     \<and> (\<exists>i ts. stored = order\<lparr>so_ID := i, so_CreatedAt := ts, so_UpdatedAt := ts\<rparr> \<and> (so_ID order \<noteq> uuid_Nil \<longrightarrow> i = so_ID order))
     \<and> \<not> list_ex (\<lambda>o'. so_ClientOrderID o' = so_ClientOrderID stored \<and> so_AccountID o' = so_AccountID stored) (o_orders db)
     \<and> \<not> list_ex (\<lambda>o'. so_ID o' = so_ID stored) (o_orders db)"

lemma inserts_orderD:
  assumes "inserts_order order db stored db'"
  shows "db' = db\<lparr>o_orders := o_orders db @ [stored]\<rparr>" "order_checks stored"
    "\<exists>i ts. stored = order\<lparr>so_ID := i, so_CreatedAt := ts, so_UpdatedAt := ts\<rparr> \<and> (so_ID order \<noteq> uuid_Nil \<longrightarrow> i = so_ID order)"
    "\<not> list_ex (\<lambda>o'. so_ClientOrderID o' = so_ClientOrderID stored \<and> so_AccountID o' = so_AccountID stored) (o_orders db)"
    "\<not> list_ex (\<lambda>o'. so_ID o' = so_ID stored) (o_orders db)"
  using assms unfolding inserts_order_def by blast+

lemma sql_insert_order_Inr: "sql_insert_order E order n db = Inr (stored, db') \<Longrightarrow> inserts_order order db stored db'"
  by (force simp: sql_insert_order_def inserts_order_def Let_def split: if_splits)

lemma wp_CreateOrder:
  assumes "printed_text (se_dec E)"
    and "\<And>stored t. inserts_order order (ss_db s) stored (ss_db t) \<Longrightarrow> Q (stored, True) t"
    and "\<And>o' t. ss_db t = ss_db s \<Longrightarrow> o' \<in> set (o_orders (ss_db s)) \<Longrightarrow> so_AccountID o' = so_AccountID order \<and> so_ClientOrderID o' = so_ClientOrderID order
        \<Longrightarrow> Q (o', False) t"
    and "\<And>e t. ss_db t = ss_db s \<Longrightarrow> X e t"
  shows "wp (CreateOrder E order) Q X s"
  unfolding CreateOrder_def
  by (intro wp_intro_structural wp_poolQuery wp_if wp_GetOrderByClientID)
     (auto simp: assms(1) intro!: assms(2-4) dest: sql_insert_order_Inr)

lemma inserts_keeps:
  assumes "orders_inv db" "inserts_order order db stored db'" "consistent_fill order"
  shows "orders_inv db'" "orders_evolve db db'"
proof -
  note ins = inserts_orderD [OF assms(2)]
  have "consistent_fill stored" using ins(3) assms(3) by (auto simp: consistent_fill_def)
  moreover have "o_orders db' = o_orders db @ [stored]" using ins(1) by simp
  ultimately show "orders_inv db'" "orders_evolve db db'"
    using orders_inv_insert [OF assms(1) _ ins(2) _ ins(4,5)] orders_evolve_insert by blast+
qed

text \<open>Cancelling: the row of the account's order that is pending or open is closed, with its fills as they were.\<close>

definition cancels :: "uuid \<Rightarrow> uuid \<Rightarrow> 'd::linordered_idom order_db \<Rightarrow> 'd StoredOrder \<Rightarrow> 'd order_db \<Rightarrow> bool" where
  "cancels orderID accountID db o' db' \<longleftrightarrow>
     (\<exists>now. (\<exists>old \<in> set (o_orders db). cancellable orderID accountID old \<and> o' = cancelRow now old)
        \<and> db' = db\<lparr>o_orders := map (\<lambda>x. if cancellable orderID accountID x then cancelRow now x else x) (o_orders db)\<rparr>)"

lemma sql_update_order_Inr:
  "sql_update_order P f n db = Inr (o', db') \<Longrightarrow>
     (\<exists>old \<in> set (o_orders db). P old \<and> o' = f old) \<and> db' = db\<lparr>o_orders := map (\<lambda>x. if P x then f x else x) (o_orders db)\<rparr>
     \<and> (\<forall>x \<in> set (o_orders db). P x \<longrightarrow> order_checks (f x))"
proof -
  assume a: "sql_update_order P f n db = Inr (o', db')"
  then obtain old rest where old: "filter P (o_orders db) = old # rest" by (auto simp: sql_update_order_def split: list.splits)
  then have "old \<in> set (filter P (o_orders db))" by (simp only: list.set_intros)
  then have "old \<in> set (o_orders db)" "P old" by simp_all
  then show ?thesis using a old by (auto simp: sql_update_order_def list_all_iff split: if_splits)
qed

lemma sql_update_order_Inl:
  "sql_update_order P f n db = Inl e \<Longrightarrow> e = DBErr \<or> (e = NoRows \<and> (\<forall>x \<in> set (o_orders db). \<not> P x))"
  by (auto simp: sql_update_order_def filter_empty_conv split: list.splits if_splits)

lemma wp_refusedUpdate:
  assumes "\<And>o' t. ss_db t = ss_db s \<Longrightarrow> o' \<in> set (o_orders (ss_db s)) \<Longrightarrow> P o' \<Longrightarrow> err = NoRows \<Longrightarrow> X ErrInvalidStatus t"
    and "\<And>e t. e \<noteq> ErrInvalidStatus \<Longrightarrow> ss_db t = ss_db s \<Longrightarrow> X e t" and "err = NoRows \<or> err = DBErr"
  shows "wp (refusedUpdate E P err) Q X s"
proof -
  have found: "X ErrInvalidStatus t" if "sql_order P n (ss_db s) = Inr (a, db)" "err = NoRows" "ss_db t = ss_db s" for n a db t
    using sql_order_row [OF that(1)] that by (intro assms(1)) auto
  show ?thesis
    unfolding refusedUpdate_def using assms(3)
    by (intro wp_intro wp_poolRead)
       (auto simp: ErrOrderStoreNotFound_def ErrInvalidStatus_def dest: sql_order_row sql_order_none
          intro: assms(2) found [unfolded ErrInvalidStatus_def])
qed

lemma wp_OrderStore_CancelOrder:
  assumes "printed_text (se_dec E)" and "\<And>o' t. cancels orderID u (ss_db s) o' (ss_db t) \<Longrightarrow> Q o' t"
    and "\<And>o' t. ss_db t = ss_db s \<Longrightarrow> o' \<in> set (o_orders (ss_db s)) \<Longrightarrow> so_ID o' = orderID \<and> so_AccountID o' = u
        \<Longrightarrow> \<forall>o' \<in> set (o_orders (ss_db s)). \<not> cancellable orderID u o' \<Longrightarrow> X ErrInvalidStatus t"
    and "\<And>e t. e \<noteq> ErrInvalidStatus \<Longrightarrow> ss_db t = ss_db s \<Longrightarrow> X e t"
  shows "wp (OrderStore_CancelOrder E orderID u) Q X s"
proof -
  have cancelled: "Q o' t" if "sql_update_order (cancellable orderID u) (cancelRow c) n (ss_db s) = Inr (o', ss_db t)" for c n o' t
    using sql_update_order_Inr [OF that] by (intro assms(2)) (auto simp: cancels_def)
  have refused: "wp (refusedUpdate E (\<lambda>o'. so_ID o' = orderID \<and> so_AccountID o' = u) e) R X t"
    if e: "sql_update_order (cancellable orderID u) (cancelRow c) n (ss_db s) = Inl e \<or> e = DBErr" and t: "ss_db t = ss_db s" for c n e t R
  proof (rule wp_refusedUpdate)
    have e': "e = DBErr \<or> e = NoRows \<and> (\<forall>x \<in> set (o_orders (ss_db s)). \<not> cancellable orderID u x)"
      using e sql_update_order_Inl by blast
    then show "e = NoRows \<or> e = DBErr" by blast
    show "X ErrInvalidStatus t'" if "ss_db t' = ss_db t" "o' \<in> set (o_orders (ss_db t))" "so_ID o' = orderID \<and> so_AccountID o' = u" "e = NoRows" for o' t'
      using that e' t by (intro assms(3)) auto
    show "X e2 t'" if "e2 \<noteq> ErrInvalidStatus" "ss_db t' = ss_db t" for e2 t' using that t by (intro assms(4)) simp_all
  qed
  show ?thesis
    unfolding OrderStore_CancelOrder_def
    by (intro wp_intro_structural wp_poolQuery) (auto simp: assms(1) intro: cancelled refused)
qed

lemma cancelRow_ok:
  assumes "cancellable orderID u x"
  shows "order_evolves x (cancelRow now x)" "same_terms x (cancelRow now x)"
    and "order_checks x \<Longrightarrow> order_checks (cancelRow now x)"
    and "consistent_fill x \<Longrightarrow> consistent_fill (cancelRow now x)"
proof -
  have st: "so_Status x = ''pending'' \<or> so_Status x = ''open''" using assms by (simp add: cancellable_def)
  show terms: "same_terms x (cancelRow now x)" by (simp add: same_terms_def cancelRow_def)
  have "\<not> closed x" "so_Status x \<noteq> ''filled''" using st by (auto simp: closed_def status_defs)
  moreover have "status_rank (so_Status x) \<le> status_rank (so_Status (cancelRow now x))"
    by (simp add: status_rank_def cancelRow_def OrderStatusCancelled_def)
  moreover have "so_FilledQuantity (cancelRow now x) = so_FilledQuantity x" by (simp add: cancelRow_def)
  ultimately show "order_evolves x (cancelRow now x)" using terms by (simp add: order_evolves_def)
  show "order_checks x \<Longrightarrow> order_checks (cancelRow now x)"
    by (simp add: order_checks_def cancelRow_def OrderStatusCancelled_def)
  show "consistent_fill x \<Longrightarrow> consistent_fill (cancelRow now x)"
    using st by (auto simp: consistent_fill_def cancelRow_def OrderStatusCancelled_def)
qed

lemma cancels_keeps:
  assumes "orders_inv db" "cancels orderID u db o' db'"
  shows "orders_inv db'" "orders_evolve db db'"
proof -
  obtain now where "db' = db\<lparr>o_orders := map (\<lambda>x. if cancellable orderID u x then cancelRow now x else x) (o_orders db)\<rparr>"
    using assms(2) unfolding cancels_def by blast
  then have db': "o_orders db' = map (\<lambda>x. if cancellable orderID u x then cancelRow now x else x) (o_orders db)" by simp
  show "orders_inv db'"
    by (rule orders_inv_update [OF assms(1) db']) (use assms(1) in \<open>auto simp: orders_inv_def intro: cancelRow_ok\<close>)
  show "orders_evolve db db'"
    by (rule orders_evolve_update [OF _ db']) (rule cancelRow_ok)
qed

section \<open>What the fills of a trade do\<close>

text \<open>
  As a specification on the list of orders: every fill adds to what has been traded, up to the quantity, and the orders that are completed by it are
  those that were not filled before.
\<close>

definition filledTo :: "'d::linordered_idom StoredOrder \<Rightarrow> 'd \<Rightarrow> 'd" where
  "filledTo o' q = min (so_Quantity o') (so_FilledQuantity o' + q)"

definition fillRow :: "time \<Rightarrow> 'd::linordered_idom \<Rightarrow> 'd StoredOrder \<Rightarrow> 'd StoredOrder" where
  "fillRow now q o' = o'\<lparr>so_FilledQuantity := filledTo o' q,
     so_Status := (if filledTo o' q = so_Quantity o' then OrderStatusFilled else OrderStatusOpen), so_UpdatedAt := now\<rparr>"

definition fillOrders :: "time \<Rightarrow> 'd::linordered_idom StoredOrder list \<Rightarrow> 'd OrderFill \<Rightarrow> 'd StoredOrder list" where
  "fillOrders now orders fill = map (\<lambda>o'. if so_ID o' = fl_OrderID fill then fillRow now (fl_Quantity fill) o' else o') orders"

definition completes :: "'d::linordered_idom StoredOrder list \<Rightarrow> 'd OrderFill \<Rightarrow> uuid list" where
  "completes orders fill =
     map so_ID (filter (\<lambda>o'. so_ID o' = fl_OrderID fill \<and> filledTo o' (fl_Quantity fill) = so_Quantity o' \<and> so_Status o' \<noteq> OrderStatusFilled) orders)"

fun completedBy :: "time \<Rightarrow> 'd::linordered_idom StoredOrder list \<Rightarrow> 'd OrderFill list \<Rightarrow> uuid list" where
  "completedBy now orders [] = []"
| "completedBy now orders (f # fs) = completes orders f @ completedBy now (fillOrders now orders f) fs"

text \<open>A fill can be applied: its order exists and is not closed, and the checks hold for the new row.\<close>

definition applicable :: "time \<Rightarrow> 'd::linordered_idom StoredOrder list \<Rightarrow> 'd OrderFill \<Rightarrow> bool" where
  "applicable now orders fill \<longleftrightarrow>
     (\<exists>o' \<in> set orders. so_ID o' = fl_OrderID fill \<and> \<not> closed o' \<and> order_checks (fillRow now (fl_Quantity fill) o'))"

lemma filter_unique_key:
  "distinct (map k xs) \<Longrightarrow> x \<in> set xs \<Longrightarrow> filter (\<lambda>y. k y = k x \<and> P y) xs = (if P x then [x] else [])"
  by (induction xs) (auto simp: filter_empty_conv rev_image_eqI)

lemma completes_row:
  assumes "distinct (map so_ID orders)" "o' \<in> set orders" "so_ID o' = fl_OrderID fill"
  shows "completes orders fill = (if filledTo o' (fl_Quantity fill) = so_Quantity o' \<and> so_Status o' \<noteq> OrderStatusFilled then [so_ID o'] else [])"
  using filter_unique_key [OF assms(1,2), of "\<lambda>y. filledTo y (fl_Quantity fill) = so_Quantity y \<and> so_Status y \<noteq> OrderStatusFilled"] assms(3)
  by (simp add: completes_def)

lemma filledTo_code: "(if so_FilledQuantity o' + q > so_Quantity o' then so_Quantity o' else so_FilledQuantity o' + q) = filledTo o' q"
  by (simp add: filledTo_def min_def not_le)

lemma same_ID_update:
  assumes "distinct (map so_ID orders)" "o' \<in> set orders"
    and "\<And>x. f x = x\<lparr>so_FilledQuantity := so_FilledQuantity (f x), so_Status := so_Status (f x), so_UpdatedAt := so_UpdatedAt (f x)\<rparr>"
  shows "map (\<lambda>x. if so_ID x = so_ID o' then x\<lparr>so_FilledQuantity := so_FilledQuantity (f o'), so_Status := so_Status (f o'),
      so_UpdatedAt := so_UpdatedAt (f o')\<rparr> else x) orders = map (\<lambda>x. if so_ID x = so_ID o' then f x else x) orders"
proof (rule map_cong [OF refl])
  fix x assume x: "x \<in> set orders"
  have "so_ID x = so_ID o' \<Longrightarrow> x = o'" using assms(1,2) x by (auto simp: distinct_map dest: inj_onD)
  then show "(if so_ID x = so_ID o' then x\<lparr>so_FilledQuantity := so_FilledQuantity (f o'), so_Status := so_Status (f o'),
      so_UpdatedAt := so_UpdatedAt (f o')\<rparr> else x) = (if so_ID x = so_ID o' then f x else x)" using assms(3) [of o'] by metis
qed

lemma wp_getOrderForUpdate:
  assumes "printed_text (se_dec E)"
    and "\<And>o' t. ss_db t = ss_db s \<Longrightarrow> o' \<in> set (o_orders (ss_db s)) \<Longrightarrow> so_ID o' = orderID \<Longrightarrow> Q o' t"
  shows "wp (getOrderForUpdate E orderID) Q (\<lambda>_ _. True) s"
  unfolding getOrderForUpdate_def
  by (intro wp_orStoreNotFound wp_intro_structural wp_txStmt) (auto simp: assms(1) dest: sql_order_row intro!: assms(2))

lemma wp_applyFill:
  assumes "printed_text (se_dec E)" "distinct (map so_ID (o_orders (ss_db s)))"
    and "\<And>t. applicable now (o_orders (ss_db s)) fill \<Longrightarrow> ss_db t = (ss_db s)\<lparr>o_orders := fillOrders now (o_orders (ss_db s)) fill\<rparr>
      \<Longrightarrow> Q (acc @ completes (o_orders (ss_db s)) fill) t"
  shows "wp (applyFill E now acc fill) Q (\<lambda>_ _. True) s"
proof -
  let ?q = "fl_Quantity fill"
  have filled: "Q (acc @ completes (o_orders (ss_db s)) fill) t"
    if o': "o' \<in> set (o_orders (ss_db s))" "so_ID o' = fl_OrderID fill" "\<not> closed o'"
      and exec: "sql_exec_order (\<lambda>x. so_ID x = fl_OrderID fill) (\<lambda>x. x\<lparr>so_FilledQuantity := so_FilledQuantity (fillRow now ?q o'),
        so_Status := so_Status (fillRow now ?q o'), so_UpdatedAt := now\<rparr>) n (ss_db s) = Inr ((), ss_db t)" for o' n t
  proof (rule assms(3))
    let ?f = "fillRow now ?q"
    have f: "?f x = x\<lparr>so_FilledQuantity := so_FilledQuantity (?f x), so_Status := so_Status (?f x), so_UpdatedAt := so_UpdatedAt (?f x)\<rparr>" for x
      by (simp add: fillRow_def)
    have now: "so_UpdatedAt (?f o') = now" by (simp add: fillRow_def)
    from exec have t: "ss_db t = (ss_db s)\<lparr>o_orders := map (\<lambda>x. if so_ID x = fl_OrderID fill then x\<lparr>so_FilledQuantity := so_FilledQuantity (?f o'),
        so_Status := so_Status (?f o'), so_UpdatedAt := now\<rparr> else x) (o_orders (ss_db s))\<rparr>"
      and ok: "order_checks (o'\<lparr>so_FilledQuantity := so_FilledQuantity (?f o'), so_Status := so_Status (?f o'), so_UpdatedAt := now\<rparr>)"
      using o' by (auto simp: sql_exec_order_def list_all_iff split: if_splits)
    show "applicable now (o_orders (ss_db s)) fill"
      unfolding applicable_def using o' ok f [of o'] now by (intro bexI [of _ o']) simp_all
    show "ss_db t = (ss_db s)\<lparr>o_orders := fillOrders now (o_orders (ss_db s)) fill\<rparr>"
      unfolding t fillOrders_def by (simp only: same_ID_update [OF assms(2) o'(1) f, unfolded now o'(2)])
  qed
  show ?thesis
    unfolding applyFill_def Let_def
  proof (intro wp_getOrderForUpdate [OF assms(1)] wp_intro wp_txStmt TrueI, goal_cases)
    case (1 o' t n u db t')
    then have o': "o' \<in> set (o_orders (ss_db s))" "so_ID o' = fl_OrderID fill" "\<not> closed o'" by (simp_all add: closed_def)
    have "sql_exec_order (\<lambda>x. so_ID x = fl_OrderID fill) (\<lambda>x. x\<lparr>so_FilledQuantity := so_FilledQuantity (fillRow now ?q o'),
        so_Status := so_Status (fillRow now ?q o'), so_UpdatedAt := now\<rparr>) n (ss_db s) = Inr ((), ss_db t')"
      using 1 unfolding filledTo_code by (simp add: fillRow_def)
    from filled [OF o' this] show ?case
      unfolding filledTo_code using completes_row [OF assms(2) o'(1,2)] by (simp add: OrderStatusFilled_def OrderStatusOpen_def split: if_splits)
  qed
qed

text \<open>A fill keeps the invariant, and lets orders evolve when its quantity is not negative.\<close>

lemma fillRow_ok:
  assumes "consistent_fill x" "\<not> closed x" "0 \<le> q" "order_checks x"
  shows "order_evolves x (fillRow now q x)"
proof -
  have "so_FilledQuantity x \<le> filledTo x q" using assms(3,4) by (simp add: filledTo_def order_checks_def)
  moreover have "so_Status x = ''filled'' \<Longrightarrow> filledTo x q = so_Quantity x"
    using assms(1,3) by (simp add: consistent_fill_def filledTo_def)
  moreover have "so_Status x = ''pending'' \<or> so_Status x = ''open'' \<or> so_Status x = ''filled''"
    using assms(2,4) by (simp add: order_checks_def closed_def status_defs)
  ultimately show ?thesis
    using assms(2) by (auto simp: order_evolves_def fillRow_def same_terms_def status_rank_def OrderStatusFilled_def OrderStatusOpen_def)
qed

lemma fillRow_terms [simp]: "same_terms x (fillRow now q x)" "consistent_fill (fillRow now q x)" "so_ID (fillRow now q x) = so_ID x"
  by (simp_all add: fillRow_def same_terms_def consistent_fill_def OrderStatusFilled_def OrderStatusOpen_def)

lemma fillOrders_IDs [simp]: "map so_ID (fillOrders now orders fill) = map so_ID orders"
  by (simp add: fillOrders_def)

lemma fillOrders_keeps:
  assumes "orders_inv db" "applicable now (o_orders db) fill" "o_orders db' = fillOrders now (o_orders db) fill"
  shows "orders_inv db'" "0 \<le> fl_Quantity fill \<Longrightarrow> orders_evolve db db'"
proof -
  have unique: "\<And>x y. x \<in> set (o_orders db) \<Longrightarrow> y \<in> set (o_orders db) \<Longrightarrow> so_ID x = so_ID y \<Longrightarrow> x = y"
    using assms(1) by (auto simp: orders_inv_def distinct_map dest: inj_onD)
  have row: "\<not> closed x \<and> order_checks (fillRow now (fl_Quantity fill) x)" if "x \<in> set (o_orders db)" "so_ID x = fl_OrderID fill" for x
    using assms(2) unique that unfolding applicable_def by metis
  note upd = assms(3) [unfolded fillOrders_def]
  show "orders_inv db'" by (rule orders_inv_update [OF assms(1) upd]) (simp add: row)
  show "orders_evolve db db'" if "0 \<le> fl_Quantity fill"
    by (rule orders_evolve_update [OF _ upd]) (use assms(1) row that in \<open>auto simp: orders_inv_def intro!: fillRow_ok\<close>)
qed

text \<open>The loop over the fills computes the specification.\<close>

abbreviation applyFills :: "time \<Rightarrow> 'd::linordered_idom StoredOrder list \<Rightarrow> 'd OrderFill list \<Rightarrow> 'd StoredOrder list" where
  "applyFills now \<equiv> foldl (fillOrders now)"

lemma applyFills_IDs [simp]: "map so_ID (applyFills now orders fills) = map so_ID orders"
  by (induction fills arbitrary: orders) simp_all

fun applicableAll :: "time \<Rightarrow> 'd::linordered_idom StoredOrder list \<Rightarrow> 'd OrderFill list \<Rightarrow> bool" where
  "applicableAll now orders [] \<longleftrightarrow> True"
| "applicableAll now orders (f # fs) \<longleftrightarrow> applicable now orders f \<and> applicableAll now (fillOrders now orders f) fs"

lemma wp_fills:
  assumes "printed_text (se_dec E)" "distinct (map so_ID (o_orders (ss_db s)))"
    and "\<And>t. applicableAll now (o_orders (ss_db s)) fills \<Longrightarrow> ss_db t = (ss_db s)\<lparr>o_orders := applyFills now (o_orders (ss_db s)) fills\<rparr>
      \<Longrightarrow> Q (acc @ completedBy now (o_orders (ss_db s)) fills) t"
  shows "wp (foldM (applyFill E now) fills acc) Q (\<lambda>_ _. True) s"
  using assms(2,3)
proof (induction fills arbitrary: acc s)
  case Nil
  then show ?case by simp
next
  case (Cons f fs)
  have "wp (applyFill E now acc f) (\<lambda>a. wp (foldM (applyFill E now) fs a) Q (\<lambda>_ _. True)) (\<lambda>_ _. True) s"
  proof (rule wp_applyFill [OF assms(1) Cons.prems(1)])
    show "wp (foldM (applyFill E now) fs (acc @ completes (o_orders (ss_db s)) f)) Q (\<lambda>_ _. True) t"
      if "applicable now (o_orders (ss_db s)) f" "ss_db t = (ss_db s)\<lparr>o_orders := fillOrders now (o_orders (ss_db s)) f\<rparr>" for t
      using Cons.prems that by (intro Cons.IH) simp_all
  qed
  then show ?case by simp
qed

lemma applicableAll_keeps:
  assumes "orders_inv db" "applicableAll now (o_orders db) fills"
  shows "orders_inv (db\<lparr>o_orders := applyFills now (o_orders db) fills\<rparr>)
    \<and> (list_all (\<lambda>f. 0 \<le> fl_Quantity f) fills \<longrightarrow> orders_evolve db (db\<lparr>o_orders := applyFills now (o_orders db) fills\<rparr>))"
  using assms
proof (induction fills arbitrary: db)
  case (Cons f fs)
  let ?db = "db\<lparr>o_orders := fillOrders now (o_orders db) f\<rparr>"
  have f: "orders_inv ?db" "0 \<le> fl_Quantity f \<Longrightarrow> orders_evolve db ?db"
    using fillOrders_keeps [OF Cons.prems(1), of now f ?db] Cons.prems(2) by auto
  from Cons.IH [OF f(1)] Cons.prems(2) show ?case by (auto intro: orders_evolve_trans [OF f(2)])
qed simp

text \<open>What \<open>ApplyTradeExecution\<close> leaves behind.\<close>

definition fills_post :: "string \<Rightarrow> 'd::linordered_idom OrderFill list \<Rightarrow> 'd order_db \<Rightarrow> ApplyTradeResult \<Rightarrow> 'd order_db \<Rightarrow> bool" where
  "fills_post eventID fills db r db' \<longleftrightarrow>
     (let key = orderIngestEventKey eventID in
      if at_AlreadyProcessed r then key \<in> set (o_processed db) \<and> db' = db \<and> at_FilledOrderIDs r = []
      else (key \<noteq> [] \<longrightarrow> key \<notin> set (o_processed db))
        \<and> (\<exists>now. applicableAll now (o_orders db) fills
             \<and> db' = db\<lparr>o_orders := applyFills now (o_orders db) fills, o_processed := o_processed db @ (if key = [] then [] else [key])\<rparr>
             \<and> at_FilledOrderIDs r = completedBy now (o_orders db) fills))"

lemma orderIngestEventKey_Nil [simp]: "orderIngestEventKey eventID = [] \<longleftrightarrow> TrimSpace eventID = []"
  by (simp add: orderIngestEventKey_def orderIngestEventPrefix_def Let_def)

lemma wp_ApplyTradeExecution:
  assumes "printed_text (se_dec E)" "distinct (map so_ID (o_orders (ss_db s)))"
  shows "wp (ApplyTradeExecution E eventID fills) (\<lambda>r t. fills_post eventID fills (ss_db s) r (ss_db t)) (\<lambda>_ t. ss_db t = ss_db s) s"
  unfolding ApplyTradeExecution_def orderEventProcessed_def Let_def
  apply (intro wp_intro wp_txStmt wp_fills [OF assms(1)] TrueI)
  apply (simp_all add: sql_order_event_exists_def sql_insert_order_event_def fills_post_def Let_def assms(2) split: if_splits)
  by blast+

section \<open>Reachable tables\<close>

text \<open>
  The steps that write orders: the service creates an order, an account cancels one, a trade fills two. Every run of an operation is a step, whether it succeeds
  or fails at any point; fills are not negative, as trades are not.
\<close>

inductive order_step :: "'d::linordered_idom order_db \<Rightarrow> 'd order_db \<Rightarrow> bool" where
  create: "printed_text (se_dec E) \<Longrightarrow> consistent_fill order \<Longrightarrow> CreateOrder (E :: 'd sql_env) order s = (r, t) \<Longrightarrow> ss_db (s :: 'd order_db sql_state) = db
    \<Longrightarrow> order_step db (ss_db t)"
| cancel: "printed_text (se_dec E) \<Longrightarrow> OrderStore_CancelOrder (E :: 'd sql_env) orderID accountID s = (r', t) \<Longrightarrow> ss_db (s :: 'd order_db sql_state) = db
    \<Longrightarrow> order_step db (ss_db t)"
| fill: "printed_text (se_dec E) \<Longrightarrow> list_all (\<lambda>f. 0 \<le> fl_Quantity f) fills \<Longrightarrow> ApplyTradeExecution (E :: 'd sql_env) eventID fills s = (r'', t)
    \<Longrightarrow> ss_db (s :: 'd order_db sql_state) = db \<Longrightarrow> order_step db (ss_db t)"

lemma orders_inv_IDs: "orders_inv db \<Longrightarrow> distinct (map so_ID (o_orders db))"
  by (simp add: orders_inv_def)

lemma fills_post_keeps:
  assumes "orders_inv db" "fills_post eventID fills db r db'"
  shows "orders_inv db' \<and> (list_all (\<lambda>f. 0 \<le> fl_Quantity f) fills \<longrightarrow> orders_evolve db db')"
proof (cases "at_AlreadyProcessed r")
  case True
  then show ?thesis using assms by (simp add: fills_post_def Let_def)
next
  case False
  then obtain now ps where now: "applicableAll now (o_orders db) fills"
      and db': "db' = db\<lparr>o_orders := applyFills now (o_orders db) fills, o_processed := ps\<rparr>"
    using assms(2) unfolding fills_post_def Let_def by (simp only: if_False) blast
  show ?thesis unfolding db' using applicableAll_keeps [OF assms(1) now] by (simp add: orders_inv_def orders_evolve_def)
qed

lemma order_step_keeps:
  assumes "order_step db db'" "orders_inv db"
  shows "orders_inv db' \<and> orders_evolve db db'"
  using assms(1)
proof cases
  case (create E order s r t)
  have "wp (CreateOrder E order) (\<lambda>_ t. orders_inv (ss_db t) \<and> orders_evolve db (ss_db t)) (\<lambda>_ t. orders_inv (ss_db t) \<and> orders_evolve db (ss_db t)) s"
    using create assms(2) by (intro wp_CreateOrder) (auto intro: inserts_keeps)
  then show ?thesis using create by (cases r) (auto simp: wp_def)
next
  case (cancel E orderID accountID s r t)
  have "wp (OrderStore_CancelOrder E orderID accountID) (\<lambda>_ t. orders_inv (ss_db t) \<and> orders_evolve db (ss_db t))
      (\<lambda>_ t. orders_inv (ss_db t) \<and> orders_evolve db (ss_db t)) s"
    using cancel assms(2) by (intro wp_OrderStore_CancelOrder) (auto intro: cancels_keeps)
  then show ?thesis using cancel by (cases r) (auto simp: wp_def)
next
  case (fill E fills eventID s r t)
  then have "wp (ApplyTradeExecution E eventID fills) (\<lambda>r t. fills_post eventID fills db r (ss_db t)) (\<lambda>_ t. ss_db t = db) s"
    using wp_ApplyTradeExecution [of E s eventID fills] orders_inv_IDs [OF assms(2)] by simp
  then show ?thesis using fill fills_post_keeps [OF assms(2)] assms(2) by (cases r) (auto simp: wp_def)
qed


text \<open>
  C37: Every trade is counted once. When the fills of an event have been applied, the tables are those of the specification: each fill was added to its order
  up to the quantity, the orders reported are those it completed, and the event is marked. From then on a second delivery of the event, with any fills, any
  failures and whatever has happened in between, changes nothing and reports no order.
\<close>

theorem fills_exactly_once:
  assumes "printed_text (se_dec E)" "printed_text (se_dec E')" "orders_inv (ss_db s)" "orders_inv (ss_db s')" "TrimSpace eventID \<noteq> []"
    and "ApplyTradeExecution E eventID fills s = (Inr r, t)"
    and "set (o_processed (ss_db t)) \<subseteq> set (o_processed (ss_db s'))" "ApplyTradeExecution E' eventID fills' s' = (r', t')"
  shows "fills_post eventID fills (ss_db s) r (ss_db t) \<and> orderIngestEventKey eventID \<in> set (o_processed (ss_db t))
    \<and> ss_db t' = ss_db s' \<and> (case r' of Inr res \<Rightarrow> at_AlreadyProcessed res \<and> at_FilledOrderIDs res = [] | Inl _ \<Rightarrow> True)"
proof -
  have first: "fills_post eventID fills (ss_db s) r (ss_db t)"
    using wp_Inr [OF wp_ApplyTradeExecution [OF assms(1) orders_inv_IDs [OF assms(3)]] assms(6)] .
  then have key: "orderIngestEventKey eventID \<in> set (o_processed (ss_db t))"
    using assms(5) by (auto simp: fills_post_def Let_def split: if_splits)
  have again: "wp (ApplyTradeExecution E' eventID fills') (\<lambda>res t. fills_post eventID fills' (ss_db s') res (ss_db t)) (\<lambda>_ t. ss_db t = ss_db s') s'"
    by (rule wp_ApplyTradeExecution [OF assms(2) orders_inv_IDs [OF assms(4)]])
  show ?thesis
  proof (cases r')
    case (Inl e)
    then show ?thesis using first key wp_Inl [OF again] assms(8) by simp
  next
    case (Inr res)
    then have "fills_post eventID fills' (ss_db s') res (ss_db t')" using wp_Inr [OF again] assms(8) by simp
    then show ?thesis using first key Inr assms(5,7) by (auto simp: fills_post_def Let_def split: if_splits)
  qed
qed

section \<open>Cursors and pages\<close>

lemma pad_nat_no_bar: "CHR ''|'' \<notin> set (pad_nat w i)"
  using pad_nat_digits [of "CHR ''|''" w i] by (auto simp: isDigit_def digit_val_def)

lemma formatFraction_no_bar: "CHR ''|'' \<notin> set (formatFraction n)"
proof
  assume "CHR ''|'' \<in> set (formatFraction n)"
  then have "CHR ''|'' \<in> set (pad_nat 9 n)" by (auto simp: formatFraction_def dest: set_dropWhileD split: if_splits)
  then show False using pad_nat_no_bar by blast
qed

lemma FormatRFC3339Nano_no_bar: "CHR ''|'' \<notin> set (FormatRFC3339Nano t)"
  by (auto simp: FormatRFC3339Nano_def Let_def pad_nat_no_bar formatFraction_no_bar split: prod.splits)

text \<open>
  C38: A cursor can be decoded: from the text made of a time of the years 1 to 9999, to the nanosecond, and a UUID that \<open>uuid.Parse\<close>
  reads back, \<open>decodeCursor\<close> gets exactly that time and that UUID.
\<close>

theorem cursor_round_trip:
  assumes "0 \<le> ts" "ts < maxTime" "ae_parseUUID E (se_uuidString E i) = Some i"
  shows "decodeCursor E (encodeCursor E ts i) = Inr (ts, i)"
  using assms by (simp add: decodeCursor_def encodeCursor_def SplitN2_append FormatRFC3339Nano_no_bar ParseRFC3339_Format)

text \<open>All rows of a listing, in its order.\<close>

definition listing :: "uuid \<Rightarrow> OrderFilter \<Rightarrow> 'd order_db \<Rightarrow> 'd StoredOrder list" where
  "listing accountID f db = sort_key order_key (filter (matchesFilter accountID f) (o_orders db))"

lemma filter_sort_key: "filter P (sort_key k xs) = sort_key k (filter P xs)"
  by (rule filter_sort)

lemma sorted_after:
  assumes "sorted (map k xs)" "distinct (map k xs)" "n < length xs"
  shows "filter (\<lambda>x. k (xs ! n) < k x) xs = drop (Suc n) xs"
proof -
  have before: "\<not> k (xs ! n) < k x" if x: "x \<in> set (take (Suc n) xs)" for x
  proof -
    obtain i where "i \<le> n" "x = xs ! i" using x assms(3) by (auto simp: in_set_conv_nth less_Suc_eq_le)
    then show ?thesis using sorted_nth_mono [OF assms(1), of i n] assms(3) by (simp add: not_less)
  qed
  have after: "k (xs ! n) < k x" if x: "x \<in> set (drop (Suc n) xs)" for x
  proof -
    obtain i where i: "n < i" "i < length xs" "x = xs ! i" using x by (auto simp: in_set_conv_nth) (metis add_Suc less_add_Suc1 less_diff_conv add.commute)
    then have "k (xs ! n) \<le> k (xs ! i)" "k (xs ! n) \<noteq> k (xs ! i)"
      using sorted_nth_mono [OF assms(1), of n i] nth_eq_iff_index_eq [OF assms(2), of n i] assms(3) by auto
    then show ?thesis using i(3) by simp
  qed
  have "filter (\<lambda>x. k (xs ! n) < k x) (take (Suc n) xs @ drop (Suc n) xs) = drop (Suc n) xs"
    unfolding filter_append using before after by (simp add: filter_empty_conv filter_id_conv)
  then show ?thesis by simp
qed

lemma scan_all: "printed_text (se_dec E) \<Longrightarrow>
  wp (foldM (\<lambda>acc row. bindM (scanOrderRow E row) (\<lambda>order. ret (acc @ [order]))) rows acc) Q X s = Q (acc @ rows) s"
  by (induction rows arbitrary: acc) simp_all

lemma clampLimit_pos: "0 < clampLimit l"
  by (simp add: clampLimit_def)

text \<open>The page after a key: the first rows beyond it, and the key of the next row when there is one.\<close>

definition pageFrom :: "('d, 'e) sql_env_scheme \<Rightarrow> int \<Rightarrow> 'd StoredOrder list \<Rightarrow> 'd StoredOrder list \<times> string" where
  "pageFrom E limit rows =
     (take (nat limit) rows,
      if int (length rows) > limit then encodeCursor E (so_CreatedAt (rows ! nat limit)) (so_ID (rows ! nat limit)) else [])"

lemma wp_page:
  assumes "printed_text (se_dec E)" "0 < limit"
    and "\<And>t. ss_db t = ss_db s \<Longrightarrow> Q (pageFrom E limit (filter (\<lambda>o'. case cursor of None \<Rightarrow> True | Some k \<Rightarrow> k < order_key o') (listing u f (ss_db s)))) t"
    and "\<And>e t. ss_db t = ss_db s \<Longrightarrow> X e t"
  shows "wp (bindM (poolQuery E (sql_list_orders u f cursor (limit + 1))) (\<lambda>rows.
      bindM (foldM (\<lambda>acc row. bindM (scanOrderRow E row) (\<lambda>order. ret (acc @ [order]))) rows []) (\<lambda>orders.
      if int (length orders) > limit
      then (let last = orders ! nat limit in ret (take (nat limit) orders, encodeCursor E (so_CreatedAt last) (so_ID last)))
      else ret (orders, [])))) Q X s"
proof -
  let ?rows = "filter (\<lambda>o'. case cursor of None \<Rightarrow> True | Some k \<Rightarrow> k < order_key o') (listing u f (ss_db s))"
  have rows: "sql_list_orders u f cursor (limit + 1) n (ss_db s) = Inr (take (nat (limit + 1)) ?rows, ss_db s)" for n
    by (simp add: sql_list_orders_def listing_def filter_sort_key conj_commute)
  have n: "nat (limit + 1) = Suc (nat limit)" using assms(2) by simp
  have page: "wp (if int (length (take (nat (limit + 1)) ?rows)) > limit
      then (let last = take (nat (limit + 1)) ?rows ! nat limit in
        ret (take (nat limit) (take (nat (limit + 1)) ?rows), encodeCursor E (so_CreatedAt last) (so_ID last)))
      else ret (take (nat (limit + 1)) ?rows, [])) Q X t" if "ss_db t = ss_db s" for t
    using assms(3) [OF that] assms(2) unfolding n pageFrom_def by (auto simp: Let_def min_def split: if_splits)
  show ?thesis
  proof (intro wp_intro_structural wp_poolRead, goal_cases)
    case (2 a)
    then have "a = take (nat (limit + 1)) ?rows" using rows by simp
    then show ?case using page [of "s\<lparr>ss_step := Suc (ss_step s)\<rparr>"] by (simp only: scan_all [OF assms(1)] append_Nil) simp
  qed (auto simp: rows intro: assms(4))
qed

lemma wp_ListOrders:
  assumes "printed_text (se_dec E)" and "of_Cursor f = [] \<and> cursor = None \<or> decodeCursor E (of_Cursor f) = Inr (the cursor) \<and> of_Cursor f \<noteq> [] \<and> cursor \<noteq> None"
    and "\<And>t. ss_db t = ss_db s \<Longrightarrow> Q (pageFrom E (clampLimit (of_Limit f))
      (filter (\<lambda>o'. case cursor of None \<Rightarrow> True | Some k \<Rightarrow> k < order_key o') (listing u f (ss_db s)))) t"
    and "\<And>e t. ss_db t = ss_db s \<Longrightarrow> X e t"
  shows "wp (ListOrders E u f) Q X s"
proof -
  note page = wp_page [OF assms(1) clampLimit_pos [of "of_Limit f"], of s Q cursor u f X, unfolded Let_def]
  from assms(2) show ?thesis
  proof
    assume "of_Cursor f = [] \<and> cursor = None"
    then show ?thesis unfolding ListOrders_def Let_def using page [OF assms(3,4)] by (simp del: wp_bindM)
  next
    assume "decodeCursor E (of_Cursor f) = Inr (the cursor) \<and> of_Cursor f \<noteq> [] \<and> cursor \<noteq> None"
    then obtain k where "cursor = Some k" "decodeCursor E (of_Cursor f) = Inr k" "of_Cursor f \<noteq> []" by auto
    then show ?thesis unfolding ListOrders_def Let_def using page [OF assms(3,4)] by (simp del: wp_bindM)
  qed
qed

lemma listing_sorted: "sorted (map order_key (listing u f db))"
  by (simp add: listing_def)

lemma listing_distinct: "orders_inv db \<Longrightarrow> distinct (map order_key (listing u f db))"
proof -
  assume "orders_inv db"
  then have "distinct (map so_ID (filter (matchesFilter u f) (o_orders db)))" by (simp add: orders_inv_def distinct_map_filter)
  then have "distinct (map (\<lambda>o'. snd (order_key o')) (listing u f db))"
    by (simp add: listing_def order_key_def) (metis distinct_map distinct_sort set_sort)
  then show ?thesis by (metis (no_types, lifting) distinct_map map_map o_def map_eq_conv inj_on_def)
qed

text \<open>
  C39: What following the cursors of a listing returns. The first page holds the first orders of the listing, up to the limit. When there are more, the
  page that follows its cursor starts two places further: the order in between, the first one beyond the limit, is on neither page.
\<close>

theorem ListOrders_pages:
  assumes "printed_text (se_dec E)" "orders_inv (ss_db s)" "ss_db s' = ss_db s"
    and "\<forall>o' \<in> set (o_orders (ss_db s)). 0 \<le> so_CreatedAt o' \<and> so_CreatedAt o' < maxTime \<and> ae_parseUUID E (se_uuidString E (so_ID o')) = Some (so_ID o')"
    and "of_Cursor f = []" "ListOrders E accountID f s = (Inr (page, cursor), t)" "cursor \<noteq> []"
    and "ListOrders E accountID (f\<lparr>of_Cursor := cursor\<rparr>) s' = (Inr (page', cursor'), t')"
  shows "page = take (nat (clampLimit (of_Limit f))) (listing accountID f (ss_db s))
    \<and> page' = take (nat (clampLimit (of_Limit f))) (drop (Suc (nat (clampLimit (of_Limit f)))) (listing accountID f (ss_db s)))
    \<and> listing accountID f (ss_db s) ! nat (clampLimit (of_Limit f)) \<notin> set page \<union> set page'"
proof -
  let ?n = "nat (clampLimit (of_Limit f))" and ?rows = "listing accountID f (ss_db s)"
  let ?o = "?rows ! ?n"
  have "wp (ListOrders E accountID f) (\<lambda>r t. r = pageFrom E (clampLimit (of_Limit f)) ?rows) (\<lambda>_ _. True) s"
    by (rule wp_ListOrders [OF assms(1), where cursor = None]) (simp_all add: assms(5))
  from wp_Inr [OF this assms(6)] have first: "page = take ?n ?rows" "int (length ?rows) > clampLimit (of_Limit f)"
    "cursor = encodeCursor E (so_CreatedAt ?o) (so_ID ?o)" using assms(7) by (simp_all add: pageFrom_def split: if_splits)
  then have n: "?n < length ?rows" using clampLimit_pos [of "of_Limit f"] by linarith
  then have "?o \<in> set (o_orders (ss_db s))" by (metis (no_types, lifting) filter_is_subset listing_def nth_mem set_sort subsetD)
  then have key: "decodeCursor E cursor = Inr (order_key ?o)"
    using assms(4) by (simp add: first(3) order_key_def cursor_round_trip)
  have same: "listing accountID (f\<lparr>of_Cursor := cursor\<rparr>) (ss_db s') = ?rows"
    by (simp add: listing_def matchesFilter_def [abs_def] assms(3))
  have dist: "distinct (map order_key ?rows)" by (rule listing_distinct [OF assms(2)])
  have beyond: "filter (\<lambda>x. order_key ?o < order_key x) ?rows = drop (Suc ?n) ?rows"
    by (rule sorted_after [OF listing_sorted dist n])
  have "wp (ListOrders E accountID (f\<lparr>of_Cursor := cursor\<rparr>)) (\<lambda>r t. r = pageFrom E (clampLimit (of_Limit f)) (drop (Suc ?n) ?rows)) (\<lambda>_ _. True) s'"
    by (rule wp_ListOrders [OF assms(1), where cursor = "Some (order_key ?o)"]) (simp_all add: key assms(7) same beyond)
  from wp_Inr [OF this assms(8)] have second: "page' = take ?n (drop (Suc ?n) ?rows)" by (simp add: pageFrom_def)
  have "distinct ?rows" using dist by (simp add: distinct_map)
  then have "?o \<notin> set (take ?n ?rows)" "?o \<notin> set (drop (Suc ?n) ?rows)"
    using id_take_nth_drop [OF n] by (metis distinct_append distinct.simps(2) disjoint_insert(1) list.simps(15), metis distinct_append distinct.simps(2))
  then show ?thesis using first(1) second by (auto dest: in_set_takeD)
qed

section \<open>Examples\<close>

definition sample_order_env :: "int api_env" where
  "sample_order_env = \<lparr>se_fault = (\<lambda>_. False), se_clock = (\<lambda>n. 1000 + int n), se_uuid = (\<lambda>n. 100 + of_nat n), se_uniqueErr = UniqueViolation,
     se_uuidString = (\<lambda>u. nat_string (unat u)), se_dec = int_decimal, ae_parseUUID = (\<lambda>s. map_option of_int (parse_int s))\<rparr>"

definition sample_stored_order :: "uuid \<Rightarrow> string \<Rightarrow> string \<Rightarrow> int \<Rightarrow> time \<Rightarrow> int StoredOrder" where
  "sample_stored_order i cid side qty created =
     \<lparr>so_ID = i, so_ClientOrderID = cid, so_AccountID = 10, so_Symbol = ''BTC-USD'', so_Side = side, so_Type = ''limit'', so_Price = Some 7,
      so_Quantity = qty, so_FilledQuantity = 0, so_Status = ''pending'', so_TimeInForce = ''GTC'', so_CreatedAt = created, so_UpdatedAt = created\<rparr>"

definition sample_order_db :: "int order_db" where
  "sample_order_db = \<lparr>o_accounts = [(10, 20, ''active'', 5)],
     o_orders = [sample_stored_order 30 ''a'' ''sell'' 5 100, sample_stored_order 31 ''b'' ''buy'' 3 200, sample_stored_order 32 ''c'' ''buy'' 4 300],
     o_trades = [], o_processed = [], o_audit = []\<rparr>"

definition sample_order_state :: "int order_db sql_state" where
  "sample_order_state = \<lparr>ss_db = sample_order_db, ss_aborted = False, ss_step = 0\<rparr>"

definition sample_fills :: "int OrderFill list" where
  "sample_fills = [\<lparr>fl_OrderID = 30, fl_Quantity = 3\<rparr>, \<lparr>fl_OrderID = 31, fl_Quantity = 3\<rparr>]"

definition sample_filled :: "int order_db sql_state" where
  "sample_filled = snd (ApplyTradeExecution sample_order_env ''t1'' sample_fills sample_order_state)"

lemma sample_order_env_text [simp]: "printed_text (se_dec sample_order_env)"
  by (simp add: sample_order_env_def)

lemma sample_order_inv [simp]: "orders_inv (ss_db sample_order_state)"
  by code_simp

text \<open>A trade of 3 units leaves one order open and the other filled; then the open one is cancelled, and a late fill of it is refused.\<close>

definition sample_env0 :: "int sql_env" where
  "sample_env0 = sql_env.truncate sample_order_env"


theorem fills_exactly_once_witness:
  "ss_db (snd (ApplyTradeExecution sample_order_env ''t1'' sample_fills sample_filled)) = ss_db sample_filled
   \<and> fst (ApplyTradeExecution sample_order_env ''t1'' sample_fills sample_order_state) = Inr \<lparr>at_AlreadyProcessed = False, at_FilledOrderIDs = [31]\<rparr>"
proof -
  let ?r = "\<lparr>at_AlreadyProcessed = False, at_FilledOrderIDs = [31]\<rparr>"
  have run: "fst (ApplyTradeExecution sample_order_env ''t1'' sample_fills sample_order_state) = Inr ?r" by code_simp
  then have first: "ApplyTradeExecution sample_order_env ''t1'' sample_fills sample_order_state = (Inr ?r, sample_filled)"
    unfolding sample_filled_def by (metis prod.collapse)
  have inv: "orders_inv (ss_db sample_filled)" and ev: "TrimSpace ''t1'' \<noteq> []" by code_simp+
  from fills_exactly_once [OF sample_order_env_text sample_order_env_text sample_order_inv inv ev first order_refl prod.collapse [symmetric]] run
  show ?thesis by blast
qed

theorem cursor_round_trip_witness:
  "decodeCursor sample_order_env (encodeCursor sample_order_env 63844806896012300000 7) = Inr (63844806896012300000, 7)"
  by (rule cursor_round_trip) (code_simp+)

definition sample_filter :: OrderFilter where
  "sample_filter = \<lparr>of_Symbol = [], of_Status = [], of_From = None, of_To = None, of_Cursor = [], of_Limit = 1\<rparr>"

text \<open>Three orders, one per page: the second one is never listed.\<close>

theorem ListOrders_pages_witness:
  "case fst (ListOrders sample_order_env 10 sample_filter sample_order_state) of Inl _ \<Rightarrow> False
   | Inr (page, cursor) \<Rightarrow> map so_ID page = [30] \<and>
       (case fst (ListOrders sample_order_env 10 (sample_filter\<lparr>of_Cursor := cursor\<rparr>) sample_order_state) of Inl _ \<Rightarrow> False
        | Inr (page', cursor') \<Rightarrow> map so_ID page' = [32] \<and> listing 10 sample_filter (ss_db sample_order_state) ! 1 \<notin> set page \<union> set page')"
proof -
  let ?first = "ListOrders sample_order_env 10 sample_filter sample_order_state"
  let ?c = "encodeCursor sample_order_env 200 31"
  let ?second = "ListOrders sample_order_env 10 (sample_filter\<lparr>of_Cursor := ?c\<rparr>) sample_order_state"
  have one: "fst ?first = Inr ([sample_stored_order 30 ''a'' ''sell'' 5 100], ?c)" by code_simp
  have two: "fst ?second = Inr ([sample_stored_order 32 ''c'' ''buy'' 4 300], [])" by code_simp
  have first: "?first = (Inr ([sample_stored_order 30 ''a'' ''sell'' 5 100], ?c), snd ?first)" using one by (metis prod.collapse)
  have second: "?second = (Inr ([sample_stored_order 32 ''c'' ''buy'' 4 300], []), snd ?second)" using two by (metis prod.collapse)
  have texts: "\<forall>o' \<in> set (o_orders (ss_db sample_order_state)). 0 \<le> so_CreatedAt o' \<and> so_CreatedAt o' < maxTime
      \<and> ae_parseUUID sample_order_env (se_uuidString sample_order_env (so_ID o')) = Some (so_ID o')"
    and cursor: "of_Cursor sample_filter = []" "?c \<noteq> []" by code_simp+
  from ListOrders_pages [OF sample_order_env_text sample_order_inv refl texts cursor(1) first cursor(2) second]
  have "listing 10 sample_filter (ss_db sample_order_state) ! nat (clampLimit (of_Limit sample_filter))
      \<notin> set [sample_stored_order 30 ''a'' ''sell'' 5 100] \<union> set [sample_stored_order 32 ''c'' ''buy'' 4 300]" by blast
  then show ?thesis using one two by (simp add: clampLimit_def sample_filter_def sample_stored_order_def)
qed

end
