(* ===== verification/Risk_Service.thy ===== *)
theory Risk_Service
  imports Fee_Cache Ledger_Service
begin

text \<open>
  The risk service, \<^verbatim>\<open>services/risk/internal\<close>: pre-trade checks of account, market and balance, with a cache of active markets and a circuit
  breaker in front of the ledger. The lemmas show when an order is allowed, what the breaker lets through, and that a check never
  changes anything but the breaker.
\<close>

section \<open>Data\<close>

record AccountInfo =
  ai_ID :: uuid
  ai_UserID :: uuid
  ai_Status :: string
  ai_KYCLevel :: string

record Market =
  mk_ID :: uuid
  mk_Symbol :: string
  mk_BaseAsset :: string
  mk_QuoteAsset :: string
  mk_Status :: string

record 'd BalanceCheck =
  bc_Asset :: string
  bc_Available :: 'd
  bc_Required :: 'd
  bc_Sufficient :: bool

record 'd risk_db =
  k_accounts :: "(uuid \<times> uuid \<times> string) list"
  k_users :: "(uuid \<times> string) list"
  k_markets :: "Market list"
  k_trades :: "'d trade_row list"

definition ErrNotFound :: go_error where
  "ErrNotFound = Sentinel ''not found''"

section \<open>Circuit breaker\<close>

record circuitBreaker =
  cb_failures :: int
  cb_threshold :: int
  cb_openedUntil :: time
  cb_cooldown :: duration

definition thirty_seconds :: duration where
  "thirty_seconds = 30 * nanos_per_second"

definition newCircuitBreaker :: "int \<Rightarrow> duration \<Rightarrow> circuitBreaker" where
  "newCircuitBreaker threshold cooldown =
     \<lparr>cb_failures = 0, cb_threshold = (if threshold \<le> 0 then 3 else threshold), cb_openedUntil = 0,
      cb_cooldown = (if cooldown \<le> 0 then thirty_seconds else cooldown)\<rparr>"

definition Allow :: "time \<Rightarrow> circuitBreaker \<Rightarrow> bool \<times> circuitBreaker" where
  "Allow now b =
     (if IsZeroTime (cb_openedUntil b) then (True, b)
      else if now > cb_openedUntil b then (True, b\<lparr>cb_openedUntil := 0, cb_failures := 0\<rparr>)
      else (False, b))"

definition RecordSuccess :: "circuitBreaker \<Rightarrow> circuitBreaker" where
  "RecordSuccess b = b\<lparr>cb_failures := 0, cb_openedUntil := 0\<rparr>"

definition RecordFailure :: "time \<Rightarrow> circuitBreaker \<Rightarrow> circuitBreaker" where
  "RecordFailure now b =
     (let b1 = b\<lparr>cb_failures := cb_failures b + 1\<rparr> in
      if cb_failures b1 \<ge> cb_threshold b1 then b1\<lparr>cb_openedUntil := now + cb_cooldown b1\<rparr> else b1)"

section \<open>State and store\<close>

text \<open>
  The ledger client gives the outcome of each call: an error, or a response that may be nil; \<open>None\<close> is a nil client. The calls made are recorded.
\<close>

record 'd risk_env = "'d api_env" +
  re_ledger :: "(nat \<Rightarrow> string \<Rightarrow> string \<Rightarrow> go_error + GetBalanceResponse option) option"

record 'd risk_state = "'d risk_db sql_state" +
  rs_markets :: "(string \<times> Market) list"
  rs_lastRefresh :: time
  rs_breaker :: circuitBreaker
  rs_ledgerCalls :: "(string \<times> string) list"

type_synonym ('d, 'a) risk_prog = "('d risk_state, 'a) prog"

definition sql_account_info :: "uuid \<Rightarrow> ('d risk_db, AccountInfo) stmt" where
  "sql_account_info accountID n db =
     (case concat (map (\<lambda>(i, u, st). map (\<lambda>(_, kyc). \<lparr>ai_ID = i, ai_UserID = u, ai_Status = st, ai_KYCLevel = kyc\<rparr>)
                          (filter (\<lambda>(uid, _). uid = u) (k_users db)))
                   (filter (\<lambda>(i, _). i = accountID) (k_accounts db))) of
        [] \<Rightarrow> Inl NoRows | info # _ \<Rightarrow> Inr (info, db))"

definition sql_market :: "string \<Rightarrow> ('d risk_db, Market) stmt" where
  "sql_market symbol n db =
     (case filter (\<lambda>m. mk_Symbol m = symbol) (k_markets db) of [] \<Rightarrow> Inl NoRows | m # _ \<Rightarrow> Inr (m, db))"

definition sql_active_markets :: "('d risk_db, Market list) stmt" where
  "sql_active_markets n db = Inr (filter (\<lambda>m. mk_Status m = ''active'') (k_markets db), db)"

text \<open>\<open>ORDER BY executed_at DESC LIMIT 1\<close>.\<close>

definition sql_last_price :: "'d decimal_ops \<Rightarrow> string \<Rightarrow> ('d risk_db, string) stmt" where
  "sql_last_price D symbol n db =
     (case sort_key (\<lambda>t. - tr_executed_at t) (filter (\<lambda>t. tr_symbol t = symbol) (k_trades db)) of
        [] \<Rightarrow> Inl NoRows | t # _ \<Rightarrow> Inr (DecString D (tr_price t), db))"

definition orNotFound :: "('s, 'a) prog \<Rightarrow> ('s, 'a) prog" where
  "orNotFound m = attempt m (\<lambda>err. if errors_Is err NoRows then fail ErrNotFound else fail err) ret"

definition GetAccountInfo :: "('d, 'e) risk_env_scheme \<Rightarrow> uuid \<Rightarrow> ('d, AccountInfo) risk_prog" where
  "GetAccountInfo E accountID = orNotFound (poolQuery E (sql_account_info accountID))"

definition GetMarketBySymbol :: "('d, 'e) risk_env_scheme \<Rightarrow> string \<Rightarrow> ('d, Market) risk_prog" where
  "GetMarketBySymbol E symbol = orNotFound (poolQuery E (sql_market (ToUpper (TrimSpace symbol))))"

definition ListActiveMarkets :: "('d, 'e) risk_env_scheme \<Rightarrow> ('d, Market list) risk_prog" where
  "ListActiveMarkets E = poolQuery E sql_active_markets"

definition callLedger ::
  "(nat \<Rightarrow> string \<Rightarrow> string \<Rightarrow> go_error + GetBalanceResponse option) \<Rightarrow> string \<Rightarrow> string \<Rightarrow> ('d, GetBalanceResponse option) risk_prog" where
  "callLedger client account asset s =
     (client (ss_step s) account asset, s\<lparr>ss_step := Suc (ss_step s), rs_ledgerCalls := rs_ledgerCalls s @ [(account, asset)]\<rparr>)"

definition CheckBalance :: "('d::linordered_idom, 'e) risk_env_scheme \<Rightarrow> uuid \<Rightarrow> string \<Rightarrow> 'd \<Rightarrow> ('d, 'd BalanceCheck) risk_prog" where
  "CheckBalance E accountID asset required =
     (case re_ledger E of
        None \<Rightarrow> fail (Errorf ''ledger client not configured'' [])
      | Some client \<Rightarrow>
          bindM (callLedger client (se_uuidString E accountID) asset) (\<lambda>resp.
          case resp of
            None \<Rightarrow> fail (Errorf ''ledger response missing'' [])
          | Some r \<Rightarrow>
              (let availableStr = TrimSpace (gb_Available r) in
               if availableStr = [] then fail (Errorf ''ledger available balance missing'' [])
               else case NewFromString (se_dec E) availableStr of
                   None \<Rightarrow> fail (Wrapf ''parse available balance: %w'' decimal_error)
                 | Some available \<Rightarrow>
                     ret \<lparr>bc_Asset = asset, bc_Available = available, bc_Required = required, bc_Sufficient = (available \<ge> required)\<rparr>)))"

definition GetLastTradePrice :: "('d::linordered_idom, 'e) risk_env_scheme \<Rightarrow> string \<Rightarrow> ('d, 'd) risk_prog" where
  "GetLastTradePrice E raw =
     (let symbol = ToUpper (TrimSpace raw) in
      if symbol = [] then fail ErrNotFound
      else
        bindM (orNotFound (poolQuery E (sql_last_price (se_dec E) symbol))) (\<lambda>priceStr.
        case NewFromString (se_dec E) (TrimSpace priceStr) of
          None \<Rightarrow> fail (Wrapf ''parse trade price: %w'' decimal_error)
        | Some price \<Rightarrow> if price \<le> 0 then fail ErrNotFound else ret price))"

section \<open>Market cache\<close>

definition NewMarketCache :: "(string \<times> Market) list" where
  "NewMarketCache = []"

definition loadMarkets :: "Market list \<Rightarrow> (string \<times> Market) list" where
  "loadMarkets markets =
     foldl (\<lambda>m market. let symbol = ToUpper (TrimSpace (mk_Symbol market)) in
        if symbol = [] then m else AList.update symbol (market\<lparr>mk_Symbol := symbol\<rparr>) m) [] markets"

definition MarketCache_Load :: "('d, 'e) risk_env_scheme \<Rightarrow> ('d, unit) risk_prog" where
  "MarketCache_Load E =
     bindM (ListActiveMarkets E) (\<lambda>markets.
     bindM (Now E) (\<lambda>now s. (Inr (), s\<lparr>rs_markets := loadMarkets markets, rs_lastRefresh := now\<rparr>)))"

definition MarketCache_Refresh :: "('d, 'e) risk_env_scheme \<Rightarrow> ('d, unit) risk_prog" where
  "MarketCache_Refresh E = MarketCache_Load E"

definition GetMarket :: "string \<Rightarrow> (string \<times> Market) list \<Rightarrow> Market option" where
  "GetMarket symbol markets = (let key = ToUpper (TrimSpace symbol) in if key = [] then None else map_of markets key)"

definition MarketCache_Size :: "(string \<times> Market) list \<Rightarrow> nat" where
  "MarketCache_Size markets = length markets"

section \<open>Pre-trade check\<close>

record PreTradeCheckRequest =
  pt_AccountId :: string
  pt_Symbol :: string
  pt_Side :: string
  pt_OrderType :: string
  pt_Quantity :: string
  pt_Price :: string

record PreTradeCheckResponse =
  pr_Allowed :: bool
  pr_Reasons :: "string list"
  pr_Details :: "(string \<times> string) list"

definition risk_parseUUID :: "('d, 'e) api_env_scheme \<Rightarrow> string \<Rightarrow> string \<Rightarrow> go_error + uuid" where
  "risk_parseUUID E v field =
     (let trimmed = TrimSpace v in
      if trimmed = [] then Inl (Errorf (field @ '' is required'') [])
      else case ae_parseUUID E trimmed of None \<Rightarrow> Inl (Errorf (''invalid '' @ field) []) | Some parsed \<Rightarrow> Inr parsed)"

definition risk_parsePositiveDecimal :: "'d::linordered_idom decimal_ops \<Rightarrow> string \<Rightarrow> string \<Rightarrow> go_error + 'd" where
  "risk_parsePositiveDecimal D v field =
     (let trimmed = TrimSpace v in
      if trimmed = [] then Inl (Errorf (field @ '' is required'') [])
      else case NewFromString D trimmed of
          None \<Rightarrow> Inl (Errorf (field @ '' must be a decimal'') [])
        | Some dec \<Rightarrow> if dec \<le> 0 then Inl (Errorf (field @ '' must be positive'') []) else Inr dec)"

definition marketBuyReferencePrice :: "('d::linordered_idom, 'e) risk_env_scheme \<Rightarrow> int \<Rightarrow> string \<Rightarrow> ('d, 'd) risk_prog" where
  "marketBuyReferencePrice E slippageBps symbol =
     bindM (GetLastTradePrice E symbol) (\<lambda>price.
     if price \<le> 0 then fail (Errorf ''reference price unavailable'' [])
     else
       (let slippage = DecDiv (se_dec E) (of_int slippageBps) (of_int 10000); factor = 1 + slippage in
        ret (price * factor)))"

text \<open>\<open>NewRiskService\<close> turns a negative slippage into none and makes the breaker.\<close>

definition clampSlippage :: "int \<Rightarrow> int" where
  "clampSlippage bps = (if bps < 0 then 0 else bps)"

definition NewRiskService :: "'d risk_db \<Rightarrow> 'd risk_state" where
  "NewRiskService db = \<lparr>ss_db = db, ss_aborted = False, ss_step = 0, rs_markets = NewMarketCache, rs_lastRefresh = 0,
     rs_breaker = newCircuitBreaker 3 thirty_seconds, rs_ledgerCalls = []\<rparr>"

text \<open>The price of the request: needed for limit orders, optional for market orders.\<close>

definition requestPrice :: "'d::linordered_idom decimal_ops \<Rightarrow> string \<Rightarrow> string \<Rightarrow> go_error + 'd" where
  "requestPrice D orderType priceRaw =
     (if orderType = ''limit'' \<or> (orderType = ''market'' \<and> priceRaw \<noteq> []) then risk_parsePositiveDecimal D priceRaw ''price'' else Inr 0)"

definition accountReasons :: "AccountInfo \<Rightarrow> string list" where
  "accountReasons info =
     (if ToLower (TrimSpace (ai_Status info)) \<noteq> ''active'' then [''account_inactive''] else []) @
     (let kyc = ToLower (TrimSpace (ai_KYCLevel info)) in if kyc \<noteq> ''verified'' \<and> kyc \<noteq> ''approved'' then [''kyc_insufficient''] else [])"

text \<open>The market, from the cache or the store, with the reason when there is none or it is not active.\<close>

definition lookupMarket :: "('d, 'e) risk_env_scheme \<Rightarrow> string \<Rightarrow> ('d, Market option \<times> string list) risk_prog" where
  "lookupMarket E symbol s =
     (let check = (\<lambda>market. ret (Some market, if ToLower (TrimSpace (mk_Status market)) \<noteq> ''active'' then [''market_inactive''] else [])) in
      case GetMarket symbol (rs_markets s) of
        Some market \<Rightarrow> check market s
      | None \<Rightarrow>
          attempt (GetMarketBySymbol E symbol)
            (\<lambda>err. if errors_Is err ErrNotFound then ret (None, [''market_not_found'']) else fail (StatusErr Internal ''market lookup failed''))
            check s)"

text \<open>The asset and amount an order needs; \<open>None\<close> when a market order has no reference price. The price used is a detail of the answer.\<close>

definition requiredFunds ::
  "('d::linordered_idom, 'e) risk_env_scheme \<Rightarrow> int \<Rightarrow> string \<Rightarrow> Market \<Rightarrow> string \<Rightarrow> string \<Rightarrow> 'd \<Rightarrow> 'd
    \<Rightarrow> ('d, string \<times> 'd option \<times> (string \<times> string) list) risk_prog" where
  "requiredFunds E slippageBps symbol market side orderType quantity price =
     (if side = ''sell'' then ret (mk_BaseAsset market, Some quantity, [])
      else if orderType = ''market'' then
        attempt (marketBuyReferencePrice E slippageBps symbol)
          (\<lambda>_. ret (mk_QuoteAsset market, None, [(''required_asset'', mk_QuoteAsset market)]))
          (\<lambda>refPrice. ret (mk_QuoteAsset market, Some (quantity * refPrice), [(''reference_price'', DecString (se_dec E) refPrice)]))
      else ret (mk_QuoteAsset market, Some (quantity * price), []))"

definition updateBreaker :: "(circuitBreaker \<Rightarrow> circuitBreaker) \<Rightarrow> ('d, unit) risk_prog" where
  "updateBreaker f s = (Inr (), s\<lparr>rs_breaker := f (rs_breaker s)\<rparr>)"

text \<open>\<open>Allow\<close> reads the clock only when the breaker is open.\<close>

definition breakerAllow :: "('d, 'e) risk_env_scheme \<Rightarrow> ('d, bool) risk_prog" where
  "breakerAllow E s =
     (if IsZeroTime (cb_openedUntil (rs_breaker s)) then (Inr True, s)
      else bindM (Now E) (\<lambda>now t. case Allow now (rs_breaker t) of (ok, b) \<Rightarrow> (Inr ok, t\<lparr>rs_breaker := b\<rparr>)) s)"

definition breakerFailure :: "('d, 'e) risk_env_scheme \<Rightarrow> ('d, unit) risk_prog" where
  "breakerFailure E s =
     (if cb_failures (rs_breaker s) + 1 \<ge> cb_threshold (rs_breaker s)
      then bindM (Now E) (\<lambda>now. updateBreaker (RecordFailure now)) s
      else updateBreaker (RecordFailure 0) s)"

definition checkFunds ::
  "('d::linordered_idom, 'e) risk_env_scheme \<Rightarrow> uuid \<Rightarrow> string \<Rightarrow> 'd \<Rightarrow> ('d, string list \<times> (string \<times> string) list) risk_prog" where
  "checkFunds E accountID asset amount =
     bindM (breakerAllow E) (\<lambda>ok.
     if \<not> ok then fail (StatusErr Unavailable ''balance service unavailable'')
     else
       attempt (CheckBalance E accountID asset amount)
         (\<lambda>_. bindM (breakerFailure E) (\<lambda>_. fail (StatusErr Internal ''balance check failed'')))
         (\<lambda>balance.
           bindM (updateBreaker RecordSuccess) (\<lambda>_.
           if \<not> bc_Sufficient balance then
             ret ([''insufficient_balance''],
                  [(''required_asset'', asset), (''required_amount'', DecString (se_dec E) amount),
                   (''available'', DecString (se_dec E) (bc_Available balance))])
           else ret ([], []))))"

definition PreTradeCheck :: "('d::linordered_idom, 'e) risk_env_scheme \<Rightarrow> int \<Rightarrow> PreTradeCheckRequest \<Rightarrow> ('d, PreTradeCheckResponse) risk_prog" where
  "PreTradeCheck E slippageBps req =
     orInvalid (risk_parseUUID E (pt_AccountId req) ''account_id'') (\<lambda>accountID.
     let symbol = TrimSpace (pt_Symbol req); normalizedSymbol = ToUpper symbol;
         side = ToLower (TrimSpace (pt_Side req)); orderType = ToLower (TrimSpace (pt_OrderType req)) in
     if symbol = [] then fail (StatusErr InvalidArgument ''symbol is required'')
     else if side \<noteq> ''buy'' \<and> side \<noteq> ''sell'' then fail (StatusErr InvalidArgument ''side must be buy or sell'')
     else if orderType \<noteq> ''limit'' \<and> orderType \<noteq> ''market'' then fail (StatusErr InvalidArgument ''order_type must be limit or market'')
     else
       orInvalid (risk_parsePositiveDecimal (se_dec E) (pt_Quantity req) ''quantity'') (\<lambda>quantity.
       orInvalid (requestPrice (se_dec E) orderType (TrimSpace (pt_Price req))) (\<lambda>price.
       attempt (GetAccountInfo E accountID)
         (\<lambda>err. if errors_Is err ErrNotFound then fail (StatusErr NotFound ''account not found'')
                else fail (StatusErr Internal ''account lookup failed''))
         (\<lambda>accountInfo.
           bindM (lookupMarket E normalizedSymbol) (\<lambda>(market, marketReasons).
           let reasons = accountReasons accountInfo @ marketReasons in
           case market of
             None \<Rightarrow> ret \<lparr>pr_Allowed = (reasons = []), pr_Reasons = reasons, pr_Details = []\<rparr>
           | Some mkt \<Rightarrow>
               if reasons \<noteq> [] then ret \<lparr>pr_Allowed = False, pr_Reasons = reasons, pr_Details = []\<rparr>
               else
                 bindM (requiredFunds E slippageBps normalizedSymbol mkt side orderType quantity price) (\<lambda>(asset, amount, details).
                 case amount of
                   None \<Rightarrow> ret \<lparr>pr_Allowed = False, pr_Reasons = [''market_price_unavailable''], pr_Details = details\<rparr>
                 | Some required \<Rightarrow>
                     if asset = [] then ret \<lparr>pr_Allowed = True, pr_Reasons = [], pr_Details = details\<rparr>
                     else
                       bindM (checkFunds E accountID asset required) (\<lambda>(fundReasons, fundDetails).
                       ret \<lparr>pr_Allowed = (fundReasons = []), pr_Reasons = fundReasons, pr_Details = details @ fundDetails\<rparr>)))))))"

section \<open>What the parts of a check return\<close>

text \<open>A read moves the step number only.\<close>

definition ticked :: "'d risk_state \<Rightarrow> 'd risk_state \<Rightarrow> bool" where
  "ticked s t \<longleftrightarrow> (\<exists>n. t = s\<lparr>ss_step := n\<rparr>)"

lemma ticked_refl [simp]: "ticked s s"
  by (metis risk_state.surjective risk_state.update_convs(1) sql_state.update_convs(3) ticked_def)

lemma ticked_trans: "ticked s t \<Longrightarrow> ticked t u \<Longrightarrow> ticked s u"
  by (auto simp: ticked_def)

lemma ticked_fields:
  "ticked s t \<Longrightarrow> ss_db t = ss_db s \<and> rs_markets t = rs_markets s \<and> rs_breaker t = rs_breaker s \<and> rs_ledgerCalls t = rs_ledgerCalls s"
  by (auto simp: ticked_def)

lemma wp_orNotFound:
  "wp m Q (\<lambda>e. X (if errors_Is e NoRows then ErrNotFound else e)) s \<Longrightarrow> wp (orNotFound m) Q X s"
  unfolding orNotFound_def by (simp add: if_distrib [of fail]) (erule wp_conseq; auto split: if_splits)

definition accountRow :: "'d risk_db \<Rightarrow> uuid \<Rightarrow> AccountInfo \<Rightarrow> bool" where
  "accountRow db accountID info \<longleftrightarrow> ai_ID info = accountID \<and> (accountID, ai_UserID info, ai_Status info) \<in> set (k_accounts db)
     \<and> (ai_UserID info, ai_KYCLevel info) \<in> set (k_users db)"

lemma sql_account_info_row: "sql_account_info u n db = Inr (info, db') \<Longrightarrow> db' = db \<and> accountRow db u info"
  unfolding sql_account_info_def by (drule first_row) (auto simp: accountRow_def)

lemma wp_GetAccountInfo:
  assumes "\<And>info t. ticked s t \<Longrightarrow> accountRow (ss_db s) u info \<Longrightarrow> Q info t" and "\<And>e t. ticked s t \<Longrightarrow> X e t"
  shows "wp (GetAccountInfo E u) Q X s"
  unfolding GetAccountInfo_def
  by (intro wp_orNotFound wp_poolRead) (auto simp: ticked_def dest: sql_account_info_row intro!: assms)

text \<open>The market of a symbol: the cached one, or the row of the table.\<close>

definition knownMarket :: "'d risk_state \<Rightarrow> string \<Rightarrow> Market \<Rightarrow> bool" where
  "knownMarket s symbol m \<longleftrightarrow>
     (case GetMarket symbol (rs_markets s) of Some c \<Rightarrow> m = c | None \<Rightarrow> m \<in> set (k_markets (ss_db s)) \<and> mk_Symbol m = ToUpper (TrimSpace symbol))"

lemma sql_market_row: "sql_market symbol n db = Inr (m, db') \<Longrightarrow> db' = db \<and> m \<in> set (k_markets db) \<and> mk_Symbol m = symbol"
  unfolding sql_market_def by (drule first_row) auto

lemma sql_market_only_NoRows: "sql_market symbol n db = Inl e \<Longrightarrow> e = NoRows"
  by (auto simp: sql_market_def split: list.splits)

definition activeMarket :: "Market \<Rightarrow> bool" where
  "activeMarket m \<longleftrightarrow> ToLower (TrimSpace (mk_Status m)) = ''active''"

lemma wp_lookupMarket:
  assumes active: "\<And>m t. ticked s t \<Longrightarrow> knownMarket s symbol m \<Longrightarrow> activeMarket m \<Longrightarrow> Q (Some m, []) t"
    and inactive: "\<And>m t. ticked s t \<Longrightarrow> knownMarket s symbol m \<Longrightarrow> \<not> activeMarket m \<Longrightarrow> Q (Some m, [''market_inactive'']) t"
    and "\<And>t. ticked s t \<Longrightarrow> \<nexists>m. knownMarket s symbol m \<Longrightarrow> Q (None, [''market_not_found'']) t" and "\<And>e t. ticked s t \<Longrightarrow> X e t"
  shows "wp (lookupMarket E symbol) Q X s"
proof (cases "GetMarket symbol (rs_markets s)")
  case (Some m)
  then show ?thesis using active [of s m] inactive [of s m] ticked_refl [of s]
    by (simp add: wp_def lookupMarket_def Let_def ret_def knownMarket_def activeMarket_def)
next
  case None
  let ?check = "\<lambda>market. ret (Some market, if ToLower (TrimSpace (mk_Status market)) \<noteq> ''active'' then [''market_inactive''] else [])"
  have known: "knownMarket s symbol m" if "sql_market (ToUpper (TrimSpace symbol)) n (ss_db s) = Inr (m, db)" for m n db
    using sql_market_row [OF that] None by (simp add: knownMarket_def)
  have unknown: "\<nexists>m. knownMarket s symbol m" if "sql_market (ToUpper (TrimSpace symbol)) n (ss_db s) = Inl NoRows" for n
    using that None by (auto simp: knownMarket_def sql_market_def filter_empty_conv split: list.splits)
  have "wp (attempt (GetMarketBySymbol E symbol)
      (\<lambda>err. if errors_Is err ErrNotFound then ret (None, [''market_not_found'']) else fail (StatusErr Internal ''market lookup failed'')) ?check) Q X s"
    unfolding GetMarketBySymbol_def
    by (intro wp_intro wp_orNotFound wp_poolRead)
       (auto simp: ticked_def activeMarket_def ErrNotFound_def dest: sql_market_row sql_market_only_NoRows known unknown intro!: assms)
  then show ?thesis using None by (simp add: wp_def lookupMarket_def Let_def)
qed

lemma wp_GetLastTradePrice:
  assumes "\<And>price t. ticked s t \<Longrightarrow> 0 < price \<Longrightarrow> (\<exists>tr \<in> set (k_trades (ss_db s)). tr_symbol tr = ToUpper (TrimSpace symbol) \<and>
      NewFromString (se_dec E) (TrimSpace (DecString (se_dec E) (tr_price tr))) = Some price) \<Longrightarrow> Q price t"
    and "\<And>e t. ticked s t \<Longrightarrow> X e t"
  shows "wp (GetLastTradePrice E symbol) Q X s"
proof -
  have row: "db' = db \<and> (\<exists>tr \<in> set (k_trades db). tr_symbol tr = sym \<and> p = DecString (se_dec E) (tr_price tr))"
    if "sql_last_price (se_dec E) sym n db = Inr (p, db')" for sym n p db' and db :: "'a risk_db"
    using that unfolding sql_last_price_def by (drule_tac first_row) auto
  show ?thesis
    unfolding GetLastTradePrice_def Let_def
    by (intro wp_intro wp_orNotFound wp_poolRead) (auto simp: ticked_def not_le dest: row intro!: assms)
qed

section \<open>What an order needs\<close>

text \<open>
  The requirement of an order, as a specification: the quantity of the base asset for a sale, the
  quantity at the limit price of the quote asset for a limit purchase, and for a market purchase the quantity at the price of a
  trade of that symbol, raised by the slippage.
\<close>

definition requirement ::
  "('d::linordered_idom, 'e) risk_env_scheme \<Rightarrow> int \<Rightarrow> 'd risk_db \<Rightarrow> string \<Rightarrow> Market \<Rightarrow> string \<Rightarrow> string \<Rightarrow> 'd \<Rightarrow> 'd \<Rightarrow> string \<Rightarrow> 'd \<Rightarrow> bool" where
  "requirement E slippageBps db symbol m side orderType quantity price asset amount \<longleftrightarrow>
     (if side = ''sell'' then asset = mk_BaseAsset m \<and> amount = quantity
      else asset = mk_QuoteAsset m \<and>
        (if orderType = ''market''
         then \<exists>tr p. tr \<in> set (k_trades db) \<and> tr_symbol tr = ToUpper (TrimSpace symbol) \<and> 0 < p
            \<and> NewFromString (se_dec E) (TrimSpace (DecString (se_dec E) (tr_price tr))) = Some p
            \<and> amount = quantity * (p * (1 + DecDiv (se_dec E) (of_int slippageBps) (of_int 10000)))
         else amount = quantity * price))"

lemma wp_requiredFunds:
  assumes "\<And>asset amount details t. ticked s t \<Longrightarrow> requirement E bps (ss_db s) symbol m side orderType q p asset amount
      \<Longrightarrow> Q (asset, Some amount, details) t"
    and "\<And>asset details t. ticked s t \<Longrightarrow> side \<noteq> ''sell'' \<Longrightarrow> orderType = ''market'' \<Longrightarrow> Q (asset, None, details) t"
  shows "wp (requiredFunds E bps symbol m side orderType q p) Q X s"
proof -
  have market: "Q (mk_QuoteAsset m, Some (q * (r * (1 + DecDiv (se_dec E) (of_int bps) 10000))), details) t"
    if "side \<noteq> ''sell''" "orderType = ''market''" "ticked s t" "0 < r" "\<exists>tr \<in> set (k_trades (ss_db s)). tr_symbol tr = ToUpper (TrimSpace symbol)
      \<and> NewFromString (se_dec E) (TrimSpace (DecString (se_dec E) (tr_price tr))) = Some r" for r details t
    using that by (intro assms(1)) (auto simp: requirement_def)
  have "wp (marketBuyReferencePrice E bps symbol)
      (\<lambda>refPrice. wp (ret (mk_QuoteAsset m, Some (q * refPrice), [(''reference_price'', DecString (se_dec E) refPrice)])) Q X)
      (\<lambda>_. wp (ret (mk_QuoteAsset m, None, [(''required_asset'', mk_QuoteAsset m)])) Q X) s" if "side \<noteq> ''sell''" "orderType = ''market''"
    unfolding marketBuyReferencePrice_def Let_def
    using that by (intro wp_intro wp_GetLastTradePrice) (simp_all add: assms(2) market)
  then show ?thesis
    unfolding requiredFunds_def by (intro wp_intro) (auto simp: requirement_def intro!: assms)
qed

section \<open>Balance checks behind the breaker\<close>

text \<open>A check changes the step number, the breaker and the record of the calls, and nothing else.\<close>

definition asked :: "'d risk_state \<Rightarrow> 'd risk_state \<Rightarrow> bool" where
  "asked s t \<longleftrightarrow> ss_db t = ss_db s \<and> ss_aborted t = ss_aborted s \<and> rs_markets t = rs_markets s \<and> rs_lastRefresh t = rs_lastRefresh s"

lemma ticked_asked: "ticked s t \<Longrightarrow> asked s t"
  by (auto simp: ticked_def asked_def)

lemma asked_trans: "asked s t \<Longrightarrow> asked t u \<Longrightarrow> asked s u"
  by (simp add: asked_def)

text \<open>The ledger has answered that the account has the amount.\<close>

definition ledgerAnswers :: "('d::linordered_idom, 'e) risk_env_scheme \<Rightarrow> uuid \<Rightarrow> string \<Rightarrow> 'd \<Rightarrow> bool" where
  "ledgerAnswers E accountID asset available \<longleftrightarrow>
     (\<exists>client n r. re_ledger E = Some client \<and> client n (se_uuidString E accountID) asset = Inr (Some r)
        \<and> NewFromString (se_dec E) (TrimSpace (gb_Available r)) = Some available)"

lemma wp_callLedger [wp_intro]:
  assumes "\<And>r. client (ss_step s) account asset = Inr r \<Longrightarrow>
      Q r (s\<lparr>ss_step := Suc (ss_step s), rs_ledgerCalls := rs_ledgerCalls s @ [(account, asset)]\<rparr>)"
    and "\<And>e. client (ss_step s) account asset = Inl e \<Longrightarrow>
      X e (s\<lparr>ss_step := Suc (ss_step s), rs_ledgerCalls := rs_ledgerCalls s @ [(account, asset)]\<rparr>)"
  shows "wp (callLedger client account asset) Q X s"
  using assms by (auto simp: wp_def callLedger_def split: sum.split)

lemma wp_CheckBalance:
  assumes "\<And>b t. asked s t \<Longrightarrow> ledgerAnswers E u asset (bc_Available b) \<Longrightarrow> bc_Sufficient b = (amount \<le> bc_Available b) \<Longrightarrow> Q b t"
    and "\<And>e t. asked s t \<Longrightarrow> X e t"
  shows "wp (CheckBalance E u asset amount) Q X s"
proof -
  have answered: "Q b t" if "re_ledger E = Some client" "client n (se_uuidString E u) asset = Inr (Some r)"
      "NewFromString (se_dec E) (TrimSpace (gb_Available r)) = Some a" "asked s t"
      "b = \<lparr>bc_Asset = asset, bc_Available = a, bc_Required = amount, bc_Sufficient = (amount \<le> a)\<rparr>" for client n r a b t
    using that by (intro assms(1)) (auto simp: ledgerAnswers_def)
  show ?thesis
    unfolding CheckBalance_def Let_def
    by (intro wp_intro) (auto simp: asked_def intro!: assms(2) answered)
qed

lemma breakerAllow_asked: "wp (breakerAllow E) (\<lambda>_. asked s) (\<lambda>_. asked s) s"
  by (auto simp: wp_def breakerAllow_def bindM_def Now_def Allow_def asked_def)

lemma breakerFailure_asked: "asked s t \<Longrightarrow> wp (breakerFailure E) (\<lambda>_. asked s) (\<lambda>_. asked s) t"
  by (auto simp: wp_def breakerFailure_def bindM_def Now_def updateBreaker_def asked_def)

lemma wp_updateBreaker [wp_intro]: "Q () (s\<lparr>rs_breaker := f (rs_breaker s)\<rparr>) \<Longrightarrow> wp (updateBreaker f) Q X s"
  by (simp add: wp_def updateBreaker_def)

lemma wp_checkFunds:
  assumes "\<And>t a. asked s t \<Longrightarrow> ledgerAnswers E u asset a \<Longrightarrow> amount \<le> a \<Longrightarrow> Q ([], []) t"
    and "\<And>t a details. asked s t \<Longrightarrow> ledgerAnswers E u asset a \<Longrightarrow> a < amount \<Longrightarrow> Q ([''insufficient_balance''], details) t"
    and "\<And>e t. asked s t \<Longrightarrow> X e t"
  shows "wp (checkFunds E u asset amount) Q X s"
proof -
  have failure: "wp (breakerFailure E) (\<lambda>_. wp (fail e) Q X) X t" if "asked s t" for e t
    by (rule wp_conseq [OF breakerFailure_asked [OF that]]) (auto intro: assms(3))
  have "wp (attempt (CheckBalance E u asset amount)
         (\<lambda>_. bindM (breakerFailure E) (\<lambda>_. fail (StatusErr Internal ''balance check failed'')))
         (\<lambda>balance. bindM (updateBreaker RecordSuccess) (\<lambda>_.
           if \<not> bc_Sufficient balance then
             ret ([''insufficient_balance''],
                  [(''required_asset'', asset), (''required_amount'', DecString (se_dec E) amount),
                   (''available'', DecString (se_dec E) (bc_Available balance))])
           else ret ([], [])))) Q X t" if "asked s t" for t
    using that
    by (intro wp_intro wp_CheckBalance) (auto intro!: assms failure elim: asked_trans simp: asked_def not_le simp del: wp_fail)
  then show ?thesis
    unfolding checkFunds_def
    by (simp del: wp_attempt) (rule wp_conseq [OF breakerAllow_asked], auto intro: assms(3))
qed

section \<open>When an order is allowed\<close>

text \<open>An account may trade when it is active and its user has been verified or approved.\<close>

definition activeAccount :: "AccountInfo \<Rightarrow> bool" where
  "activeAccount info \<longleftrightarrow> ToLower (TrimSpace (ai_Status info)) = ''active''"

definition verifiedUser :: "AccountInfo \<Rightarrow> bool" where
  "verifiedUser info \<longleftrightarrow> ToLower (TrimSpace (ai_KYCLevel info)) \<in> {''verified'', ''approved''}"

lemma accountReasons_Nil: "accountReasons info = [] \<longleftrightarrow> activeAccount info \<and> verifiedUser info"
  by (auto simp: accountReasons_def activeAccount_def verifiedUser_def Let_def)

lemma accountReasons_true:
  "r \<in> set (accountReasons info) \<Longrightarrow> r = ''account_inactive'' \<and> \<not> activeAccount info \<or> r = ''kyc_insufficient'' \<and> \<not> verifiedUser info"
  by (auto simp: accountReasons_def activeAccount_def verifiedUser_def Let_def split: if_splits)

text \<open>The conditions under which an order may be placed, written over the tables and the answer of the ledger.\<close>

definition mayTrade :: "('d::linordered_idom, 'e) risk_env_scheme \<Rightarrow> int \<Rightarrow> PreTradeCheckRequest \<Rightarrow> 'd risk_state \<Rightarrow> bool" where
  "mayTrade E slippageBps req s \<longleftrightarrow>
     (\<exists>accountID info m quantity price asset amount.
        ae_parseUUID E (TrimSpace (pt_AccountId req)) = Some accountID \<and> accountRow (ss_db s) accountID info \<and> activeAccount info \<and> verifiedUser info
        \<and> knownMarket s (ToUpper (TrimSpace (pt_Symbol req))) m \<and> activeMarket m
        \<and> NewFromString (se_dec E) (TrimSpace (pt_Quantity req)) = Some quantity \<and> 0 < quantity
        \<and> (ToLower (TrimSpace (pt_OrderType req)) = ''limit'' \<longrightarrow> NewFromString (se_dec E) (TrimSpace (pt_Price req)) = Some price \<and> 0 < price)
        \<and> requirement E slippageBps (ss_db s) (ToUpper (TrimSpace (pt_Symbol req))) m
             (ToLower (TrimSpace (pt_Side req))) (ToLower (TrimSpace (pt_OrderType req))) quantity price asset amount
        \<and> (asset = [] \<or> (\<exists>available. ledgerAnswers E accountID asset available \<and> amount \<le> available)))"

lemma risk_parseUUID_Some: "risk_parseUUID E v field = Inr u \<Longrightarrow> ae_parseUUID E (TrimSpace v) = Some u"
  by (simp add: risk_parseUUID_def Let_def split: if_splits option.splits)

lemma risk_parsePositiveDecimal_Some:
  "risk_parsePositiveDecimal D v field = Inr q \<Longrightarrow> NewFromString D (TrimSpace v) = Some q \<and> 0 < q"
  by (simp add: risk_parsePositiveDecimal_def Let_def split: if_splits option.splits)

lemma requestPrice_limit: "requestPrice D ''limit'' raw = Inr price \<Longrightarrow> NewFromString D (TrimSpace raw) = Some price \<and> 0 < price"
  by (simp add: requestPrice_def risk_parsePositiveDecimal_Some)

text \<open>What a reason of a denial says about the tables and the ledger.\<close>

definition reasonHolds :: "('d::linordered_idom, 'e) risk_env_scheme \<Rightarrow> int \<Rightarrow> PreTradeCheckRequest \<Rightarrow> 'd risk_state \<Rightarrow> string \<Rightarrow> bool" where
  "reasonHolds E slippageBps req s r \<longleftrightarrow>
     (let symbol = ToUpper (TrimSpace (pt_Symbol req)); side = ToLower (TrimSpace (pt_Side req));
          orderType = ToLower (TrimSpace (pt_OrderType req)) in
      \<exists>accountID. ae_parseUUID E (TrimSpace (pt_AccountId req)) = Some accountID \<and>
        ((\<exists>info. accountRow (ss_db s) accountID info
            \<and> (r = ''account_inactive'' \<and> \<not> activeAccount info \<or> r = ''kyc_insufficient'' \<and> \<not> verifiedUser info))
         \<or> r = ''market_not_found'' \<and> (\<nexists>m. knownMarket s symbol m)
         \<or> r = ''market_inactive'' \<and> (\<exists>m. knownMarket s symbol m \<and> \<not> activeMarket m)
         \<or> r = ''market_price_unavailable'' \<and> side \<noteq> ''sell'' \<and> orderType = ''market''
         \<or> r = ''insufficient_balance'' \<and> (\<exists>m quantity price asset amount available. knownMarket s symbol m
              \<and> requirement E slippageBps (ss_db s) symbol m side orderType quantity price asset amount
              \<and> ledgerAnswers E accountID asset available \<and> available < amount)))"

lemma reasonHoldsI:
  assumes "risk_parseUUID E (pt_AccountId req) ''account_id'' = Inr u"
  shows "accountRow (ss_db s) u info \<Longrightarrow> r \<in> set (accountReasons info) \<Longrightarrow> reasonHolds E bps req s r"
    and "\<nexists>m. knownMarket s (ToUpper (TrimSpace (pt_Symbol req))) m \<Longrightarrow> reasonHolds E bps req s ''market_not_found''" (is "\<nexists>m. knownMarket s ?sym m \<Longrightarrow> _")
    and "knownMarket s (ToUpper (TrimSpace (pt_Symbol req))) m \<Longrightarrow> \<not> activeMarket m \<Longrightarrow> reasonHolds E bps req s ''market_inactive''"
    and "ToLower (TrimSpace (pt_Side req)) \<noteq> ''sell'' \<Longrightarrow> ToLower (TrimSpace (pt_OrderType req)) = ''market'' \<Longrightarrow>
      reasonHolds E bps req s ''market_price_unavailable''" (is "?side \<noteq> _ \<Longrightarrow> ?type = _ \<Longrightarrow> _")
    and "knownMarket s (ToUpper (TrimSpace (pt_Symbol req))) m \<Longrightarrow>
      requirement E bps (ss_db s) (ToUpper (TrimSpace (pt_Symbol req))) m (ToLower (TrimSpace (pt_Side req))) (ToLower (TrimSpace (pt_OrderType req)))
        q p asset amount \<Longrightarrow> ledgerAnswers E u asset a \<Longrightarrow> a < amount \<Longrightarrow> reasonHolds E bps req s ''insufficient_balance''"
proof -
  note u = risk_parseUUID_Some [OF assms]
  show "accountRow (ss_db s) u info \<Longrightarrow> r \<in> set (accountReasons info) \<Longrightarrow> reasonHolds E bps req s r"
    unfolding reasonHolds_def Let_def
    by (rule exI [of _ u], rule conjI, rule u, rule disjI1, rule exI [of _ info], rule conjI, assumption, rule accountReasons_true)
  show "\<nexists>m. knownMarket s ?sym m \<Longrightarrow> reasonHolds E bps req s ''market_not_found''"
    using u by (simp add: reasonHolds_def Let_def)
  show "knownMarket s ?sym m \<Longrightarrow> \<not> activeMarket m \<Longrightarrow> reasonHolds E bps req s ''market_inactive''"
    using u by (auto simp: reasonHolds_def Let_def)
  show "?side \<noteq> ''sell'' \<Longrightarrow> ?type = ''market'' \<Longrightarrow> reasonHolds E bps req s ''market_price_unavailable''"
    using u by (simp add: reasonHolds_def Let_def)
  show "knownMarket s ?sym m \<Longrightarrow> requirement E bps (ss_db s) ?sym m ?side ?type q p asset amount \<Longrightarrow> ledgerAnswers E u asset a \<Longrightarrow> a < amount
      \<Longrightarrow> reasonHolds E bps req s ''insufficient_balance''"
    using u by (simp add: reasonHolds_def Let_def) blast
qed

text \<open>The answer and the state of a check.\<close>

definition checkPost ::
  "('d::linordered_idom, 'e) risk_env_scheme \<Rightarrow> int \<Rightarrow> PreTradeCheckRequest \<Rightarrow> 'd risk_state \<Rightarrow> PreTradeCheckResponse \<Rightarrow> 'd risk_state \<Rightarrow> bool" where
  "checkPost E bps req s resp t \<longleftrightarrow> asked s t \<and> pr_Allowed resp = (pr_Reasons resp = []) \<and> (pr_Allowed resp \<longrightarrow> mayTrade E bps req s)
     \<and> (\<forall>r \<in> set (pr_Reasons resp). reasonHolds E bps req s r)"

lemma knownMarket_ticked: "ticked s t \<Longrightarrow> knownMarket t symbol m = knownMarket s symbol m"
  by (auto simp: knownMarket_def ticked_def split: option.splits)

text \<open>The rules of the parts, for a state that reads have been made from.\<close>

lemma wp_parts_ticked:
  assumes "ticked s0 s"
  shows wp_lookupMarket_ticked: "\<lbrakk>\<And>m t. ticked s0 t \<Longrightarrow> knownMarket s0 symbol m \<Longrightarrow> activeMarket m \<Longrightarrow> Q (Some m, []) t;
        \<And>m t. ticked s0 t \<Longrightarrow> knownMarket s0 symbol m \<Longrightarrow> \<not> activeMarket m \<Longrightarrow> Q (Some m, [''market_inactive'']) t; \<And>t. ticked s0 t \<Longrightarrow> \<nexists>m. knownMarket s0 symbol m \<Longrightarrow> Q (None, [''market_not_found'']) t;
        \<And>e t. ticked s0 t \<Longrightarrow> X e t\<rbrakk> \<Longrightarrow> wp (lookupMarket E symbol) Q X s"
    and wp_requiredFunds_ticked: "\<lbrakk>\<And>asset amount details t. ticked s0 t \<Longrightarrow>
        requirement E' bps (ss_db s0) symbol' m side orderType q p asset amount \<Longrightarrow> Q' (asset, Some amount, details) t;
        \<And>asset details t. ticked s0 t \<Longrightarrow> side \<noteq> ''sell'' \<Longrightarrow> orderType = ''market'' \<Longrightarrow> Q' (asset, None, details) t\<rbrakk> \<Longrightarrow> wp (requiredFunds E' bps symbol' m side orderType q p) Q' X' s"
    and wp_checkFunds_ticked: "\<lbrakk>\<And>t a. asked s0 t \<Longrightarrow> ledgerAnswers E' u asset a \<Longrightarrow> amount \<le> a \<Longrightarrow> Q'' ([], []) t;
        \<And>t a details. asked s0 t \<Longrightarrow> ledgerAnswers E' u asset a \<Longrightarrow> a < amount \<Longrightarrow> Q'' ([''insufficient_balance''], details) t; \<And>e t. asked s0 t \<Longrightarrow> X'' e t\<rbrakk>
        \<Longrightarrow> wp (checkFunds E' u asset amount) Q'' X'' s"
proof -
  have "ss_db s = ss_db s0" using assms by (simp add: ticked_fields)
  note from_s0 = ticked_trans [OF assms] asked_trans [OF ticked_asked [OF assms]] knownMarket_ticked [OF assms] this
  show "wp (lookupMarket E symbol) Q X s" if "\<And>m t. ticked s0 t \<Longrightarrow> knownMarket s0 symbol m \<Longrightarrow> activeMarket m \<Longrightarrow> Q (Some m, []) t"
      "\<And>m t. ticked s0 t \<Longrightarrow> knownMarket s0 symbol m \<Longrightarrow> \<not> activeMarket m \<Longrightarrow> Q (Some m, [''market_inactive'']) t" "\<And>t. ticked s0 t \<Longrightarrow> \<nexists>m. knownMarket s0 symbol m \<Longrightarrow> Q (None, [''market_not_found'']) t"
      "\<And>e t. ticked s0 t \<Longrightarrow> X e t"
    by (rule wp_lookupMarket) (simp_all add: that from_s0)
  show "wp (requiredFunds E' bps symbol' m side orderType q p) Q' X' s" if "\<And>asset amount details t. ticked s0 t \<Longrightarrow>
        requirement E' bps (ss_db s0) symbol' m side orderType q p asset amount \<Longrightarrow> Q' (asset, Some amount, details) t"
      "\<And>asset details t. ticked s0 t \<Longrightarrow> side \<noteq> ''sell'' \<Longrightarrow> orderType = ''market'' \<Longrightarrow> Q' (asset, None, details) t"
    by (rule wp_requiredFunds) (simp_all add: that from_s0)
  show "wp (checkFunds E' u asset amount) Q'' X'' s" if "\<And>t a. asked s0 t \<Longrightarrow> ledgerAnswers E' u asset a \<Longrightarrow> amount \<le> a \<Longrightarrow> Q'' ([], []) t"
      "\<And>t a details. asked s0 t \<Longrightarrow> ledgerAnswers E' u asset a \<Longrightarrow> a < amount \<Longrightarrow> Q'' ([''insufficient_balance''], details) t" "\<And>e t. asked s0 t \<Longrightarrow> X'' e t"
    by (rule wp_checkFunds) (simp_all add: that from_s0)
qed

lemma checkPost_denied: "asked s t \<Longrightarrow> r \<noteq> [] \<Longrightarrow> (\<And>x. x \<in> set r \<Longrightarrow> reasonHolds E bps req s x) \<Longrightarrow> checkPost E bps req s \<lparr>pr_Allowed = False, pr_Reasons = r, pr_Details = d\<rparr> t"
  by (simp add: checkPost_def)

lemma PreTradeCheck_post: "wp (PreTradeCheck E bps req) (checkPost E bps req s) (\<lambda>_ t. asked s t) s"
proof -
  let ?sym = "ToUpper (TrimSpace (pt_Symbol req))" and ?side = "ToLower (TrimSpace (pt_Side req))"
  let ?type = "ToLower (TrimSpace (pt_OrderType req))"
  have allowed: "checkPost E bps req s \<lparr>pr_Allowed = True, pr_Reasons = [], pr_Details = d\<rparr> t"
    if "risk_parseUUID E (pt_AccountId req) ''account_id'' = Inr u" "accountRow (ss_db s) u info" "accountReasons info = []"
      "knownMarket s ?sym m" "activeMarket m" "risk_parsePositiveDecimal (se_dec E) (pt_Quantity req) ''quantity'' = Inr q"
      "requestPrice (se_dec E) ?type (TrimSpace (pt_Price req)) = Inr p"
      "requirement E bps (ss_db s) ?sym m ?side ?type q p asset amount"
      "asset = [] \<or> (\<exists>a. ledgerAnswers E u asset a \<and> amount \<le> a)" "asked s t" for u info m q p asset amount d t
  proof -
    have "mayTrade E bps req s"
    proof -
      have "activeAccount info" "verifiedUser info" using that(3) by (simp_all add: accountReasons_Nil)
      moreover have "?type = ''limit'' \<longrightarrow> NewFromString (se_dec E) (TrimSpace (pt_Price req)) = Some p \<and> 0 < p"
        using that(7) requestPrice_limit [of "se_dec E" "TrimSpace (pt_Price req)" p] by auto
      ultimately show ?thesis
        unfolding mayTrade_def using that(2,4,5,8,9) risk_parseUUID_Some [OF that(1)] risk_parsePositiveDecimal_Some [OF that(6)] by blast
    qed
    then show ?thesis using that(10) by (simp add: checkPost_def)
  qed
  let ?parsed = "\<lambda>u. risk_parseUUID E (pt_AccountId req) ''account_id'' = Inr u"
  have denied: "checkPost E bps req s \<lparr>pr_Allowed = False, pr_Reasons = accountReasons info @ rs, pr_Details = d\<rparr> t"
    if "?parsed u" "accountRow (ss_db s) u info" "accountReasons info @ rs \<noteq> []" "list_all (reasonHolds E bps req s) rs" "asked s t" for u info rs d t
    using that by (intro checkPost_denied) (auto simp: list_all_iff intro: reasonHoldsI(1) [OF that(1)])
  note denied_account = denied [of _ _ "[]", simplified]
  have denied_inactive: "checkPost E bps req s \<lparr>pr_Allowed = False, pr_Reasons = accountReasons info @ [''market_inactive''], pr_Details = d\<rparr> t"
    if "?parsed u" "accountRow (ss_db s) u info" "knownMarket s ?sym m" "\<not> activeMarket m" "asked s t" for u info m d t
    using reasonHoldsI(3) [OF that(1,3,4)] that(5) by (intro denied [OF that(1,2)]) simp_all
  have denied_unknown: "checkPost E bps req s \<lparr>pr_Allowed = False, pr_Reasons = accountReasons info @ [''market_not_found''], pr_Details = d\<rparr> t"
    if "?parsed u" "accountRow (ss_db s) u info" "\<nexists>m. knownMarket s ?sym m" "asked s t" for u info d t
    using reasonHoldsI(2) [OF that(1,3)] that(4) by (intro denied [OF that(1,2)]) simp_all
  have denied_price: "checkPost E bps req s \<lparr>pr_Allowed = False, pr_Reasons = [''market_price_unavailable''], pr_Details = d\<rparr> t"
    if "?parsed u" "?side \<noteq> ''sell''" "?type = ''market''" "asked s t" for u d t
    using reasonHoldsI(4) [OF that(1-3)] that(4) by (intro checkPost_denied) simp_all
  have denied_balance: "checkPost E bps req s \<lparr>pr_Allowed = False, pr_Reasons = [''insufficient_balance''], pr_Details = d\<rparr> t"
    if "?parsed u" "knownMarket s ?sym m" "requirement E bps (ss_db s) ?sym m ?side ?type q p asset amount"
      "ledgerAnswers E u asset a" "a < amount" "asked s t" for u m q p asset amount a d t
    using reasonHoldsI(5) [OF that(1-5)] that(6) by (intro checkPost_denied) simp_all
  show ?thesis
    unfolding PreTradeCheck_def Let_def split_beta
    by (intro wp_orInvalid wp_intro wp_GetAccountInfo wp_lookupMarket_ticked [where ?s0.0 = s] wp_requiredFunds_ticked [where ?s0.0 = s]
        wp_checkFunds_ticked [where ?s0.0 = s])
      (simp_all add: ticked_asked,
       ((rule allowed denied_account denied_inactive denied_unknown denied_price denied_balance, (assumption | simp add: ticked_asked | blast)+)[1])+)
qed


section \<open>The breaker limits the calls of a failing ledger\<close>

definition runChecks :: "('d::linordered_idom, 'e) risk_env_scheme \<Rightarrow> int \<Rightarrow> PreTradeCheckRequest list \<Rightarrow> 'd risk_state \<Rightarrow> 'd risk_state" where
  "runChecks E slippageBps reqs s = foldl (\<lambda>s req. snd (PreTradeCheck E slippageBps req s)) s reqs"

text \<open>
  The invariant while the ledger fails and the clock stays within one cool-down from \<open>from\<close>: as long as the breaker is closed it has
  counted every call, and once it has opened it stays so.
\<close>

definition budget :: "time \<Rightarrow> int \<Rightarrow> duration \<Rightarrow> 'd risk_state \<Rightarrow> bool" where
  "budget from threshold cooldown s \<longleftrightarrow>
     (let b = rs_breaker s; calls = int (length (rs_ledgerCalls s)) in
      cb_threshold b = threshold \<and> cb_cooldown b = cooldown \<and>
      (if IsZeroTime (cb_openedUntil b) then calls \<le> cb_failures b \<and> cb_failures b < threshold
       else from + cooldown \<le> cb_openedUntil b \<and> calls \<le> threshold))"

lemma budget_ticked: "budget from n d s \<Longrightarrow> ticked s t \<Longrightarrow> budget from n d t"
  by (auto simp: budget_def ticked_def Let_def)

text \<open>A predicate kept by reads and by the balance check is kept by the pre-trade check.\<close>

lemma PreTradeCheck_keeps:
  assumes ticks: "\<And>s t. J s \<Longrightarrow> ticked s t \<Longrightarrow> J t"
    and funds: "\<And>u asset amount s. J s \<Longrightarrow> wp (checkFunds E u asset amount) (\<lambda>_. J) (\<lambda>_. J) s"
    and "J s"
  shows "J (snd (PreTradeCheck E bps req s))"
proof -
  have after: "wp (checkFunds E u asset amount) (\<lambda>a. wp (ret (f a)) (\<lambda>_. J) (\<lambda>_. J)) (\<lambda>_. J) t" if "ticked s t" for u asset amount f t
    using funds [OF ticks [OF assms(3) that]] by (rule wp_conseq) simp_all
  have "wp (PreTradeCheck E bps req) (\<lambda>_. J) (\<lambda>_. J) s"
    unfolding PreTradeCheck_def Let_def split_beta
    by (intro wp_orInvalid after wp_intro wp_GetAccountInfo wp_lookupMarket_ticked [where ?s0.0 = s] wp_requiredFunds_ticked [where ?s0.0 = s])
       (simp_all add: ticks [OF assms(3)] assms(3))
  then show ?thesis by (auto simp: wp_def split: prod.splits sum.splits)
qed

definition ledgerDown :: "('d, 'e) risk_env_scheme \<Rightarrow> bool" where
  "ledgerDown E \<longleftrightarrow> (\<forall>client. re_ledger E = Some client \<longrightarrow> (\<forall>n account asset. isl (client n account asset)))"

lemma breakerAllow_budget:
  assumes "\<forall>n. se_clock E n \<le> from + cooldown" "budget from threshold cooldown s"
  shows "wp (breakerAllow E) (\<lambda>ok t. budget from threshold cooldown t \<and> (ok \<longrightarrow> IsZeroTime (cb_openedUntil (rs_breaker t)))) X s"
proof (cases "IsZeroTime (cb_openedUntil (rs_breaker s))")
  case True
  then show ?thesis using assms by (simp add: wp_def breakerAllow_def)
next
  case False
  then have "se_clock E (ss_step s) \<le> cb_openedUntil (rs_breaker s)"
    using assms by (meson budget_def order_trans)
  then show ?thesis using False assms(2) by (simp add: wp_def breakerAllow_def bindM_def Now_def Allow_def budget_def Let_def not_less)
qed

lemma CheckBalance_down:
  assumes "ledgerDown E" "\<And>e n calls. length calls \<le> Suc (length (rs_ledgerCalls s)) \<Longrightarrow> X e (s\<lparr>ss_step := n, rs_ledgerCalls := calls\<rparr>)"
  shows "wp (CheckBalance E u asset amount) Q X s"
proof (cases "re_ledger E")
  case None
  then show ?thesis using assms(2) [of "rs_ledgerCalls s" _ "ss_step s"] by (simp add: CheckBalance_def)
next
  case (Some client)
  then obtain e where "client (ss_step s) (se_uuidString E u) asset = Inl e"
    using assms(1) by (metis ledgerDown_def sum.collapse(1))
  then show ?thesis using Some assms(2) [of "rs_ledgerCalls s @ [(se_uuidString E u, asset)]"]
    by (simp add: CheckBalance_def wp_def bindM_def callLedger_def)
qed

lemma breakerFailure_budget:
  assumes "budget from threshold cooldown s" "IsZeroTime (cb_openedUntil (rs_breaker s))" "length calls \<le> Suc (length (rs_ledgerCalls s))"
    and "\<forall>n. from \<le> se_clock E n" "0 < from" "0 < cooldown"
  shows "wp (breakerFailure E) (\<lambda>_. budget from threshold cooldown) X (s\<lparr>ss_step := n, rs_ledgerCalls := calls\<rparr>)"
proof -
  have "from + cooldown \<le> se_clock E n + cooldown" "0 < se_clock E n + cooldown"
    using assms(5,6) spec [OF assms(4), of n] by linarith+
  then show ?thesis using assms(1-3)
    by (simp add: wp_def breakerFailure_def bindM_def Now_def updateBreaker_def RecordFailure_def budget_def Let_def IsZeroTime_def)
qed

lemma checkFunds_budget:
  assumes "ledgerDown E" "\<forall>n. from \<le> se_clock E n \<and> se_clock E n \<le> from + cooldown" "0 < from" "0 < cooldown" "budget from threshold cooldown s"
  shows "wp (checkFunds E u asset amount) (\<lambda>_. budget from threshold cooldown) (\<lambda>_. budget from threshold cooldown) s"
proof -
  let ?J = "budget from threshold cooldown"
  have checked: "wp (CheckBalance E u asset amount) Q (\<lambda>_. wp (bindM (breakerFailure E) (\<lambda>_. fail err)) (\<lambda>_. ?J) (\<lambda>_. ?J)) t"
    if "?J t" "IsZeroTime (cb_openedUntil (rs_breaker t))" for t err Q
  proof (rule CheckBalance_down [OF assms(1)])
    fix n :: nat and calls :: "(string \<times> string) list"
    assume "length calls \<le> Suc (length (rs_ledgerCalls t))"
    then have "wp (breakerFailure E) (\<lambda>_. ?J) (\<lambda>_. ?J) (t\<lparr>ss_step := n, rs_ledgerCalls := calls\<rparr>)"
      using assms(2-4) by (intro breakerFailure_budget [OF that]) simp_all
    then show "wp (bindM (breakerFailure E) (\<lambda>_. fail err)) (\<lambda>_. ?J) (\<lambda>_. ?J) (t\<lparr>ss_step := n, rs_ledgerCalls := calls\<rparr>)"
      unfolding wp_bindM by (rule wp_conseq) simp_all
  qed
  have "wp (breakerAllow E) (\<lambda>ok t. ?J t \<and> (ok \<longrightarrow> IsZeroTime (cb_openedUntil (rs_breaker t)))) (\<lambda>_. ?J) s"
    using assms(2,5) by (intro breakerAllow_budget) auto
  then show ?thesis
    unfolding checkFunds_def by (intro wp_intro_structural, elim wp_conseq) (auto simp del: wp_bindM intro: checked)
qed

text \<open>
  C35: The circuit breaker limits what a failing ledger costs. With a breaker that is fresh, a ledger that fails every call, and a clock that stays
  within one cool-down, any number of pre-trade checks makes at most \<open>threshold\<close> calls of the ledger; \<open>NewRiskService\<close> sets three.
\<close>

theorem breaker_limits_calls:
  assumes "ledgerDown E" "\<forall>n. from \<le> se_clock E n \<and> se_clock E n \<le> from + cb_cooldown (newCircuitBreaker threshold cooldown)" "0 < from"
    and "rs_breaker s = newCircuitBreaker threshold cooldown" "rs_ledgerCalls s = []"
  shows "int (length (rs_ledgerCalls (runChecks E slippageBps reqs s))) \<le> cb_threshold (newCircuitBreaker threshold cooldown)"
proof -
  let ?b = "newCircuitBreaker threshold cooldown"
  let ?J = "budget from (cb_threshold ?b) (cb_cooldown ?b)"
  have pos: "0 < cb_cooldown ?b" by (simp add: newCircuitBreaker_def thirty_seconds_def nanos_per_second_def)
  have "?J s" using assms(4,5) by (simp add: budget_def newCircuitBreaker_def IsZeroTime_def)
  then have "?J (runChecks E slippageBps reqs s)"
  proof (induction reqs arbitrary: s)
    case (Cons req reqs)
    then have "?J (snd (PreTradeCheck E slippageBps req s))"
      by (intro PreTradeCheck_keeps [where J = ?J] checkFunds_budget assms pos) (auto intro: budget_ticked)
    then show ?case using Cons.IH by (simp add: runChecks_def)
  qed (simp add: runChecks_def)
  then show ?thesis by (auto simp: budget_def Let_def split: if_splits)
qed

text \<open>A sale of 3 units, checked against a ledger that answers 5, and checks against a ledger that is down.\<close>

definition sample_risk_env :: "(nat \<Rightarrow> string \<Rightarrow> string \<Rightarrow> go_error + GetBalanceResponse option) \<Rightarrow> int risk_env" where
  "sample_risk_env client = \<lparr>se_fault = (\<lambda>_. False), se_clock = (\<lambda>_. 1000), se_uuid = (\<lambda>n. 100 + of_nat n), se_uniqueErr = UniqueViolation,
     se_uuidString = (\<lambda>u. nat_string (unat u)), se_dec = int_decimal, ae_parseUUID = (\<lambda>s. map_option of_int (parse_int s)), re_ledger = Some client\<rparr>"

definition sample_risk_db :: "int risk_db" where
  "sample_risk_db = \<lparr>k_accounts = [(10, 20, ''active'')], k_users = [(20, ''verified'')],
     k_markets = [\<lparr>mk_ID = 40, mk_Symbol = ''BTC-USD'', mk_BaseAsset = ''BTC'', mk_QuoteAsset = ''USD'', mk_Status = ''active''\<rparr>], k_trades = []\<rparr>"

definition sample_check :: PreTradeCheckRequest where
  "sample_check = \<lparr>pt_AccountId = ''10'', pt_Symbol = ''btc-usd'', pt_Side = ''Sell'', pt_OrderType = ''limit'', pt_Quantity = ''3'', pt_Price = ''7''\<rparr>"

definition sample_ledger_up :: "nat \<Rightarrow> string \<Rightarrow> string \<Rightarrow> go_error + GetBalanceResponse option" where
  "sample_ledger_up n account asset = Inr (Some \<lparr>gb_AccountId = account, gb_Asset = asset, gb_Available = ''5'', gb_Locked = ''0'', gb_UpdatedAt = []\<rparr>)"

definition sample_ledger_down :: "nat \<Rightarrow> string \<Rightarrow> string \<Rightarrow> go_error + GetBalanceResponse option" where
  "sample_ledger_down n account asset = Inl CtxDeadline"


theorem breaker_limits_calls_witness:
  "length (rs_ledgerCalls (runChecks (sample_risk_env sample_ledger_down) 0 (replicate 100 sample_check) (NewRiskService sample_risk_db))) \<le> 3
   \<and> length (rs_ledgerCalls (runChecks (sample_risk_env sample_ledger_down) 0 (replicate 4 sample_check) (NewRiskService sample_risk_db))) = 3"
proof -
  let ?E = "sample_risk_env sample_ledger_down"
  have "ledgerDown ?E" by (simp add: ledgerDown_def sample_risk_env_def sample_ledger_down_def)
  moreover have "\<forall>n. 1000 \<le> se_clock ?E n \<and> se_clock ?E n \<le> 1000 + cb_cooldown (newCircuitBreaker 3 thirty_seconds)"
    by (simp add: sample_risk_env_def newCircuitBreaker_def thirty_seconds_def nanos_per_second_def)
  ultimately have "int (length (rs_ledgerCalls (runChecks ?E 0 (replicate 100 sample_check) (NewRiskService sample_risk_db)))) \<le> 3"
    using breaker_limits_calls [of ?E 1000 3 thirty_seconds "NewRiskService sample_risk_db" 0 "replicate 100 sample_check"]
    by (simp add: NewRiskService_def newCircuitBreaker_def)
  moreover have "length (rs_ledgerCalls (runChecks ?E 0 (replicate 4 sample_check) (NewRiskService sample_risk_db))) = 3" by code_simp
  ultimately show ?thesis by simp
qed

end
