(* ===== verification/Ledger_Client.thy ===== *)
theory Ledger_Client
  imports Ledger_Service
begin

text \<open>
  The ledger as its clients see it: the interface \<open>LedgerClient\<close> of \<^verbatim>\<open>services/order-ingest/internal/service/order_service.go\<close>, two calls that reserve and release
  the funds of an order. The locale \<open>reservations\<close> states what a client may rely on, and the ledger service over its store is shown to
  provide it.
\<close>

section \<open>Interface\<close>

text \<open>A call takes the texts of the request's fields and is a program on the server's state.\<close>

record 'l ledger_client =
  lc_ReserveBalance :: "string \<Rightarrow> string \<Rightarrow> string \<Rightarrow> string \<Rightarrow> ('l, ReserveBalanceResponse) prog"
  lc_ReleaseBalance :: "string \<Rightarrow> ('l, ReleaseBalanceResponse) prog"

text \<open>
  \<open>held l orderID\<close> is what the server holds for an order: the account, the asset and the amount. A granted request holds what was asked for, a
  refused one nothing more than before; after a release, or when there is nothing to release, nothing is held. Whatever a call answers, it
  concerns its own order only.
\<close>

locale reservations =
  fixes client :: "'l ledger_client"
    and uuidText :: "uuid \<Rightarrow> string"
    and decText :: "'d::linordered_idom \<Rightarrow> string"
    and inv :: "'l \<Rightarrow> bool"
    and held :: "'l \<Rightarrow> uuid \<Rightarrow> (uuid \<times> string \<times> 'd) option"
  assumes reserve_keeps: "inv l \<Longrightarrow> lc_ReserveBalance client (uuidText u) (uuidText orderID) a (decText x) l = (r, l')
      \<Longrightarrow> inv l' \<and> (\<forall>o'. o' \<noteq> orderID \<longrightarrow> held l' o' = held l o')"
    and reserve_granted: "inv l \<Longrightarrow> lc_ReserveBalance client (uuidText u) (uuidText orderID) a (decText x) l = (Inr resp, l') \<Longrightarrow> held l orderID = None
      \<Longrightarrow> held l' orderID = Some (u, ToUpper (TrimSpace a), x)"
    and reserve_refused: "inv l \<Longrightarrow> lc_ReserveBalance client (uuidText u) (uuidText orderID) a (decText x) l = (Inl e, l')
      \<Longrightarrow> status_FromError e = Some FailedPrecondition \<Longrightarrow> held l' orderID = held l orderID"
    and release_keeps: "inv l \<Longrightarrow> lc_ReleaseBalance client (uuidText orderID) l = (r', l')
      \<Longrightarrow> inv l' \<and> (\<forall>o'. o' \<noteq> orderID \<longrightarrow> held l' o' = held l o')"
    and release_granted: "inv l \<Longrightarrow> lc_ReleaseBalance client (uuidText orderID) l = (Inr resp', l') \<Longrightarrow> held l' orderID = None"
    and release_absent: "inv l \<Longrightarrow> lc_ReleaseBalance client (uuidText orderID) l = (Inl e, l')
      \<Longrightarrow> status_FromError e = Some NotFound \<Longrightarrow> held l' orderID = None"

section \<open>The ledger service provides it\<close>

definition ledgerClient :: "'d::linordered_idom service_env \<Rightarrow> 'd store_env \<Rightarrow> 'd store_state ledger_client" where
  "ledgerClient V E =
     \<lparr>lc_ReserveBalance = LedgerService_ReserveBalance V (ledgerStore E), lc_ReleaseBalance = LedgerService_ReleaseBalance V (ledgerStore E)\<rparr>"

text \<open>Funds are held while the reservation is active.\<close>

definition heldFor :: "'d::linordered_idom store_state \<Rightarrow> uuid \<Rightarrow> (uuid \<times> string \<times> 'd) option" where
  "heldFor s orderID =
     (case reservation_for (ss_db s) orderID of
        None \<Rightarrow> None
      | Some r \<Rightarrow> if br_Status r = ''active'' then Some (br_AccountID r, ToUpper (br_Asset r), br_Amount r - br_ConsumedAmount r) else None)"

text \<open>
  The texts of the requests can be read back, and the driver's error for a violated constraint is none of the errors the store itself declares.
\<close>

definition request_texts :: "'d::linordered_idom service_env \<Rightarrow> bool" where
  "request_texts V \<longleftrightarrow> plain_text (sv_dec V) \<and> (\<forall>u. TrimSpace (sv_uuidString V u) = sv_uuidString V u \<and> sv_parseUUID V (sv_uuidString V u) = Some u)"

definition driver_errors :: "'d store_env \<Rightarrow> bool" where
  "driver_errors E \<longleftrightarrow> (\<forall>m. \<not> errors_Is (se_uniqueErr E) (Sentinel m))"

text \<open>Only a missing reservation is answered with \<open>ErrReservationNotFound\<close>.\<close>

lemma wp_getOrCreate_errors:
  assumes "exact_text (se_dec E)" and "\<And>acct t. Q acct t" and "\<And>t. X DBErr t" "\<And>t. X NoRows t" "\<And>t. X (se_uniqueErr E) t"
  shows "wp (getOrCreateLedgerAccountForUpdate E u a) Q X s"
  using assms(1) unfolding getOrCreateLedgerAccountForUpdate_def getLedgerAccountForUpdate_def
  by (intro wp_intro_structural wp_if wp_txStmt)
     (auto simp: sql_ledger_account_def sql_insert_ledger_account_def Let_def intro: assms(2-5) split: option.splits if_splits)

lemma wp_updateReservation_errors:
  assumes "\<And>t. Q () t" and "\<And>t. X DBErr t"
  shows "wp (updateReservation E r c st) Q X s"
  unfolding updateReservation_def
  by (intro wp_intro_structural wp_steps wp_txStmt) (auto simp: sql_update_reservation_def Let_def intro: assms split: if_splits)

lemma ReleaseReservation_NotFound:
  assumes "exact_text (se_dec E)" and "driver_errors E"
  shows "wp (ReleaseReservation E orderID) (\<lambda>_ _. True) (\<lambda>e t. errors_Is e ErrReservationNotFound \<longrightarrow> reservation_for (ss_db s) orderID = None) s"
  unfolding ReleaseReservation_def Let_def
  apply (intro wp_withTx_errors wp_intro_structural wp_if wp_getReservationForUpdate wp_getOrCreate_errors wp_updateReservation_errors wp_steps
      wp_txStmt tx_postI assms(1) TrueI)
  using assms(2) apply (auto simp: ErrReservationNotFound_def driver_errors_def sql_update_balances_def)
  done

text \<open>What a request for funds does to the tables: nothing, or exactly the reservation; and nothing when it is refused.\<close>

lemma request_texts_parse [simp]:
  assumes "request_texts V"
  shows "parseUUID V (sv_uuidString V u) field = (if sv_uuidString V u = [] then Inl (Errorf (field @ '' is required'') []) else Inr u)"
    and "parsePositiveDecimal V (DecString (sv_dec V) x) field = (if DecString (sv_dec V) x = [] then Inl (Errorf (field @ '' is required'') [])
      else if x \<le> 0 then Inl (Errorf (field @ '' must be positive'') []) else Inr x)"
  using assms by (simp_all add: request_texts_def parseUUID_def parsePositiveDecimal_def)

lemma wp_reserve_call:
  assumes "request_texts V" and "env_ok E" and "store_inv s"
  shows "wp (LedgerService_ReserveBalance V (ledgerStore E) (sv_uuidString V u) (sv_uuidString V orderID) a (DecString (sv_dec V) x))
     (\<lambda>_ t. \<exists>r. reserves u orderID (ToUpper (TrimSpace a)) x (ss_db s) r (ss_db t))
     (\<lambda>e t. ss_db t = ss_db s \<or> (\<exists>m r. e = StatusErr Internal m \<and> reserves u orderID (ToUpper (TrimSpace a)) x (ss_db s) r (ss_db t))) s"
proof -
  have res: "wp (ReserveBalance E u orderID (TrimSpace a) x) (\<lambda>r t. reserves u orderID (ToUpper (TrimSpace a)) x (ss_db s) r (ss_db t)) (\<lambda>e t. ss_db t = ss_db s) s" for u orderID x
    using wp_ReserveBalance [of E s u orderID "TrimSpace a" x] assms(2,3) by (simp add: env_ok_def store_inv_def)
  have get: "wp (GetBalance E u b) Q X t"
    if "\<And>r t'. ss_db t' = ss_db t \<Longrightarrow> Q r t'" "\<And>e t'. ss_db t' = ss_db t \<Longrightarrow> X e t'" for u b Q X t
    using reads_store(1) [of E u b] that by (auto simp: reads_def intro!: wp_I)
  show ?thesis
    unfolding LedgerService_ReserveBalance_def Let_def request_texts_parse [OF assms(1)]
    apply (intro wp_orInvalid wp_intro_structural wp_if)
    apply (simp_all split: if_splits del: wp_attempt)
    apply (rule wp_conseq [OF res])
    subgoal unfolding wp_attempt by (intro get) auto
    subgoal by simp
    done
qed

lemma wp_release_call:
  assumes "request_texts V" and "env_ok E" and "driver_errors E" and "store_inv s"
  shows "wp (LedgerService_ReleaseBalance V (ledgerStore E) (sv_uuidString V orderID))
     (\<lambda>_ t. \<exists>r0 released. releases orderID (ss_db s) r0 released (ss_db t))
     (\<lambda>e t. ss_db t = ss_db s \<and> (status_FromError e = Some NotFound \<longrightarrow> reservation_for (ss_db s) orderID = None)) s"
proof -
  have rel: "wp (ReleaseReservation E orderID) (\<lambda>p t. \<exists>r0. releases orderID (ss_db s) r0 (snd p) (ss_db t))
    (\<lambda>e t. ss_db t = ss_db s \<and> (errors_Is e ErrReservationNotFound \<longrightarrow> reservation_for (ss_db s) orderID = None)) s" for orderID
    using wp_ReleaseReservation [of E s orderID] ReleaseReservation_NotFound [of E orderID s] assms(2-4)
    by (auto simp: wp_def env_ok_def store_inv_def split: prod.splits sum.splits)
  show ?thesis
    unfolding LedgerService_ReleaseBalance_def Let_def request_texts_parse [OF assms(1)] split_beta
    apply (intro wp_orInvalid wp_intro_structural)
    apply (simp_all split: if_splits del: wp_attempt)
    apply (rule wp_conseq [OF rel])
    apply auto
    done
qed

lemma heldFor_reserves:
  assumes "reserves u orderID a x (ss_db s) r (ss_db t)" and "ToUpper a = a"
  shows "heldFor s orderID = None \<Longrightarrow> heldFor t orderID = Some (u, a, x)" and "o' \<noteq> orderID \<Longrightarrow> heldFor t o' = heldFor s o'"
  using assms by (auto simp: reserves_def heldFor_def split: if_splits option.splits)

lemma heldFor_releases:
  assumes "releases orderID (ss_db s) r0 released (ss_db t)"
  shows "heldFor t orderID = None" and "o' \<noteq> orderID \<Longrightarrow> heldFor t o' = heldFor s o'"
proof -
  have "map_option br_Status (reservation_for (ss_db t) orderID) = Some (if released = 0 then ''consumed'' else ''released'')"
    using assms unfolding releases_def Let_def split_beta by (cases "reservation_for (ss_db t) orderID") simp_all
  then show "heldFor t orderID = None" by (auto simp: heldFor_def split: option.split if_splits)
  show "o' \<noteq> orderID \<Longrightarrow> heldFor t o' = heldFor s o'"
    using assms unfolding releases_def Let_def split_beta heldFor_def by (simp only: simp_thms)
qed

lemma heldFor_db: "ss_db t = ss_db s \<Longrightarrow> heldFor t = heldFor s"
  by (simp add: heldFor_def fun_eq_iff)

definition clientReady :: "'d::linordered_idom service_env \<Rightarrow> 'd store_env \<Rightarrow> 'd store_state \<Rightarrow> bool" where
  "clientReady V E s \<longleftrightarrow> request_texts V \<and> env_ok E \<and> driver_errors E \<and> store_inv s"

lemma served_inv: "served view (\<lambda>s t. P \<and> sound_step s t) m s \<Longrightarrow> m s = (r, t) \<Longrightarrow> store_inv t"
  by (auto simp: served_def wp_def sound_step_def split: sum.splits)

interpretation ledger_funds: reservations "ledgerClient V E" "sv_uuidString V" "DecString (sv_dec V)" "clientReady V E" heldFor for V E
proof (unfold_locales, goal_cases)
  case (1 l u orderID a x r l')
  then have "store_inv l'"
    by (auto simp: clientReady_def ledgerClient_def intro: served_inv [OF ledger.ReserveBalance_served])
  moreover have "\<forall>o'. o' \<noteq> orderID \<longrightarrow> heldFor l' o' = heldFor l o'"
    using 1 wp_reserve_call [of V E l u orderID a x] heldFor_reserves(2) [of u orderID "ToUpper (TrimSpace a)" x l _ l'] heldFor_db [of l' l]
    by (cases r) (auto simp: clientReady_def ledgerClient_def wp_def)
  ultimately show ?case using 1 by (simp add: clientReady_def)
next
  case (2 l u orderID a x resp l')
  have "\<exists>r. reserves u orderID (ToUpper (TrimSpace a)) x (ss_db l) r (ss_db l')"
    by (rule wp_Inr [OF wp_reserve_call]) (use 2 in \<open>simp_all add: clientReady_def ledgerClient_def\<close>)
  then obtain r where r: "reserves u orderID (ToUpper (TrimSpace a)) x (ss_db l) r (ss_db l')" ..
  show ?case by (rule heldFor_reserves(1) [OF r]) (simp_all add: 2(3))
next
  case (3 l u orderID a x e l')
  then show ?case
    using wp_reserve_call [of V E l u orderID a x] heldFor_db [of l' l] by (auto simp: clientReady_def ledgerClient_def wp_def)
next
  case (4 l orderID r l')
  then have "store_inv l'"
    by (auto simp: clientReady_def ledgerClient_def intro: served_inv [OF ledger.ReleaseBalance_served])
  moreover have "\<forall>o'. o' \<noteq> orderID \<longrightarrow> heldFor l' o' = heldFor l o'"
    using 4 wp_release_call [of V E l orderID] heldFor_releases(2) [of orderID l _ _ l'] heldFor_db [of l' l]
    by (cases r) (auto simp: clientReady_def ledgerClient_def wp_def)
  ultimately show ?case using 4 by (simp add: clientReady_def)
next
  case (5 l orderID resp l')
  then show ?case
    using wp_release_call [of V E l orderID] heldFor_releases(1) [of orderID l _ _ l'] by (auto simp: clientReady_def ledgerClient_def wp_def)
next
  case (6 l orderID e l')
  then show ?case
    using wp_release_call [of V E l orderID] heldFor_db [of l' l] by (auto simp: clientReady_def ledgerClient_def wp_def heldFor_def)
qed

end
