(* ===== verification/Order_Ingest.thy ===== *)
theory Order_Ingest
  imports Order_Store Risk_Service Ledger_Client Kafka
begin

text \<open>
  The order ingest service, \<^verbatim>\<open>services/order-ingest/internal/service/order_service.go\<close>: it submits orders after a risk check and a
  reservation of the funds in the ledger, cancels them, and publishes what became of them. The ledger is a client with a state
  of its own, reached over calls that may be lost. The lemmas show which orders are accepted, that no answer leaves a reservation
  behind that no order needs, and that retries are safe.
\<close>

section \<open>Data\<close>

definition statusAccepted :: string where "statusAccepted = ''accepted''"
definition statusRejected :: string where "statusRejected = ''rejected''"

definition ErrAccountNotFound :: go_error where
  "ErrAccountNotFound = Sentinel ''account not found''"

record Topics =
  tp_OrdersAccepted :: string
  tp_OrdersRejected :: string
  tp_OrdersCancelled :: string

record 'd SubmitOrderInput =
  si_UserID :: uuid
  si_ClientOrderID :: string
  si_Symbol :: string
  si_Side :: string
  si_OrderType :: string
  si_TimeInForce :: string
  si_Quantity :: 'd
  si_Price :: "'d option"
  si_IP :: string
  si_UserAgent :: string
  si_CorrelationID :: string

record 'd SubmitOrderResult =
  sr_Order :: "'d StoredOrder"
  sr_Status :: string
  sr_Reasons :: "string list"
  sr_Details :: "(string \<times> string) list"
  sr_Existing :: bool

record CancelOrderInput =
  ci_UserID :: uuid
  ci_OrderID :: uuid
  ci_IP :: string
  ci_UserAgent :: string
  ci_CorrelationID :: string

text \<open>The payloads of the events.\<close>

record AcceptedPayload =
  ap_Envelope :: Envelope
  ap_OrderID :: string
  ap_ClientOrderID :: string
  ap_AccountID :: string
  ap_Symbol :: string
  ap_Side :: string
  ap_Type :: string
  ap_Price :: string
  ap_Quantity :: string
  ap_TimeInForce :: string
  ap_Status :: string
  ap_CreatedAt :: string

record RejectedPayload =
  rp_Envelope :: Envelope
  rp_OrderID :: string
  rp_ClientOrderID :: string
  rp_AccountID :: string
  rp_Symbol :: string
  rp_Side :: string
  rp_Type :: string
  rp_Price :: string
  rp_Quantity :: string
  rp_TimeInForce :: string
  rp_Status :: string
  rp_Reasons :: "string list"
  rp_RejectedAt :: string

record CancelledPayload =
  cp_Envelope :: Envelope
  cp_OrderID :: string
  cp_ClientOrderID :: string
  cp_AccountID :: string
  cp_Symbol :: string
  cp_Status :: string
  cp_CancelledAt :: string

datatype order_payload = PAccepted AcceptedPayload | PRejected RejectedPayload | PCancelled CancelledPayload

section \<open>Clients and state\<close>

text \<open>
  The generated ledger client calls an operation of the ledger's server, a program on the server's state. A call with a deadline may be delivered, or
  its request or its response may be lost; the caller of a lost call gets \<open>DeadlineExceeded\<close>.
\<close>

datatype rpc_outcome = Delivered | RequestLost | ResponseLost

datatype ingest_call =
    RiskCall PreTradeCheckRequest
  | ReserveCall string string string string
  | ReleaseCall string

text \<open>
  \<open>None\<close> stands for a nil client or producer. The state holds the store, the ledger's server, the producer and the calls made.
\<close>

record ('d, 'l, 'p) ingest_env = "'d api_env" +
  ie_risk :: "(nat \<Rightarrow> PreTradeCheckRequest \<Rightarrow> go_error + PreTradeCheckResponse) option"
  ie_ledger :: "'l ledger_client option"
  ie_rpc :: "nat \<Rightarrow> rpc_outcome"
  ie_publish :: "('p, order_payload) publish option"
  ie_sha1 :: "string \<Rightarrow> string"
  ie_topics :: Topics
  ie_slippageBps :: int

record ('d, 'l, 'p) ingest_state =
  is_store :: "'d order_db sql_state"
  is_ledger :: 'l
  is_producer :: 'p
  is_calls :: "ingest_call list"

type_synonym ('d, 'l, 'p, 'a) ingest_prog = "(('d, 'l, 'p) ingest_state, 'a) prog"

definition atStore :: "('d order_db sql_state, 'a) prog \<Rightarrow> ('d, 'l, 'p, 'a) ingest_prog" where
  "atStore m st = (case m (is_store st) of (r, s) \<Rightarrow> (r, st\<lparr>is_store := s\<rparr>))"

definition tick :: "('d, 'l, 'p) ingest_state \<Rightarrow> ('d, 'l, 'p) ingest_state" where
  "tick st = st\<lparr>is_store := (is_store st)\<lparr>ss_step := Suc (ss_step (is_store st))\<rparr>\<rparr>"

definition callRisk ::
  "(nat \<Rightarrow> PreTradeCheckRequest \<Rightarrow> go_error + PreTradeCheckResponse) \<Rightarrow> PreTradeCheckRequest \<Rightarrow> ('d, 'l, 'p, PreTradeCheckResponse) ingest_prog" where
  "callRisk client req st = (client (ss_step (is_store st)) req, (tick st)\<lparr>is_calls := is_calls st @ [RiskCall req]\<rparr>)"

definition deadlineExceeded :: go_error where
  "deadlineExceeded = StatusErr DeadlineExceeded ''context deadline exceeded''"

definition callLedgerServer ::
  "('d, 'l, 'p) ingest_env \<Rightarrow> ingest_call \<Rightarrow> ('l, 'a) prog \<Rightarrow> ('d, 'l, 'p, 'a) ingest_prog" where
  "callLedgerServer E call op st =
     (let st1 = (tick st)\<lparr>is_calls := is_calls st @ [call]\<rparr> in
      case ie_rpc E (ss_step (is_store st)) of
        Delivered \<Rightarrow> (case op (is_ledger st) of (r, l) \<Rightarrow> (r, st1\<lparr>is_ledger := l\<rparr>))
      | ResponseLost \<Rightarrow> (Inl deadlineExceeded, st1\<lparr>is_ledger := snd (op (is_ledger st))\<rparr>)
      | RequestLost \<Rightarrow> (Inl deadlineExceeded, st1))"

section \<open>Helpers\<close>

definition optionalDecimal :: "'d decimal_ops \<Rightarrow> 'd option \<Rightarrow> string" where
  "optionalDecimal D val = (case val of None \<Rightarrow> [] | Some v \<Rightarrow> DecString D v)"

definition responseStatus :: "string \<Rightarrow> string" where
  "responseStatus status =
     (if status = OrderStatusPending \<or> status = OrderStatusOpen then statusAccepted
      else if status = OrderStatusRejected then statusRejected
      else status)"

definition ingest_splitSymbol :: "string \<Rightarrow> go_error + string \<times> string" where
  "ingest_splitSymbol symbol =
     (case Split (ToUpper (TrimSpace symbol)) CHR ''-'' of
        [base, quote] \<Rightarrow> Inr (base, quote) | _ \<Rightarrow> Inl (Errorf ''invalid symbol'' []))"

definition OrderService_marketBuyReferencePrice :: "('d::linordered_idom, 'l, 'p) ingest_env \<Rightarrow> string \<Rightarrow> ('d, 'l, 'p, 'd) ingest_prog" where
  "OrderService_marketBuyReferencePrice E symbol =
     bindM (atStore (OrderStore_GetLastTradePrice E symbol)) (\<lambda>price.
     if price \<le> 0 then fail (Errorf ''invalid reference price'' [])
     else
       (let slippage = DecDiv (se_dec E) (of_int (ie_slippageBps E)) (of_int 10000); factor = 1 + slippage in
        ret (price * factor)))"

definition releaseReservation :: "('d, 'l, 'p) ingest_env \<Rightarrow> uuid \<Rightarrow> ('d, 'l, 'p, unit) ingest_prog" where
  "releaseReservation E orderID =
     (case ie_ledger E of
        None \<Rightarrow> ret ()
      | Some ledger \<Rightarrow>
          (let text = se_uuidString E orderID in
           attempt (callLedgerServer E (ReleaseCall text) (lc_ReleaseBalance ledger text))
             (\<lambda>err. if status_FromError err = Some NotFound then ret () else fail err)
             (\<lambda>_. ret ())))"

text \<open>The asset and amount an order needs; \<open>None\<close> when no funds are checked.\<close>

definition orderFunds ::
  "('d::linordered_idom, 'l, 'p) ingest_env \<Rightarrow> string \<Rightarrow> string \<Rightarrow> string \<Rightarrow> 'd \<Rightarrow> 'd option
    \<Rightarrow> ('d, 'l, 'p, (string \<times> 'd) option) ingest_prog" where
  "orderFunds E rawSide rawType symbol quantity price =
     (case ingest_splitSymbol symbol of
        Inl _ \<Rightarrow> ret None
      | Inr (base, quote) \<Rightarrow>
          (let side = ToLower (TrimSpace rawSide); orderType = ToLower (TrimSpace rawType) in
           if side = ''sell'' then ret (Some (base, quantity))
           else if side = ''buy'' then
             (if orderType = ''market'' then
                attempt (OrderService_marketBuyReferencePrice E symbol)
                  (\<lambda>_. fail (StatusErr FailedPrecondition ''market price unavailable''))
                  (\<lambda>refPrice. ret (Some (quote, quantity * refPrice)))
              else case price of
                  None \<Rightarrow> fail (StatusErr InvalidArgument ''price is required for buy orders'')
                | Some p \<Rightarrow> ret (Some (quote, quantity * p)))
           else ret None))"

definition checkLedgerBalance ::
  "('d::linordered_idom, 'l, 'p) ingest_env \<Rightarrow> uuid \<Rightarrow> uuid \<Rightarrow> string \<Rightarrow> string \<Rightarrow> string \<Rightarrow> 'd \<Rightarrow> 'd option
    \<Rightarrow> ('d, 'l, 'p, bool \<times> (string \<times> string) list) ingest_prog" where
  "checkLedgerBalance E orderID accountID side orderType symbol quantity price =
     (case ie_ledger E of
        None \<Rightarrow> ret (True, [])
      | Some ledger \<Rightarrow>
          bindM (orderFunds E side orderType symbol quantity price) (\<lambda>funds.
          case funds of
            None \<Rightarrow> ret (True, [])
          | Some (asset, required) \<Rightarrow>
              if required \<le> 0 then fail (StatusErr InvalidArgument ''required amount must be positive'')
              else
                (let account = se_uuidString E accountID; order = se_uuidString E orderID; amount = DecString (se_dec E) required in
                 attempt (callLedgerServer E (ReserveCall account order asset amount) (lc_ReserveBalance ledger account order asset amount))
                   (\<lambda>err.
                     if status_FromError err = Some FailedPrecondition
                     then ret (False, [(''required_asset'', asset), (''required_amount'', amount)])
                     else fail err)
                   (\<lambda>resp. ret (True, [(''required_asset'', asset), (''required_amount'', amount),
                      (''available'', TrimSpace (rb_Available resp)), (''locked'', TrimSpace (rb_Locked resp))])))))"

definition insertAudit :: "('d, 'l, 'p) ingest_env \<Rightarrow> uuid \<Rightarrow> string \<Rightarrow> string \<Rightarrow> uuid \<Rightarrow> string \<Rightarrow> string \<Rightarrow> ('d, 'l, 'p, unit) ingest_prog" where
  "insertAudit E userID action entityType entityID ip userAgent =
     attempt (atStore (InsertAudit E
         \<lparr>al_ActorID = userID, al_ActorType = ''user'', al_Action = action, al_EntityType = entityType, al_EntityID = Some entityID,
          al_IP = ip, al_UserAgent = userAgent\<rparr>))
       (\<lambda>_. ret ()) ret"

text \<open>Publishing: a failure is logged and not returned.\<close>

definition publishOrder ::
  "('d, 'l, 'p) ingest_env \<Rightarrow> string \<Rightarrow> string \<Rightarrow> string \<Rightarrow> 'd StoredOrder \<Rightarrow> (Envelope \<Rightarrow> order_payload) \<Rightarrow> ('d, 'l, 'p, unit) ingest_prog" where
  "publishOrder E eventType topic correlationID order payload =
     (case ie_publish E of
        None \<Rightarrow> ret ()
      | Some publish \<Rightarrow>
          bindM (atStore (Now E)) (\<lambda>now.
          case NewEnvelopeWithID now (DeterministicEventID (ie_sha1 E) [eventType, se_uuidString E (so_ID order)]) eventType 1 correlationID of
            Inl _ \<Rightarrow> ret ()
          | Inr env \<Rightarrow> (\<lambda>st. (Inr (), st\<lparr>is_producer := snd (publish (is_producer st) topic (so_Symbol order) (payload env))\<rparr>))))"

definition acceptedPayload :: "('d, 'l, 'p) ingest_env \<Rightarrow> 'd StoredOrder \<Rightarrow> Envelope \<Rightarrow> AcceptedPayload" where
  "acceptedPayload E order env =
     \<lparr>ap_Envelope = env, ap_OrderID = se_uuidString E (so_ID order), ap_ClientOrderID = so_ClientOrderID order,
      ap_AccountID = se_uuidString E (so_AccountID order), ap_Symbol = so_Symbol order, ap_Side = so_Side order, ap_Type = so_Type order,
      ap_Price = optionalDecimal (se_dec E) (so_Price order), ap_Quantity = DecString (se_dec E) (so_Quantity order),
      ap_TimeInForce = so_TimeInForce order, ap_Status = so_Status order, ap_CreatedAt = FormatRFC3339 (so_CreatedAt order)\<rparr>"

definition publishOrderAccepted :: "('d, 'l, 'p) ingest_env \<Rightarrow> string \<Rightarrow> 'd StoredOrder \<Rightarrow> ('d, 'l, 'p, unit) ingest_prog" where
  "publishOrderAccepted E correlationID order =
     publishOrder E ''orders.accepted'' (tp_OrdersAccepted (ie_topics E)) correlationID order (\<lambda>env. PAccepted (acceptedPayload E order env))"

definition publishOrderRejected :: "('d, 'l, 'p) ingest_env \<Rightarrow> string \<Rightarrow> 'd StoredOrder \<Rightarrow> string list \<Rightarrow> ('d, 'l, 'p, unit) ingest_prog" where
  "publishOrderRejected E correlationID order reasons =
     publishOrder E ''orders.rejected'' (tp_OrdersRejected (ie_topics E)) correlationID order
       (\<lambda>env. PRejected \<lparr>rp_Envelope = env, rp_OrderID = se_uuidString E (so_ID order), rp_ClientOrderID = so_ClientOrderID order,
          rp_AccountID = se_uuidString E (so_AccountID order), rp_Symbol = so_Symbol order, rp_Side = so_Side order, rp_Type = so_Type order,
          rp_Price = optionalDecimal (se_dec E) (so_Price order), rp_Quantity = DecString (se_dec E) (so_Quantity order),
          rp_TimeInForce = so_TimeInForce order, rp_Status = so_Status order, rp_Reasons = reasons,
          rp_RejectedAt = FormatRFC3339 (so_UpdatedAt order)\<rparr>)"

definition publishOrderCancelled :: "('d, 'l, 'p) ingest_env \<Rightarrow> string \<Rightarrow> 'd StoredOrder \<Rightarrow> ('d, 'l, 'p, unit) ingest_prog" where
  "publishOrderCancelled E correlationID order =
     publishOrder E ''orders.cancelled'' (tp_OrdersCancelled (ie_topics E)) correlationID order
       (\<lambda>env. PCancelled \<lparr>cp_Envelope = env, cp_OrderID = se_uuidString E (so_ID order), cp_ClientOrderID = so_ClientOrderID order,
          cp_AccountID = se_uuidString E (so_AccountID order), cp_Symbol = so_Symbol order, cp_Status = so_Status order,
          cp_CancelledAt = FormatRFC3339 (so_UpdatedAt order)\<rparr>)"

section \<open>Submitting\<close>

definition accountForUser :: "('d, 'l, 'p) ingest_env \<Rightarrow> uuid \<Rightarrow> ('d, 'l, 'p, uuid) ingest_prog" where
  "accountForUser E userID =
     attempt (atStore (GetAccountIDForUser E userID))
       (\<lambda>err. if errors_Is err ErrOrderStoreNotFound then fail ErrAccountNotFound else fail err) ret"

definition existingResult :: "'d StoredOrder \<Rightarrow> 'd SubmitOrderResult" where
  "existingResult order = \<lparr>sr_Order = order, sr_Status = responseStatus (so_Status order), sr_Reasons = [], sr_Details = [], sr_Existing = True\<rparr>"

text \<open>A refused order is stored as rejected; the event and the audit entry are only written for a new row.\<close>

definition rejectOrder ::
  "('d::linordered_idom, 'l, 'p) ingest_env \<Rightarrow> 'd SubmitOrderInput \<Rightarrow> 'd StoredOrder \<Rightarrow> string list \<Rightarrow> (string \<times> string) list
    \<Rightarrow> ('d, 'l, 'p, 'd SubmitOrderResult) ingest_prog" where
  "rejectOrder E input order reasons details =
     bindM (atStore (CreateOrder E (order\<lparr>so_Status := OrderStatusRejected\<rparr>))) (\<lambda>(stored, created).
     bindM (if created then
              bindM (publishOrderRejected E (si_CorrelationID input) stored reasons) (\<lambda>_.
              insertAudit E (si_UserID input) ''orders.reject'' ''order'' (so_ID stored) (si_IP input) (si_UserAgent input))
            else ret ()) (\<lambda>_.
     ret \<lparr>sr_Order = stored, sr_Status = statusRejected, sr_Reasons = reasons, sr_Details = details, sr_Existing = False\<rparr>))"

text \<open>An order whose funds are reserved is stored as pending; when it is not new or cannot be stored, its reservation is released.\<close>

definition acceptOrder ::
  "('d::linordered_idom, 'l, 'p) ingest_env \<Rightarrow> 'd SubmitOrderInput \<Rightarrow> 'd StoredOrder \<Rightarrow> ('d, 'l, 'p, 'd SubmitOrderResult) ingest_prog" where
  "acceptOrder E input order =
     (let reserved = (ie_ledger E \<noteq> None) in
      attempt (atStore (CreateOrder E (order\<lparr>so_Status := OrderStatusPending\<rparr>)))
        (\<lambda>err. bindM (if reserved then releaseReservation E (so_ID order) else ret ()) (\<lambda>_. fail err))
        (\<lambda>(stored, created).
          if \<not> created then
            bindM (if reserved then releaseReservation E (so_ID order) else ret ()) (\<lambda>_. ret (existingResult stored))
          else
            bindM (publishOrderAccepted E (si_CorrelationID input) stored) (\<lambda>_.
            bindM (insertAudit E (si_UserID input) ''orders.create'' ''order'' (so_ID stored) (si_IP input) (si_UserAgent input)) (\<lambda>_.
            ret \<lparr>sr_Order = stored, sr_Status = statusAccepted, sr_Reasons = [], sr_Details = [], sr_Existing = False\<rparr>))))"

definition newOrder :: "('d::linordered_idom, 'l, 'p) ingest_env \<Rightarrow> 'd SubmitOrderInput \<Rightarrow> uuid \<Rightarrow> string \<Rightarrow> uuid \<Rightarrow> 'd StoredOrder" where
  "newOrder E input orderID clientOrderID accountID =
     (let effectiveType = ToLower (TrimSpace (si_OrderType input)); effectiveTIF = ToUpper (TrimSpace (si_TimeInForce input)) in
      \<lparr>so_ID = orderID, so_ClientOrderID = clientOrderID, so_AccountID = accountID, so_Symbol = si_Symbol input, so_Side = si_Side input,
       so_Type = effectiveType, so_Price = (if effectiveType = ''market'' then None else si_Price input), so_Quantity = si_Quantity input,
       so_FilledQuantity = 0, so_Status = [], so_TimeInForce = (if effectiveTIF = [] then ''GTC'' else effectiveTIF),
       so_CreatedAt = 0, so_UpdatedAt = 0\<rparr>)"

definition riskRequest :: "('d, 'l, 'p) ingest_env \<Rightarrow> 'd StoredOrder \<Rightarrow> PreTradeCheckRequest" where
  "riskRequest E order =
     \<lparr>pt_AccountId = se_uuidString E (so_AccountID order), pt_Symbol = so_Symbol order, pt_Side = so_Side order, pt_OrderType = so_Type order,
      pt_Quantity = DecString (se_dec E) (so_Quantity order), pt_Price = optionalDecimal (se_dec E) (so_Price order)\<rparr>"

definition submitNew ::
  "('d::linordered_idom, 'l, 'p) ingest_env \<Rightarrow> (nat \<Rightarrow> PreTradeCheckRequest \<Rightarrow> go_error + PreTradeCheckResponse) \<Rightarrow> 'd SubmitOrderInput \<Rightarrow> uuid \<Rightarrow> string
    \<Rightarrow> ('d, 'l, 'p, 'd SubmitOrderResult) ingest_prog" where
  "submitNew E risk input accountID clientOrderID =
     bindM (atStore (NewUUID E)) (\<lambda>orderID.
     let order = newOrder E input orderID clientOrderID accountID in
     bindM (callRisk risk (riskRequest E order)) (\<lambda>riskResp.
     if \<not> pr_Allowed riskResp then rejectOrder E input order (pr_Reasons riskResp) (pr_Details riskResp)
     else
       bindM (checkLedgerBalance E orderID accountID (si_Side input) (so_Type order) (si_Symbol input) (si_Quantity input) (so_Price order))
         (\<lambda>(ledgerOK, ledgerDetails).
       if \<not> ledgerOK then rejectOrder E input order [''insufficient_balance''] ledgerDetails
       else acceptOrder E input order)))"

definition SubmitOrder :: "('d::linordered_idom, 'l, 'p) ingest_env \<Rightarrow> 'd SubmitOrderInput \<Rightarrow> ('d, 'l, 'p, 'd SubmitOrderResult) ingest_prog" where
  "SubmitOrder E input =
     (case ie_risk E of
        None \<Rightarrow> fail (Errorf ''risk client not configured'' [])
      | Some risk \<Rightarrow>
          bindM (accountForUser E (si_UserID input)) (\<lambda>accountID.
          let clientOrderID = TrimSpace (si_ClientOrderID input) in
          if clientOrderID \<noteq> [] then
            attempt (atStore (GetOrderByClientID E accountID clientOrderID))
              (\<lambda>err. if \<not> errors_Is err ErrOrderStoreNotFound then fail err else submitNew E risk input accountID clientOrderID)
              (\<lambda>existing. ret (existingResult existing))
          else bindM (atStore (NewUUID E)) (\<lambda>fresh. submitNew E risk input accountID (se_uuidString E fresh))))"

section \<open>Cancelling and reading\<close>

definition finishCancel :: "('d::linordered_idom, 'l, 'p) ingest_env \<Rightarrow> CancelOrderInput \<Rightarrow> 'd StoredOrder \<Rightarrow> ('d, 'l, 'p, 'd StoredOrder) ingest_prog" where
  "finishCancel E input order =
     bindM (releaseReservation E (so_ID order)) (\<lambda>_.
     bindM (publishOrderCancelled E (ci_CorrelationID input) order) (\<lambda>_.
     bindM (insertAudit E (ci_UserID input) ''orders.cancel'' ''order'' (so_ID order) (ci_IP input) (ci_UserAgent input)) (\<lambda>_.
     ret order)))"

definition OrderService_CancelOrder :: "('d::linordered_idom, 'l, 'p) ingest_env \<Rightarrow> CancelOrderInput \<Rightarrow> ('d, 'l, 'p, 'd StoredOrder) ingest_prog" where
  "OrderService_CancelOrder E input =
     bindM (accountForUser E (ci_UserID input)) (\<lambda>accountID.
     attempt (atStore (OrderStore_CancelOrder E (ci_OrderID input) accountID))
       (\<lambda>err.
         if errors_Is err ErrInvalidStatus then
           attempt (atStore (GetOrderByID E (ci_OrderID input)))
             (\<lambda>_. fail err)
             (\<lambda>existing. if so_AccountID existing = accountID \<and> so_Status existing = OrderStatusCancelled then finishCancel E input existing else fail err)
         else fail err)
       (finishCancel E input))"

definition OrderService_ListOrders :: "('d, 'l, 'p) ingest_env \<Rightarrow> uuid \<Rightarrow> OrderFilter \<Rightarrow> ('d, 'l, 'p, 'd StoredOrder list \<times> string) ingest_prog" where
  "OrderService_ListOrders E userID f =
     bindM (accountForUser E userID) (\<lambda>accountID. atStore (ListOrders E accountID f))"

definition OrderService_GetOrder :: "('d, 'l, 'p) ingest_env \<Rightarrow> uuid \<Rightarrow> uuid \<Rightarrow> ('d, 'l, 'p, 'd StoredOrder) ingest_prog" where
  "OrderService_GetOrder E userID orderID =
     bindM (accountForUser E userID) (\<lambda>accountID.
     bindM (atStore (GetOrderByID E orderID)) (\<lambda>order.
     if so_AccountID order \<noteq> accountID then fail ErrOrderStoreNotFound else ret order))"

section \<open>Following programs of the service\<close>

lemma wp_atStore [simp, wp_simps]:
  "wp (atStore m) Q X st = wp m (\<lambda>a s. Q a (st\<lparr>is_store := s\<rparr>)) (\<lambda>e s. X e (st\<lparr>is_store := s\<rparr>)) (is_store st)"
  by (simp add: wp_def atStore_def split: prod.splits sum.splits)

text \<open>
  The tables but for the audit log are the same; and a part of a program that touches neither these nor the ledger.
\<close>

definition sameTables :: "'d order_db \<Rightarrow> 'd order_db \<Rightarrow> bool" where
  "sameTables db db' \<longleftrightarrow> o_orders db' = o_orders db \<and> o_accounts db' = o_accounts db \<and> o_trades db' = o_trades db \<and> o_processed db' = o_processed db"

lemma sameTables_refl [simp]: "sameTables db db"
  by (simp add: sameTables_def)

lemma sameTables_trans: "sameTables a b \<Longrightarrow> sameTables b c \<Longrightarrow> sameTables a c"
  by (simp add: sameTables_def)

definition quiet :: "('d, 'l, 'p) ingest_state \<Rightarrow> ('d, 'l, 'p) ingest_state \<Rightarrow> bool" where
  "quiet st t \<longleftrightarrow> is_ledger t = is_ledger st \<and> is_calls t = is_calls st \<and> sameTables (ss_db (is_store st)) (ss_db (is_store t))"

lemma quiet_refl [simp]: "quiet st st"
  by (simp add: quiet_def)

lemma quiet_trans: "quiet a b \<Longrightarrow> quiet b c \<Longrightarrow> quiet a c"
  by (auto simp: quiet_def intro: sameTables_trans)

lemma wp_insertAudit [wp_intro]:
  assumes "\<And>t. quiet st t \<Longrightarrow> Q () t"
  shows "wp (insertAudit E userID action entityType entityID ip ua) Q X st"
  unfolding insertAudit_def InsertAudit_def wp_attempt wp_atStore
  by (intro wp_poolQuery) (auto simp: sql_insert_audit_def quiet_def sameTables_def intro!: assms)

lemma wp_publishOrder [wp_intro]:
  assumes "\<And>t. quiet st t \<Longrightarrow> Q () t"
  shows "wp (publishOrder E ev topic corr order payload) Q X st"
proof (cases "ie_publish E")
  case (Some publish)
  have "wp (\<lambda>st. (Inr (), st\<lparr>is_producer := snd (publish (is_producer st) topic (so_Symbol order) p)\<rparr>)) Q X t" if "quiet st t" for t p
    using that by (simp add: wp_def quiet_def assms)
  then show ?thesis
    unfolding publishOrder_def Some by (auto simp: quiet_def assms split: sum.split)
qed (simp add: publishOrder_def assms)

lemmas publish_defs = publishOrderAccepted_def publishOrderRejected_def publishOrderCancelled_def

lemma wp_accountForUser:
  assumes "\<And>u t. quiet st t \<Longrightarrow> (\<exists>created. (u, userID, ''active'', created) \<in> set (o_accounts (ss_db (is_store st)))) \<Longrightarrow> Q u t"
    and "\<And>e t. quiet st t \<Longrightarrow> X e t"
  shows "wp (accountForUser E userID) Q X st"
  unfolding accountForUser_def wp_attempt wp_atStore
  by (intro wp_GetAccountIDForUser) (auto simp: quiet_def intro!: assms)

lemma wp_ingest_NewUUID:
  "(\<And>n t. quiet st t \<Longrightarrow> Q (se_uuid E n) t) \<Longrightarrow> wp (atStore (NewUUID E)) Q X st"
  by (simp add: quiet_def)

lemma wp_callRisk [wp_intro]:
  assumes "\<And>r t. client (ss_step (is_store st)) req = Inr r \<Longrightarrow> is_ledger t = is_ledger st \<Longrightarrow> ss_db (is_store t) = ss_db (is_store st)
      \<Longrightarrow> is_calls t = is_calls st @ [RiskCall req] \<Longrightarrow> Q r t"
    and "\<And>e t. is_ledger t = is_ledger st \<Longrightarrow> ss_db (is_store t) = ss_db (is_store st) \<Longrightarrow> X e t"
  shows "wp (callRisk client req) Q X st"
  using assms by (auto simp: wp_def callRisk_def tick_def split: sum.split)

text \<open>What an order needs, as a specification over its input and the trades.\<close>

definition fundsFor :: "('d::linordered_idom, 'l, 'p) ingest_env \<Rightarrow> 'd order_db \<Rightarrow> string \<Rightarrow> string \<Rightarrow> string \<Rightarrow> 'd \<Rightarrow> 'd option \<Rightarrow> (string \<times> 'd) option \<Rightarrow> bool" where
  "fundsFor E db side orderType symbol quantity price funds \<longleftrightarrow>
     (case ingest_splitSymbol symbol of
        Inl _ \<Rightarrow> funds = None
      | Inr (base, quote) \<Rightarrow>
          if ToLower (TrimSpace side) = ''sell'' then funds = Some (base, quantity)
          else if ToLower (TrimSpace side) = ''buy'' then
            (if ToLower (TrimSpace orderType) = ''market''
             then \<exists>tr p. tr \<in> set (o_trades db) \<and> tr_symbol tr = ToUpper (TrimSpace symbol) \<and> 0 < p
                \<and> NewFromString (se_dec E) (TrimSpace (DecString (se_dec E) (tr_price tr))) = Some p
                \<and> funds = Some (quote, quantity * (p * (1 + DecDiv (se_dec E) (of_int (ie_slippageBps E)) 10000)))
             else \<exists>p. price = Some p \<and> funds = Some (quote, quantity * p))
          else funds = None)"

lemma wp_OrderStore_GetLastTradePrice:
  assumes "\<And>p t. ss_db t = ss_db s \<Longrightarrow> 0 < p \<Longrightarrow> (\<exists>tr \<in> set (o_trades (ss_db s)). tr_symbol tr = ToUpper (TrimSpace symbol) \<and>
      NewFromString (se_dec E) (TrimSpace (DecString (se_dec E) (tr_price tr))) = Some p) \<Longrightarrow> Q p t"
    and "\<And>e t. ss_db t = ss_db s \<Longrightarrow> X e t"
  shows "wp (OrderStore_GetLastTradePrice E symbol) Q X s"
proof -
  have row: "db' = db \<and> (\<exists>tr \<in> set (o_trades db). tr_symbol tr = sym \<and> p = DecString (se_dec E) (tr_price tr))"
    if "sql_order_last_price (se_dec E) sym n db = Inr (p, db')" for sym n p db' and db :: "'a order_db"
    using that unfolding sql_order_last_price_def by (drule_tac first_row) auto
  show ?thesis
    unfolding OrderStore_GetLastTradePrice_def Let_def
    by (intro wp_intro wp_orStoreNotFound wp_poolRead) (auto simp: not_le dest: row intro!: assms)
qed

lemma wp_orderFunds:
  assumes "\<And>funds t. quiet st t \<Longrightarrow> fundsFor E (ss_db (is_store st)) side orderType symbol q price funds \<Longrightarrow> Q funds t"
    and "\<And>e t. quiet st t \<Longrightarrow> X e t"
  shows "wp (orderFunds E side orderType symbol q price) Q X st"
proof -
  have market: "Q (Some (quote, q * (p * (1 + DecDiv (se_dec E) (of_int (ie_slippageBps E)) 10000)))) t"
    if "ingest_splitSymbol symbol = Inr (base, quote)" "ToLower (TrimSpace side) = ''buy''" "ToLower (TrimSpace orderType) = ''market''" "quiet st t" "0 < p"
      "\<exists>tr \<in> set (o_trades (ss_db (is_store st))). tr_symbol tr = ToUpper (TrimSpace symbol)
      \<and> NewFromString (se_dec E) (TrimSpace (DecString (se_dec E) (tr_price tr))) = Some p" for base quote p t
    using that by (intro assms(1)) (auto simp: fundsFor_def)
  show ?thesis
    unfolding orderFunds_def OrderService_marketBuyReferencePrice_def Let_def
    apply (rule wp_case_sum)
    subgoal by (simp add: assms(1) fundsFor_def)
    subgoal for bq
      apply (cases bq)
      apply (simp only: prod.case)
      apply (intro wp_intro)
      apply (simp_all add: assms fundsFor_def del: wp_bindM wp_attempt)
      apply (intro wp_OrderStore_GetLastTradePrice)
      apply (simp_all add: quiet_def market assms)
      done
    done
qed

end
