(* ===== verification/Order_Submission.thy ===== *)
theory Order_Submission
  imports Order_Ingest
begin

text \<open>
  What submitting and cancelling orders promises (\<^verbatim>\<open>order_service.go\<close>), over the contract of the ledger's clients: which orders are accepted, which funds are held
  for them, and that nothing is held for an order that was refused, that existed already, or that was cancelled.
\<close>

section \<open>Calls of the ledger\<close>

lemma wp_callLedgerServer:
  assumes "\<And>a l t. op (is_ledger st) = (Inr a, l) \<Longrightarrow> is_ledger t = l \<Longrightarrow> ss_db (is_store t) = ss_db (is_store st) \<Longrightarrow> Q a t"
    and "\<And>e l t. op (is_ledger st) = (Inl e, l) \<Longrightarrow> is_ledger t = l \<Longrightarrow> ss_db (is_store t) = ss_db (is_store st) \<Longrightarrow> X e t"
    and "\<And>t. is_ledger t = is_ledger st \<or> is_ledger t = snd (op (is_ledger st)) \<Longrightarrow> ss_db (is_store t) = ss_db (is_store st) \<Longrightarrow> X deadlineExceeded t"
  shows "wp (callLedgerServer E call op) Q X st"
  using assms by (auto simp: wp_def callLedgerServer_def Let_def tick_def split: rpc_outcome.split prod.split sum.split)

text \<open>The service is configured with this client and prints UUIDs and decimals the way the ledger reads them.\<close>

definition talksTo :: "('d, 'l, 'p) ingest_env \<Rightarrow> 'l ledger_client \<Rightarrow> (uuid \<Rightarrow> string) \<Rightarrow> ('d \<Rightarrow> string) \<Rightarrow> bool" where
  "talksTo E client uuidText decText \<longleftrightarrow> ie_ledger E = Some client \<and> se_uuidString E = uuidText \<and> DecString (se_dec E) = decText"

text \<open>The reservation that belongs to the funds an order needs.\<close>

definition reservedFor :: "uuid \<Rightarrow> (string \<times> 'd) option \<Rightarrow> (uuid \<times> string \<times> 'd) option" where
  "reservedFor acct funds = map_option (\<lambda>(a, x). (acct, ToUpper (TrimSpace a), x)) funds"

section \<open>What a submission means\<close>

text \<open>
  \<open>db\<close> and \<open>H\<close> are the tables and the held funds before, \<open>db'\<close> and \<open>H'\<close> after. An accepted order is the new row, pending, of an active account of the user; the
  risk service allowed just this order, and just the funds it needs are held for it. Otherwise the held funds are as before: a refused order is stored as
  rejected, and an order that existed is only reported.
\<close>

definition newlyAccepted ::
  "(nat \<Rightarrow> PreTradeCheckRequest \<Rightarrow> go_error + PreTradeCheckResponse) \<Rightarrow> ('d::linordered_idom, 'l, 'p) ingest_env \<Rightarrow> 'd SubmitOrderInput
    \<Rightarrow> 'd order_db \<Rightarrow> (uuid \<Rightarrow> (uuid \<times> string \<times> 'd) option) \<Rightarrow> 'd StoredOrder \<Rightarrow> 'd order_db \<Rightarrow> (uuid \<Rightarrow> (uuid \<times> string \<times> 'd) option) \<Rightarrow> bool" where
  "newlyAccepted risk E input db H order db' H' \<longleftrightarrow>
     (\<exists>acct cid i ts funds n resp.
        (\<exists>created. (acct, si_UserID input, ''active'', created) \<in> set (o_accounts db))
        \<and> order = (newOrder E input i cid acct)\<lparr>so_Status := OrderStatusPending, so_CreatedAt := ts, so_UpdatedAt := ts\<rparr>
        \<and> o_orders db' = o_orders db @ [order]
        \<and> risk n (riskRequest E order) = Inr resp \<and> pr_Allowed resp
        \<and> fundsFor E db (so_Side order) (so_Type order) (so_Symbol order) (so_Quantity order) (so_Price order) funds
        \<and> (\<forall>a x. funds = Some (a, x) \<longrightarrow> 0 < x) \<and> H' = H(i := reservedFor acct funds))"

definition storedBefore :: "'d order_db \<Rightarrow> 'd StoredOrder \<Rightarrow> 'd order_db \<Rightarrow> bool" where
  "storedBefore db order db' \<longleftrightarrow> o_orders db' = o_orders db \<and> order \<in> set (o_orders db)"

definition rejectedOrder :: "'d order_db \<Rightarrow> 'd StoredOrder \<Rightarrow> 'd order_db \<Rightarrow> bool" where
  "rejectedOrder db order db' \<longleftrightarrow> o_orders db' = o_orders db @ [order] \<and> so_Status order = OrderStatusRejected"

definition submitted ::
  "(nat \<Rightarrow> PreTradeCheckRequest \<Rightarrow> go_error + PreTradeCheckResponse) \<Rightarrow> ('d::linordered_idom, 'l, 'p) ingest_env \<Rightarrow> 'd SubmitOrderInput
    \<Rightarrow> 'd order_db \<Rightarrow> (uuid \<Rightarrow> (uuid \<times> string \<times> 'd) option) \<Rightarrow> 'd SubmitOrderResult \<Rightarrow> 'd order_db \<Rightarrow> (uuid \<Rightarrow> (uuid \<times> string \<times> 'd) option) \<Rightarrow> bool" where
  "submitted risk E input db H res db' H' \<longleftrightarrow>
     (if sr_Existing res
      then storedBefore db (sr_Order res) db' \<and> H' = H \<and> sr_Status res = responseStatus (so_Status (sr_Order res))
      else if sr_Status res = statusAccepted then newlyAccepted risk E input db H (sr_Order res) db' H'
      else sr_Status res = statusRejected \<and> H' = H \<and> (rejectedOrder db (sr_Order res) db' \<or> storedBefore db (sr_Order res) db'))"

lemma submitted_tables:
  assumes "sameTables db0 db"
  shows "storedBefore db order db' = storedBefore db0 order db'" "rejectedOrder db order db' = rejectedOrder db0 order db'"
    "fundsFor E db side ty symbol q price funds = fundsFor E db0 side ty symbol q price funds"
proof -
  have eq: "o_orders db = o_orders db0" "o_trades db = o_trades db0" using assms by (simp_all add: sameTables_def)
  show "storedBefore db order db' = storedBefore db0 order db'" "rejectedOrder db order db' = rejectedOrder db0 order db'"
    "fundsFor E db side ty symbol q price funds = fundsFor E db0 side ty symbol q price funds"
    unfolding storedBefore_def rejectedOrder_def fundsFor_def eq by (rule refl)+
qed

lemma wp_rejectOrder:
  assumes "printed_text (se_dec E)"
    and "\<And>res t. is_ledger t = is_ledger st \<Longrightarrow> \<not> sr_Existing res \<Longrightarrow> sr_Status res = statusRejected
      \<Longrightarrow> rejectedOrder (ss_db (is_store st)) (sr_Order res) (ss_db (is_store t)) \<or> storedBefore (ss_db (is_store st)) (sr_Order res) (ss_db (is_store t)) \<Longrightarrow> Q res t"
    and "\<And>e t. is_ledger t = is_ledger st \<Longrightarrow> sameTables (ss_db (is_store st)) (ss_db (is_store t)) \<Longrightarrow> X e t"
  shows "wp (rejectOrder E input order reasons details) Q X st"
  unfolding rejectOrder_def wp_bindM wp_atStore
proof (rule wp_CreateOrder [OF assms(1)], goal_cases)
  case (1 stored s)
  note ins = inserts_orderD [OF 1]
  have "rejectedOrder (ss_db (is_store st)) stored (ss_db s)" using ins(1,3) by (auto simp: rejectedOrder_def)
  then show ?case
    unfolding publish_defs by (auto simp: quiet_def sameTables_def rejectedOrder_def intro!: wp_intro assms(2))
next
  case (2 o' s)
  then show ?case by (auto simp: storedBefore_def intro!: assms(2))
qed (auto intro!: assms(3))

text \<open>
  What a cancellation does to the rows: nothing, or it closes the order of one of the user's accounts.
\<close>

definition cancelledIn :: "CancelOrderInput \<Rightarrow> 'd::linordered_idom order_db \<Rightarrow> 'd order_db \<Rightarrow> bool" where
  "cancelledIn input db db' \<longleftrightarrow> (\<exists>acct created o' db1. (acct, ci_UserID input, ''active'', created) \<in> set (o_accounts db)
     \<and> cancels (ci_OrderID input) acct db o' db1 \<and> sameTables db1 db')"

lemma cancels_row: "cancels orderID u db o' db' \<Longrightarrow> o' \<in> set (o_orders db') \<and> so_ID o' = orderID \<and> so_AccountID o' = u \<and> so_Status o' = OrderStatusCancelled"
  by (auto simp: cancels_def cancellable_def cancelRow_def)

lemma cancels_sameTables: "cancels orderID u db1 o' db2 \<Longrightarrow> sameTables db db1 \<Longrightarrow> \<exists>db3. cancels orderID u db o' db3 \<and> sameTables db3 db2"
  unfolding cancels_def sameTables_def by fastforce

context reservations
begin

lemma held_update: "(\<forall>o'. o' \<noteq> orderID \<longrightarrow> held l' o' = held l o') \<Longrightarrow> held l' orderID = v \<Longrightarrow> held l' = (held l)(orderID := v)"
  by auto

lemma wp_release:
  assumes "talksTo E client uuidText decText" and "inv (is_ledger st)"
    and "\<And>t. inv (is_ledger t) \<Longrightarrow> held (is_ledger t) = (held (is_ledger st))(orderID := None) \<Longrightarrow> ss_db (is_store t) = ss_db (is_store st) \<Longrightarrow> Q () t"
    and "\<And>e t. inv (is_ledger t) \<Longrightarrow> \<forall>o'. o' \<noteq> orderID \<longrightarrow> held (is_ledger t) o' = held (is_ledger st) o' \<Longrightarrow> ss_db (is_store t) = ss_db (is_store st) \<Longrightarrow> X e t"
  shows "wp (releaseReservation E orderID) Q X st"
proof -
  have keeps: "inv l' \<and> (\<forall>o'. o' \<noteq> orderID \<longrightarrow> held l' o' = held (is_ledger st) o')" if "l' = snd (lc_ReleaseBalance client (uuidText orderID) (is_ledger st))" for l'
    using release_keeps [OF assms(2)] that by (metis prod.collapse)
  show ?thesis
    using assms(1) unfolding talksTo_def releaseReservation_def
    apply (clarsimp simp: Let_def)
    apply (rule wp_callLedgerServer)
    subgoal using keeps by (auto intro!: assms(3) held_update release_granted [OF assms(2)])
    subgoal using keeps by (auto intro!: assms(3,4) held_update release_absent [OF assms(2)])
    subgoal using keeps assms(2) by (auto simp: deadlineExceeded_def intro!: assms(4))
    done
qed

lemma wp_checkLedgerBalance:
  assumes "talksTo E client uuidText decText" and "inv (is_ledger st)" and "held (is_ledger st) orderID = None"
    and "\<And>d funds t. inv (is_ledger t) \<Longrightarrow> fundsFor E (ss_db (is_store st)) side ty symbol q price funds \<Longrightarrow> \<forall>a x. funds = Some (a, x) \<longrightarrow> 0 < x
      \<Longrightarrow> held (is_ledger t) = (held (is_ledger st))(orderID := reservedFor acct funds) \<Longrightarrow> sameTables (ss_db (is_store st)) (ss_db (is_store t)) \<Longrightarrow> Q (True, d) t"
    and "\<And>d t. inv (is_ledger t) \<Longrightarrow> held (is_ledger t) = held (is_ledger st) \<Longrightarrow> sameTables (ss_db (is_store st)) (ss_db (is_store t)) \<Longrightarrow> Q (False, d) t"
    and "\<And>e t. inv (is_ledger t) \<Longrightarrow> \<forall>o'. o' \<noteq> orderID \<longrightarrow> held (is_ledger t) o' = held (is_ledger st) o' \<Longrightarrow> sameTables (ss_db (is_store st)) (ss_db (is_store t)) \<Longrightarrow> X e t"
  shows "wp (checkLedgerBalance E orderID acct side ty symbol q price) Q X st"
proof -
  have call: "wp (callLedgerServer E call (lc_ReserveBalance client (uuidText acct) (uuidText orderID) a (decText x)))
      (\<lambda>r t. inv (is_ledger t) \<and> held (is_ledger t) = (held (is_ledger st))(orderID := reservedFor acct (Some (a, x))) \<and> sameTables (ss_db (is_store st)) (ss_db (is_store t)))
      (\<lambda>e t. inv (is_ledger t) \<and> (\<forall>o'. o' \<noteq> orderID \<longrightarrow> held (is_ledger t) o' = held (is_ledger st) o')
        \<and> (status_FromError e = Some FailedPrecondition \<longrightarrow> held (is_ledger t) = held (is_ledger st)) \<and> sameTables (ss_db (is_store st)) (ss_db (is_store t))) st1"
    if "quiet st st1" for call a x st1
  proof -
    have st1: "is_ledger st1 = is_ledger st" "sameTables (ss_db (is_store st)) (ss_db (is_store st1))" using that by (simp_all add: quiet_def)
    note keeps = reserve_keeps [OF assms(2), of acct orderID a x]
    have lost: "inv l' \<and> (\<forall>o'. o' \<noteq> orderID \<longrightarrow> held l' o' = held (is_ledger st) o')"
      if "l' = snd (lc_ReserveBalance client (uuidText acct) (uuidText orderID) a (decText x) (is_ledger st))" for l'
      using keeps that by (metis prod.collapse)
    have other: "held l' = held (is_ledger st)" if "\<forall>o'. o' \<noteq> orderID \<longrightarrow> held l' o' = held (is_ledger st) o'" "held l' orderID = held (is_ledger st) orderID" for l'
      using that by (metis ext)
    show ?thesis
      apply (rule wp_callLedgerServer)
      subgoal for r l t using keeps [of "Inr r" l] reserve_granted [OF assms(2) _ assms(3), of acct a x r l] st1 by (auto simp: reservedFor_def)
      subgoal for e l t using keeps [of "Inl e" l] reserve_refused [OF assms(2), of acct orderID a x e l] st1 by (auto intro: other)
      subgoal for t using lost st1 assms(2) by (auto simp: deadlineExceeded_def)
      done
  qed
  have E [simp]: "ie_ledger E = Some client" "se_uuidString E = uuidText" "DecString (se_dec E) = decText"
    using assms(1) by (simp_all add: talksTo_def)
  show ?thesis
    unfolding checkLedgerBalance_def Let_def E option.case wp_bindM
    apply (rule wp_orderFunds)
    subgoal for funds t
      apply (cases funds)
      subgoal by (simp add: assms(2,4) quiet_def reservedFor_def assms(3)[symmetric])
      subgoal for p
        apply (cases p)
        apply (clarsimp simp: assms(2,6) quiet_def)
        apply (rule wp_conseq [OF call])
        apply (auto simp: quiet_def not_le intro!: assms(4-6))
        done
      done
    subgoal by (simp add: assms(2,6) quiet_def)
    done
qed

lemma wp_acceptOrder:
  assumes "talksTo E client uuidText decText" and "inv (is_ledger st)" and "printed_text (se_dec E)" and "so_ID order \<noteq> uuid_Nil"
    and "\<And>res ts t. held (is_ledger t) = held (is_ledger st) \<Longrightarrow> \<not> sr_Existing res \<Longrightarrow> sr_Status res = statusAccepted
      \<Longrightarrow> sr_Order res = order\<lparr>so_Status := OrderStatusPending, so_CreatedAt := ts, so_UpdatedAt := ts\<rparr>
      \<Longrightarrow> o_orders (ss_db (is_store t)) = o_orders (ss_db (is_store st)) @ [sr_Order res] \<Longrightarrow> Q res t"
    and "\<And>res t. held (is_ledger t) = (held (is_ledger st))(so_ID order := None) \<Longrightarrow> sr_Existing res \<Longrightarrow> sr_Status res = responseStatus (so_Status (sr_Order res))
      \<Longrightarrow> storedBefore (ss_db (is_store st)) (sr_Order res) (ss_db (is_store t)) \<Longrightarrow> Q res t"
    and "\<And>e t. \<forall>o'. o' \<noteq> so_ID order \<longrightarrow> held (is_ledger t) o' = held (is_ledger st) o' \<Longrightarrow> sameTables (ss_db (is_store st)) (ss_db (is_store t)) \<Longrightarrow> X e t"
  shows "wp (acceptOrder E input order) Q X st"
proof -
  have E [simp]: "ie_ledger E = Some client" using assms(1) by (simp add: talksTo_def)
  show ?thesis
    unfolding acceptOrder_def Let_def wp_attempt wp_atStore
  proof (rule wp_CreateOrder [OF assms(3)], goal_cases)
    case (1 stored s)
    note ins = inserts_orderD [OF 1]
    obtain ts where "stored = order\<lparr>so_Status := OrderStatusPending, so_CreatedAt := ts, so_UpdatedAt := ts\<rparr>" using ins(3) assms(4) by auto
    with ins(1) show ?case
      unfolding publish_defs by (auto simp: quiet_def sameTables_def intro!: wp_intro assms(5) [of _ _ ts])
  next
    case (2 o' s)
    then show ?case
      by (auto simp: existingResult_def storedBefore_def assms(2) sameTables_def intro!: wp_release [OF assms(1)] assms(6,7))
  next
    case (3 e s)
    then show ?case by (auto simp: assms(2) intro!: wp_release [OF assms(1)] assms(7))
  qed
qed

text \<open>From here on, the UUIDs still to come are new to the ledger.\<close>

lemma wp_submitNew:
  fixes st :: "('d, 'l, 'p) ingest_state"
  assumes "talksTo E client uuidText decText" and "inv (is_ledger st)" and "printed_text (se_dec E)"
    and "\<And>n. se_uuid E n \<noteq> uuid_Nil \<and> held (is_ledger st) (se_uuid E n) = None"
    and "\<exists>created. (acct, si_UserID input, ''active'', created) \<in> set (o_accounts (ss_db (is_store st)))"
    and "\<And>res t. submitted risk E input (ss_db (is_store st)) (held (is_ledger st)) res (ss_db (is_store t)) (held (is_ledger t)) \<Longrightarrow> Q res t"
    and "\<And>e n t. sameTables (ss_db (is_store st)) (ss_db (is_store t)) \<Longrightarrow> \<forall>o'. o' \<noteq> se_uuid E n \<longrightarrow> held (is_ledger t) o' = held (is_ledger st) o' \<Longrightarrow> X e t"
  shows "wp (submitNew E risk input acct cid) Q X st"
  unfolding submitNew_def Let_def wp_bindM
proof (rule wp_ingest_NewUUID, rule wp_callRisk, goal_cases)
  case (1 n st1 resp st2)
  let ?order = "newOrder E input (se_uuid E n) cid acct"
  have st2: "is_ledger st2 = is_ledger st" "sameTables (ss_db (is_store st)) (ss_db (is_store st2))"
    using 1 by (simp_all add: quiet_def)
  have fields: "so_Side ?order = si_Side input" "so_Symbol ?order = si_Symbol input" "so_Quantity ?order = si_Quantity input" "so_ID ?order = se_uuid E n"
    by (simp_all add: newOrder_def Let_def)
  have reject: "wp (rejectOrder E input ?order reasons details) Q X t"
    if "held (is_ledger t) = held (is_ledger st)" "sameTables (ss_db (is_store st)) (ss_db (is_store t))" for reasons details t
    using that submitted_tables [OF that(2)]
    by (intro wp_rejectOrder [OF assms(3)]) (auto simp: submitted_def statusRejected_def statusAccepted_def intro!: assms(6) assms(7) [where n = n] intro: sameTables_trans)
  have accept: "wp (acceptOrder E input ?order) Q X t"
    if t: "inv (is_ledger t)" "held (is_ledger t) = (held (is_ledger st))(se_uuid E n := reservedFor acct funds)" "sameTables (ss_db (is_store st)) (ss_db (is_store t))"
      and resp: "pr_Allowed resp" and funds: "fundsFor E (ss_db (is_store st)) (si_Side input) (so_Type ?order) (si_Symbol input) (si_Quantity input) (so_Price ?order) funds"
      and pos: "\<forall>a x. funds = Some (a, x) \<longrightarrow> 0 < x" for t funds
  proof (rule wp_acceptOrder [OF assms(1) t(1) assms(3)], goal_cases)
    case 1
    then show ?case using assms(4) fields by simp
  next
    case (2 res ts u)
    have "riskRequest E (sr_Order res) = riskRequest E ?order" unfolding 2(4) by (simp add: riskRequest_def)
    then have "newlyAccepted risk E input (ss_db (is_store st)) (held (is_ledger st)) (sr_Order res) (ss_db (is_store u)) (held (is_ledger u))"
      unfolding newlyAccepted_def using 1 2 t assms(5) resp funds fields pos
      by (intro exI [of _ acct] exI [of _ cid] exI [of _ "se_uuid E n"] exI [of _ ts] exI [of _ funds] exI [of _ "ss_step (is_store st1)"] exI [of _ resp])
         (simp add: sameTables_def)
    then show ?case using 2 by (intro assms(6)) (simp add: submitted_def)
  next
    case (3 res u)
    have "held (is_ledger u) = held (is_ledger st)" using 3(1) t(2) assms(4) [of n] by (auto simp: fields)
    then show ?case using 3 submitted_tables(1) [OF t(3)] by (intro assms(6)) (simp add: submitted_def)
  next
    case (4 e u)
    then show ?case using t(2,3) fields by (intro assms(7) [where n = n]) (auto intro: sameTables_trans)
  qed
  show ?case
  proof (rule wp_if)
    assume "\<not> pr_Allowed resp"
    then show "wp (rejectOrder E input ?order (pr_Reasons resp) (pr_Details resp)) Q X st2" using st2 by (intro reject) simp_all
  next
    assume allowed: "\<not> \<not> pr_Allowed resp"
    show "wp (bindM (checkLedgerBalance E (se_uuid E n) acct (si_Side input) (so_Type ?order) (si_Symbol input) (si_Quantity input) (so_Price ?order))
        (\<lambda>(ledgerOK, ledgerDetails). if \<not> ledgerOK then rejectOrder E input ?order [''insufficient_balance''] ledgerDetails else acceptOrder E input ?order)) Q X st2"
      unfolding wp_bindM
    proof (rule wp_checkLedgerBalance [OF assms(1)], goal_cases)
      case (3 d funds t)
      have "wp (acceptOrder E input ?order) Q X t"
        by (rule accept [OF 3(1) _ _ _ _ 3(3), OF _ _ _ 3(2) [unfolded submitted_tables(3) [OF st2(2)]]]) (use 3 st2 allowed in \<open>auto intro: sameTables_trans\<close>)
      then show ?case by simp
    next
      case (4 d t)
      have "wp (rejectOrder E input ?order [''insufficient_balance''] d) Q X t"
        by (rule reject) (use 4 st2 in \<open>auto intro: sameTables_trans\<close>)
      then show ?case by simp
    next
      case (5 e t)
      then show ?case using st2 by (intro assms(7) [where n = n]) (auto intro: sameTables_trans)
    qed (simp_all add: st2 assms(2,4))
  qed
next
  case (2 n st1 e st2)
  then show ?case by (intro assms(7) [where n = n]) (simp_all add: quiet_def)
qed

lemma wp_SubmitOrder:
  fixes st :: "('d, 'l, 'p) ingest_state"
  assumes "talksTo E client uuidText decText" and "inv (is_ledger st)" and "printed_text (se_dec E)" and "ie_risk E = Some risk"
    and "\<And>n. se_uuid E n \<noteq> uuid_Nil \<and> held (is_ledger st) (se_uuid E n) = None"
  shows "wp (SubmitOrder E input)
    (\<lambda>res t. submitted risk E input (ss_db (is_store st)) (held (is_ledger st)) res (ss_db (is_store t)) (held (is_ledger t)))
    (\<lambda>e t. sameTables (ss_db (is_store st)) (ss_db (is_store t)) \<and> (\<exists>i. \<forall>o'. o' \<noteq> i \<longrightarrow> held (is_ledger t) o' = held (is_ledger st) o')) st"
    (is "wp _ ?Q ?X st")
proof -
  have new: "wp (submitNew E risk input acct cid) ?Q ?X t"
    if t: "quiet st t" and acct: "\<exists>created. (acct, si_UserID input, ''active'', created) \<in> set (o_accounts (ss_db (is_store st)))" for acct cid t
  proof (rule wp_submitNew [OF assms(1) _ assms(3)], goal_cases)
    case (4 res u)
    have same: "sameTables (ss_db (is_store st)) (ss_db (is_store t))" and led: "is_ledger t = is_ledger st" using t by (simp_all add: quiet_def)
    have eq: "newlyAccepted risk E input (ss_db (is_store t)) H o' db' H' = newlyAccepted risk E input (ss_db (is_store st)) H o' db' H'" for H o' db' H'
      unfolding newlyAccepted_def submitted_tables(3) [OF same] using same by (simp add: sameTables_def)
    show ?case using 4 unfolding submitted_def submitted_tables [OF same] eq led .
  next
    case (5 e n u)
    then show ?case using t by (auto simp: quiet_def intro: sameTables_trans)
  qed (use t acct assms(2,5) in \<open>auto simp: quiet_def sameTables_def\<close>)
  have existing: "?Q (existingResult o') t" if "quiet st t" "o' \<in> set (o_orders (ss_db (is_store st)))" for o' t
    using that by (auto simp: submitted_def existingResult_def storedBefore_def quiet_def sameTables_def)
  show ?thesis
    unfolding SubmitOrder_def assms(4) option.case wp_bindM Let_def
  proof (rule wp_accountForUser, goal_cases)
    case (1 acct t)
    show ?case
    proof (rule wp_if)
      assume "TrimSpace (si_ClientOrderID input) \<noteq> []"
      show "wp (attempt (atStore (GetOrderByClientID E acct (TrimSpace (si_ClientOrderID input))))
          (\<lambda>err. if \<not> errors_Is err ErrOrderStoreNotFound then fail err else submitNew E risk input acct (TrimSpace (si_ClientOrderID input)))
          (\<lambda>existing. ret (existingResult existing))) ?Q ?X t"
        unfolding wp_attempt wp_atStore
      proof (rule wp_GetOrderByClientID [OF assms(3)], goal_cases)
        case (1 o' s)
        then show ?case using \<open>quiet st t\<close> existing [of "t\<lparr>is_store := s\<rparr>" o'] by (simp add: quiet_def sameTables_def)
      next
        case (2 s)
        then have "quiet st (t\<lparr>is_store := s\<rparr>)" using \<open>quiet st t\<close> by (simp add: quiet_def)
        then show ?case using new [OF _ 1(2)] by (simp add: ErrOrderStoreNotFound_def)
      next
        case (3 s)
        then show ?case using \<open>quiet st t\<close> by (auto simp: quiet_def ErrOrderStoreNotFound_def)
      qed
    next
      assume "\<not> TrimSpace (si_ClientOrderID input) \<noteq> []"
      show "wp (bindM (atStore (NewUUID E)) (\<lambda>fresh. submitNew E risk input acct (se_uuidString E fresh))) ?Q ?X t"
        unfolding wp_bindM by (rule wp_ingest_NewUUID) (rule new [OF quiet_trans [OF 1(1)] 1(2)])
    qed
  next
    case (2 e t)
    then show ?case by (auto simp: quiet_def)
  qed
qed

lemma wp_CancelOrder:
  fixes st :: "('d, 'l, 'p) ingest_state"
  assumes "talksTo E client uuidText decText" and "inv (is_ledger st)" and "printed_text (se_dec E)"
  shows "wp (OrderService_CancelOrder E input)
    (\<lambda>order t. so_ID order = ci_OrderID input \<and> so_Status order = OrderStatusCancelled \<and> order \<in> set (o_orders (ss_db (is_store t)))
      \<and> (\<exists>created. (so_AccountID order, ci_UserID input, ''active'', created) \<in> set (o_accounts (ss_db (is_store st))))
      \<and> held (is_ledger t) = (held (is_ledger st))(ci_OrderID input := None)
      \<and> (sameTables (ss_db (is_store st)) (ss_db (is_store t)) \<or> cancelledIn input (ss_db (is_store st)) (ss_db (is_store t))))
    (\<lambda>e t. (\<forall>o'. o' \<noteq> ci_OrderID input \<longrightarrow> held (is_ledger t) o' = held (is_ledger st) o')
      \<and> (sameTables (ss_db (is_store st)) (ss_db (is_store t)) \<or> cancelledIn input (ss_db (is_store st)) (ss_db (is_store t)))) st"
    (is "wp _ ?Q ?X st")
proof -
  let ?rows = "\<lambda>db. sameTables (ss_db (is_store st)) db \<or> cancelledIn input (ss_db (is_store st)) db"
  have later: "?rows db'" if "?rows db" "sameTables db db'" for db db'
    using that unfolding cancelledIn_def by (blast intro: sameTables_trans)
  have rest: "wp (finishCancel E input order) ?Q ?X t"
    if order: "so_ID order = ci_OrderID input" "so_Status order = OrderStatusCancelled" "order \<in> set (o_orders (ss_db (is_store t)))"
      "\<exists>created. (so_AccountID order, ci_UserID input, ''active'', created) \<in> set (o_accounts (ss_db (is_store st)))"
      and t: "is_ledger t = is_ledger st" "?rows (ss_db (is_store t))" for order t
    unfolding finishCancel_def wp_bindM publish_defs order(1)
  proof (rule wp_release [OF assms(1)], goal_cases)
    case (2 u)
    have "?Q order v" if "quiet u v" for v
    proof -
      have v: "is_ledger v = is_ledger u" "sameTables (ss_db (is_store t)) (ss_db (is_store v))" using that 2 by (simp_all add: quiet_def)
      then have "order \<in> set (o_orders (ss_db (is_store v)))" using order(3) by (simp add: sameTables_def)
      with order v 2 t(1) later [OF t(2) v(2)] show ?thesis by simp
    qed
    then show ?case by (intro wp_intro) (blast intro: quiet_trans)
  next
    case (3 e u)
    then show ?case using t by simp
  qed (use t assms(2) in simp)
  show ?thesis
    unfolding OrderService_CancelOrder_def wp_bindM
  proof (rule wp_accountForUser, goal_cases)
    case (1 acct t)
    have t: "is_ledger t = is_ledger st" "sameTables (ss_db (is_store st)) (ss_db (is_store t))" using 1 by (simp_all add: quiet_def)
    have refused: "wp (if errors_Is e ErrInvalidStatus then
          attempt (atStore (GetOrderByID E (ci_OrderID input))) (\<lambda>_. fail e)
            (\<lambda>existing. if so_AccountID existing = acct \<and> so_Status existing = OrderStatusCancelled then finishCancel E input existing else fail e)
        else fail e) ?Q ?X (t\<lparr>is_store := s\<rparr>)" if s: "ss_db s = ss_db (is_store t)" for e s
    proof (rule wp_if)
      show "wp (attempt (atStore (GetOrderByID E (ci_OrderID input))) (\<lambda>_. fail e)
          (\<lambda>existing. if so_AccountID existing = acct \<and> so_Status existing = OrderStatusCancelled then finishCancel E input existing else fail e)) ?Q ?X (t\<lparr>is_store := s\<rparr>)"
        unfolding wp_attempt wp_atStore
      proof (rule wp_GetOrderByID [OF assms(3)], goal_cases)
        case g: (1 x u)
        show ?case
        proof (rule wp_if)
          assume "so_AccountID x = acct \<and> so_Status x = OrderStatusCancelled"
          then show "wp (finishCancel E input x) ?Q ?X (t\<lparr>is_store := s, is_store := u\<rparr>)"
            using g 1(2) s t by (intro rest) auto
        qed (use g s t in simp)
      qed (use s t in simp_all)
    qed (use s t in simp)
    show ?case
      unfolding wp_attempt wp_atStore
    proof (rule wp_OrderStore_CancelOrder [OF assms(3)], goal_cases)
      case c: (1 o' s)
      have "cancelledIn input (ss_db (is_store st)) (ss_db s)"
        unfolding cancelledIn_def using cancels_sameTables [OF c t(2)] 1(2) by blast
      then show ?case using cancels_row [OF c] 1(2) t(1) by (intro rest) auto
    next
      case (2 o' s)
      then show ?case by (intro refused) simp
    next
      case (3 e s)
      then show ?case by (intro refused) simp
    qed
  next
    case (2 e t)
    then show ?case by (simp add: quiet_def)
  qed
qed

end

section \<open>Submitting an order again\<close>

lemma wp_SubmitOrder_again:
  assumes "printed_text (se_dec E)" and "orders_inv (ss_db (is_store st))" and "order \<in> set (o_orders (ss_db (is_store st)))"
    and "so_ClientOrderID order = TrimSpace (si_ClientOrderID input)" and "TrimSpace (si_ClientOrderID input) \<noteq> []"
    and "\<And>acct created. (acct, si_UserID input, ''active'', created) \<in> set (o_accounts (ss_db (is_store st))) \<Longrightarrow> acct = so_AccountID order"
  shows "wp (SubmitOrder E input) (\<lambda>res t. res = existingResult order \<and> quiet st t) (\<lambda>e t. quiet st t) st"
proof -
  have unique: "o' = order" if "o' \<in> set (o_orders (ss_db (is_store st)))" "so_AccountID o' = so_AccountID order" "so_ClientOrderID o' = so_ClientOrderID order" for o'
    using assms(2,3) that by (auto simp: orders_inv_def distinct_map inj_on_def)
  show ?thesis
  proof (cases "ie_risk E")
    case (Some risk)
    show ?thesis
      unfolding SubmitOrder_def Some option.case wp_bindM Let_def if_P [OF assms(5)]
    proof (rule wp_accountForUser, goal_cases)
      case (1 acct t)
      then have acct: "acct = so_AccountID order" using assms(6) by blast
      have t: "quiet st (t\<lparr>is_store := s\<rparr>)" if "ss_db s = ss_db (is_store t)" for s using 1(1) that by (simp add: quiet_def)
      have rows: "o_orders (ss_db (is_store t)) = o_orders (ss_db (is_store st))" using 1(1) by (simp add: quiet_def sameTables_def)
      show ?case
        unfolding wp_attempt wp_atStore
      proof (rule wp_GetOrderByClientID [OF assms(1)], goal_cases)
        case (1 o' s)
        then show ?case using unique [of o'] t [of s] acct rows assms(4) by simp
      next
        case (2 s)
        then show ?case using assms(3,4) acct rows by auto
      next
        case (3 s)
        then show ?case using t [of s] by (simp add: ErrOrderStoreNotFound_def)
      qed
    qed
  qed (simp add: SubmitOrder_def)
qed

section \<open>Properties\<close>




section \<open>Examples\<close>

text \<open>
  The small ledger and order tables of before behind a risk service that allows every order; the outcome of the ledger's calls is a parameter. The account of user
  20 sells nothing it has, and buys 2 units at 7.
\<close>

definition sample_ingest_env :: "(nat \<Rightarrow> rpc_outcome) \<Rightarrow> (int, int store_state, (string \<times> string) list) ingest_env" where
  "sample_ingest_env rpc = \<lparr>se_fault = (\<lambda>_. False), se_clock = (\<lambda>n. 1000 + int n), se_uuid = (\<lambda>_. 100), se_uniqueErr = UniqueViolation,
     se_uuidString = sample_uuid_text, se_dec = int_decimal, ae_parseUUID = (\<lambda>s. map_option of_int (parse_int s)),
     ie_risk = Some (\<lambda>_ _. Inr \<lparr>pr_Allowed = True, pr_Reasons = [], pr_Details = []\<rparr>),
     ie_ledger = Some (ledgerClient sample_service_env sample_store_env), ie_rpc = rpc,
     ie_publish = Some (\<lambda>p topic key v. (Inr (0, 0), p @ [(topic, key)])), ie_sha1 = id,
     ie_topics = \<lparr>tp_OrdersAccepted = ''acc'', tp_OrdersRejected = ''rej'', tp_OrdersCancelled = ''can''\<rparr>, ie_slippageBps = 0\<rparr>"

definition sample_ingest :: "(int, int store_state, (string \<times> string) list) ingest_state" where
  "sample_ingest = \<lparr>is_store = sample_order_state, is_ledger = sample_store, is_producer = [], is_calls = []\<rparr>"

definition sample_buy :: "string \<Rightarrow> int SubmitOrderInput" where
  "sample_buy cid = \<lparr>si_UserID = 20, si_ClientOrderID = cid, si_Symbol = ''BTC-USD'', si_Side = ''buy'', si_OrderType = ''limit'', si_TimeInForce = [],
     si_Quantity = 2, si_Price = Some 7, si_IP = [], si_UserAgent = [], si_CorrelationID = []\<rparr>"

definition sample_cancel :: CancelOrderInput where
  "sample_cancel = \<lparr>ci_UserID = 20, ci_OrderID = 100, ci_IP = [], ci_UserAgent = [], ci_CorrelationID = []\<rparr>"

definition sample_bought :: "(int, int store_state, (string \<times> string) list) ingest_state" where
  "sample_bought = snd (SubmitOrder (sample_ingest_env (\<lambda>_. Delivered)) (sample_buy ''x'') sample_ingest)"

lemma sample_request_texts [simp]: "request_texts sample_service_env"
proof -
  have "TrimSpace (sample_uuid_text u) = sample_uuid_text u" for u
    by (rule TrimSpace_no_blanks) (simp add: sample_uuid_text_def nat_string_no_blanks)
  moreover have "parse_int (sample_uuid_text u) = Some (int (unat u))" for u :: uuid
    using parse_int_string [of "int (unat u)"] by (simp add: int_string_def sample_uuid_text_def)
  ultimately show ?thesis by (simp add: request_texts_def sample_service_env_def)
qed

lemma sample_ready [simp]:
  "clientReady sample_service_env sample_store_env sample_store"
  by (simp add: clientReady_def env_ok_def store_inv_def driver_errors_def) (simp add: sample_store_env_def)

lemma sample_ingest_facts:
  "ie_ledger (sample_ingest_env rpc) = Some (ledgerClient sample_service_env sample_store_env)" "se_uuidString (sample_ingest_env rpc) = sv_uuidString sample_service_env"
  "se_dec (sample_ingest_env rpc) = sv_dec sample_service_env" "printed_text (se_dec (sample_ingest_env rpc))"
  "ie_risk (sample_ingest_env rpc) = Some (\<lambda>_ _. Inr \<lparr>pr_Allowed = True, pr_Reasons = [], pr_Details = []\<rparr>)" "se_uuid (sample_ingest_env rpc) n = 100"
  "is_ledger sample_ingest = sample_store"
  by (simp_all add: sample_ingest_env_def sample_service_env_def sample_ingest_def)


lemma sample_bought_ready: "clientReady sample_service_env sample_store_env (is_ledger sample_bought)"
proof -
  have "ledger_inv (ss_db (is_ledger sample_bought))" "ss_feeCache (is_ledger sample_bought) = \<lparr>fc_ttl = 900, fc_entries = []\<rparr>" by code_simp+
  then show ?thesis using sample_ready by (simp add: clientReady_def store_inv_def cache_ok_def sample_store_def)
qed




end
