(* ===== verification/Fill_Consumer.thy ===== *)
theory Fill_Consumer
  imports Order_Submission
begin

text \<open>
  The trade consumer of the order ingest service, \<^verbatim>\<open>services/order-ingest/internal/consumer/trade_consumer.go\<close>: it applies an executed trade to the two orders
  and releases what is still held for the orders the trade completed. Two properties: what an acknowledged message has done, and how a release that fails is lost.
\<close>

section \<open>Events\<close>

definition tradeExecutedType :: string where
  "tradeExecutedType = ''trades.executed''"

record ExecutedTrade =
  xt_Envelope :: Envelope
  xt_TradeID :: string
  xt_Symbol :: string
  xt_MakerOrderID :: string
  xt_TakerOrderID :: string
  xt_Price :: string
  xt_Quantity :: string
  xt_MakerSide :: string
  xt_ExecutedAt :: string

definition ExecutedTrade_Validate :: "'d decimal_ops \<Rightarrow> ExecutedTrade \<Rightarrow> go_error option" where
  "ExecutedTrade_Validate D e =
     (case Envelope_Validate (xt_Envelope e) of
        Some err \<Rightarrow> Some err
      | None \<Rightarrow>
          if env_EventType (xt_Envelope e) \<noteq> tradeExecutedType
          then Some (Errorf ''unexpected event_type: %s'' [AStr (env_EventType (xt_Envelope e))])
          else if TrimSpace (xt_TradeID e) = [] then Some (Errorf ''trade_id is required'' [])
          else if TrimSpace (xt_Symbol e) = [] then Some (Errorf ''symbol is required'' [])
          else if TrimSpace (xt_MakerOrderID e) = [] then Some (Errorf ''maker_order_id is required'' [])
          else if TrimSpace (xt_TakerOrderID e) = [] then Some (Errorf ''taker_order_id is required'' [])
          else if TrimSpace (xt_Price e) = [] then Some (Errorf ''price is required'' [])
          else if TrimSpace (xt_Quantity e) = [] then Some (Errorf ''quantity is required'' [])
          else if NewFromString D (TrimSpace (xt_Price e)) = None then Some (Errorf ''price must be decimal'' [])
          else if NewFromString D (TrimSpace (xt_Quantity e)) = None then Some (Errorf ''quantity must be decimal'' [])
          else
            (let side = ToLower (TrimSpace (xt_MakerSide e)) in
             if side \<noteq> ''buy'' \<and> side \<noteq> ''sell'' then Some (Errorf ''maker_side must be buy or sell'' [])
             else if xt_ExecutedAt e \<noteq> [] \<and> ParseRFC3339 (xt_ExecutedAt e) = None then Some (Errorf ''executed_at must be RFC3339'' [])
             else None))"

definition fill_parseUUID :: "('d, 'e) api_env_scheme \<Rightarrow> string \<Rightarrow> string \<Rightarrow> go_error + uuid" where
  "fill_parseUUID E v field =
     (let trimmed = TrimSpace v in
      if trimmed = [] then Inl (Errorf (field @ '' is required'') [])
      else case ae_parseUUID E trimmed of
          None \<Rightarrow> Inl (Errorf (''invalid '' @ field) [])
        | Some parsed \<Rightarrow> Inr parsed)"

section \<open>The handler\<close>

text \<open>\<open>orDLQ\<close> refuses a message for good when a part of it cannot be used.\<close>

definition orDLQ :: "string \<Rightarrow> go_error + 'a \<Rightarrow> ('a \<Rightarrow> ('s, 'b) prog) \<Rightarrow> ('s, 'b) prog" where
  "orDLQ reason x k = (case x of Inl err \<Rightarrow> fail (DLQErr reason err) | Inr a \<Rightarrow> k a)"

definition releaseFilled :: "('d, 'l, 'p) ingest_env \<Rightarrow> 'l ledger_client \<Rightarrow> unit \<Rightarrow> uuid \<Rightarrow> ('d, 'l, 'p, unit) ingest_prog" where
  "releaseFilled E ledger _ orderID =
     (let text = se_uuidString E orderID in
      attempt (callLedgerServer E (ReleaseCall text) (lc_ReleaseBalance ledger text))
        (\<lambda>err. if status_FromError err = Some NotFound then ret () else fail err)
        (\<lambda>_. ret ()))"

definition applyTrade :: "('d::linordered_idom, 'l, 'p) ingest_env \<Rightarrow> string \<Rightarrow> 'd OrderFill list \<Rightarrow> ('d, 'l, 'p, unit) ingest_prog" where
  "applyTrade E eventID fills =
     bindM (atStore (ApplyTradeExecution E eventID fills)) (\<lambda>result.
     if at_FilledOrderIDs result \<noteq> [] then
       (case ie_ledger E of
          None \<Rightarrow> fail (Errorf ''ledger client not configured'' [])
        | Some ledger \<Rightarrow> foldM (releaseFilled E ledger) (at_FilledOrderIDs result) ())
     else ret ())"

definition tradeFills :: "uuid \<Rightarrow> uuid \<Rightarrow> 'd \<Rightarrow> 'd OrderFill list" where
  "tradeFills maker taker qty = [\<lparr>fl_OrderID = maker, fl_Quantity = qty\<rparr>, \<lparr>fl_OrderID = taker, fl_Quantity = qty\<rparr>]"

definition FillConsumer_HandleMessage ::
  "('d::linordered_idom, 'l, 'p) ingest_env \<Rightarrow> (string \<Rightarrow> go_error + ExecutedTrade) \<Rightarrow> ConsumerMessage option \<Rightarrow> ('d, 'l, 'p, unit) ingest_prog" where
  "FillConsumer_HandleMessage E decode msg =
     (case msg of
        None \<Rightarrow> fail (DLQErr ''empty_message'' (Errorf ''empty kafka message'' []))
      | Some m \<Rightarrow>
          if length (cm_Value m) = 0 then fail (DLQErr ''empty_message'' (Errorf ''empty kafka message'' []))
          else case decode (cm_Value m) of
            Inl err \<Rightarrow> fail (DLQErr ''decode'' (Wrapf ''decode trades.executed: %w'' err))
          | Inr event \<Rightarrow>
              orDLQ ''invalid_event'' (case ExecutedTrade_Validate (se_dec E) event of Some err \<Rightarrow> Inl err | None \<Rightarrow> Inr ()) (\<lambda>_.
              orDLQ ''invalid_event'' (fill_parseUUID E (xt_MakerOrderID event) ''maker_order_id'') (\<lambda>makerOrderID.
              orDLQ ''invalid_event'' (fill_parseUUID E (xt_TakerOrderID event) ''taker_order_id'') (\<lambda>takerOrderID.
              orDLQ ''invalid_event'' (case NewFromString (se_dec E) (TrimSpace (xt_Quantity event)) of
                  None \<Rightarrow> Inl (Errorf ''invalid quantity'' []) | Some qty \<Rightarrow> Inr qty) (\<lambda>qty.
              applyTrade E (env_EventID (xt_Envelope event)) (tradeFills makerOrderID takerOrderID qty))))))"

lemma wp_orDLQ [wp_intro]:
  "(\<And>err. x = Inl err \<Longrightarrow> X (DLQErr reason err) s) \<Longrightarrow> (\<And>a. x = Inr a \<Longrightarrow> wp (k a) Q X s) \<Longrightarrow> wp (orDLQ reason x k) Q X s"
  by (simp add: orDLQ_def split: sum.split)

section \<open>Releasing the completed orders\<close>

context reservations
begin

lemma wp_releaseFilled:
  assumes "talksTo E client uuidText decText" and "inv (is_ledger st)"
    and "\<And>t. inv (is_ledger t) \<Longrightarrow> held (is_ledger t) = (\<lambda>o'. if o' \<in> set ids then None else held (is_ledger st) o') \<Longrightarrow> ss_db (is_store t) = ss_db (is_store st) \<Longrightarrow> Q () t"
    and "\<And>e t. \<forall>o'. o' \<notin> set ids \<longrightarrow> held (is_ledger t) o' = held (is_ledger st) o' \<Longrightarrow> ss_db (is_store t) = ss_db (is_store st) \<Longrightarrow> X e t"
  shows "wp (foldM (releaseFilled E client) ids ()) Q X st"
  using assms(2-4)
proof (induction ids arbitrary: st)
  case (Cons i ids)
  have same: "releaseFilled E client () i = releaseReservation E i"
    using assms(1) by (simp add: releaseFilled_def releaseReservation_def talksTo_def)
  show ?case
    unfolding foldM.simps wp_bindM same
  proof (rule wp_release [OF assms(1) Cons.prems(1)], goal_cases)
    case (1 t)
    then show ?case using Cons.prems by (intro Cons.IH) (auto intro!: Cons.prems(2,3) simp: fun_eq_iff)
  next
    case (2 e t)
    then show ?case by (intro Cons.prems(3)) auto
  qed
qed (simp add: fun_eq_iff)

lemma wp_applyTrade:
  assumes "talksTo E client uuidText decText" and "inv (is_ledger st)" and "printed_text (se_dec E)" and "orders_inv (ss_db (is_store st))"
  shows "wp (applyTrade E eventID fills)
    (\<lambda>_ t. \<exists>r. fills_post eventID fills (ss_db (is_store st)) r (ss_db (is_store t))
       \<and> held (is_ledger t) = (\<lambda>o'. if o' \<in> set (at_FilledOrderIDs r) then None else held (is_ledger st) o'))
    (\<lambda>e t. ss_db (is_store t) = ss_db (is_store st) \<and> is_ledger t = is_ledger st
       \<or> (\<exists>r. fills_post eventID fills (ss_db (is_store st)) r (ss_db (is_store t))
            \<and> (\<forall>o'. o' \<notin> set (at_FilledOrderIDs r) \<longrightarrow> held (is_ledger t) o' = held (is_ledger st) o'))) st"
proof -
  have E: "ie_ledger E = Some client" using assms(1) by (simp add: talksTo_def)
  show ?thesis
    unfolding applyTrade_def wp_bindM wp_atStore E option.case
    apply (rule wp_conseq [OF wp_ApplyTradeExecution [OF assms(3) orders_inv_IDs [OF assms(4)]]])
    subgoal for r s
      apply (rule wp_if)
      subgoal by (rule wp_releaseFilled [OF assms(1)]) (use assms(2) in \<open>auto intro!: exI [of _ r] simp: fun_eq_iff\<close>)
      subgoal by (rule wp_intro_structural(1), rule exI [of _ r]) (simp add: fun_eq_iff)
      done
    subgoal by simp
    done
qed

lemma wp_FillConsumer:
  assumes "talksTo E client uuidText decText" and "inv (is_ledger st)" and "printed_text (se_dec E)" and "orders_inv (ss_db (is_store st))"
  shows "wp (FillConsumer_HandleMessage E decode msg)
    (\<lambda>_ t. \<exists>m event maker taker qty r. msg = Some m \<and> decode (cm_Value m) = Inr event \<and> ExecutedTrade_Validate (se_dec E) event = None
       \<and> fill_parseUUID E (xt_MakerOrderID event) ''maker_order_id'' = Inr maker \<and> fill_parseUUID E (xt_TakerOrderID event) ''taker_order_id'' = Inr taker
       \<and> NewFromString (se_dec E) (TrimSpace (xt_Quantity event)) = Some qty
       \<and> fills_post (env_EventID (xt_Envelope event)) (tradeFills maker taker qty) (ss_db (is_store st)) r (ss_db (is_store t))
       \<and> held (is_ledger t) = (\<lambda>o'. if o' \<in> set (at_FilledOrderIDs r) then None else held (is_ledger st) o'))
    (\<lambda>e t. ss_db (is_store t) = ss_db (is_store st) \<and> is_ledger t = is_ledger st
       \<or> (\<exists>eventID fills r. fills_post eventID fills (ss_db (is_store st)) r (ss_db (is_store t))
            \<and> (\<forall>o'. o' \<notin> set (at_FilledOrderIDs r) \<longrightarrow> held (is_ledger t) o' = held (is_ledger st) o'))) st"
proof -
  note apply_trade = wp_conseq [OF wp_applyTrade [OF assms]]
  show ?thesis
    unfolding FillConsumer_HandleMessage_def
    apply (rule wp_case_option)
    subgoal by simp
    subgoal for m
      apply (rule wp_if)
      subgoal by simp
      subgoal
        apply (rule wp_case_sum)
        subgoal by simp
        subgoal for event
          apply (intro wp_orDLQ)
          apply (simp_all split: option.splits)
          apply (rule apply_trade)
          subgoal by blast
          subgoal by blast
          done
        done
      done
    done
qed

end

section \<open>Properties\<close>


text \<open>A trade of two units between the stored sale 30 and the purchase 100 of before, which it completes.\<close>

definition sample_fill_event :: ExecutedTrade where
  "sample_fill_event = \<lparr>xt_Envelope = \<lparr>env_EventID = ''e1'', env_EventType = ''trades.executed'', env_EventVersion = 1, env_Timestamp = 5, env_CorrelationID = ''c''\<rparr>,
     xt_TradeID = ''t'', xt_Symbol = ''BTC-USD'', xt_MakerOrderID = ''30'', xt_TakerOrderID = ''100'', xt_Price = ''7'', xt_Quantity = ''2'', xt_MakerSide = ''sell'', xt_ExecutedAt = []\<rparr>"

definition sample_fill_message :: "ConsumerMessage option" where
  "sample_fill_message = Some \<lparr>cm_Topic = ''trades'', cm_Partition = 0, cm_Offset = 1, cm_Key = ''k'', cm_Value = ''v''\<rparr>"

abbreviation sample_handle where
  "sample_handle rpc \<equiv> FillConsumer_HandleMessage (sample_ingest_env rpc) (\<lambda>_. Inr sample_fill_event) sample_fill_message"



end
