(* ===== verification/Order_Validation.thy ===== *)
theory Order_Validation
  imports Order_Ingest
begin

text \<open>
  Validation of order requests, \<^verbatim>\<open>services/order-ingest/internal/validation/validator.go\<close>. The lemmas show that a request without errors is exactly one that
  satisfies a specification, and that the funds of such an order are always known to the submission.
\<close>

section \<open>Validation\<close>

record FieldError =
  fe_Field :: string
  fe_Message :: string

definition isSymbolChar :: "char \<Rightarrow> bool" where
  "isSymbolChar c \<longleftrightarrow> (let n = (of_char c :: nat) in (65 \<le> n \<and> n \<le> 90) \<or> (48 \<le> n \<and> n \<le> 57))"

text \<open>The pattern \<open>^[A-Z0-9]+-[A-Z0-9]+$\<close>.\<close>

definition symbolPattern :: "string \<Rightarrow> bool" where
  "symbolPattern s \<longleftrightarrow>
     takeWhile isSymbolChar s \<noteq> [] \<and>
     (case dropWhile isSymbolChar s of
        [] \<Rightarrow> False
      | c # rest \<Rightarrow> c = CHR ''-'' \<and> rest \<noteq> [] \<and> list_all isSymbolChar rest)"

definition order_parsePositive :: "'d::linordered_idom decimal_ops \<Rightarrow> string \<Rightarrow> string \<Rightarrow> go_error + 'd" where
  "order_parsePositive D field raw =
     (let trimmed = TrimSpace raw in
      if trimmed = [] then Inl (Errorf (field @ '' is required'') [])
      else case NewFromString D trimmed of
          None \<Rightarrow> Inl (Errorf (field @ '' must be a decimal'') [])
        | Some val \<Rightarrow> if val \<le> 0 then Inl (Errorf (field @ '' must be positive'') []) else Inr val)"

definition order_parsePositiveDecimal :: "'d::linordered_idom decimal_ops \<Rightarrow> string \<Rightarrow> go_error + 'd" where
  "order_parsePositiveDecimal D raw = order_parsePositive D ''quantity'' raw"

definition parsePositivePrice :: "'d::linordered_idom decimal_ops \<Rightarrow> string \<Rightarrow> go_error + 'd" where
  "parsePositivePrice D raw = order_parsePositive D ''price'' raw"

definition NormalizeSymbol :: "string \<Rightarrow> string" where
  "NormalizeSymbol symbol = ToUpper (TrimSpace symbol)"

definition errorOf :: "string \<Rightarrow> go_error + 'a \<Rightarrow> FieldError list" where
  "errorOf field r = (case r of Inl err \<Rightarrow> [\<lparr>fe_Field = field, fe_Message = Error_text err\<rparr>] | Inr _ \<Rightarrow> [])"

definition ValidateOrderRequest ::
  "'d::linordered_idom decimal_ops \<Rightarrow> string \<Rightarrow> string \<Rightarrow> string \<Rightarrow> string \<Rightarrow> string \<Rightarrow> string \<Rightarrow> FieldError list" where
  "ValidateOrderRequest D rawSymbol rawSide rawType timeInForce quantity price =
     (let symbol = TrimSpace rawSymbol; side = ToLower (TrimSpace rawSide); orderType = ToLower (TrimSpace rawType);
          tif0 = ToUpper (TrimSpace timeInForce); tif = (if tif0 = [] then ''GTC'' else tif0); trimmedPrice = TrimSpace price in
      (if symbol = [] then [\<lparr>fe_Field = ''symbol'', fe_Message = ''symbol is required''\<rparr>]
       else if \<not> symbolPattern (ToUpper symbol) then [\<lparr>fe_Field = ''symbol'', fe_Message = ''symbol must match BASE-QUOTE''\<rparr>] else [])
      @ (if side \<noteq> ''buy'' \<and> side \<noteq> ''sell'' then [\<lparr>fe_Field = ''side'', fe_Message = ''side must be buy or sell''\<rparr>] else [])
      @ (if orderType \<noteq> ''limit'' \<and> orderType \<noteq> ''market'' then [\<lparr>fe_Field = ''type'', fe_Message = ''type must be limit or market''\<rparr>] else [])
      @ (if tif \<noteq> ''GTC'' \<and> tif \<noteq> ''IOC'' \<and> tif \<noteq> ''FOK''
         then [\<lparr>fe_Field = ''time_in_force'', fe_Message = ''time_in_force must be GTC, IOC, or FOK''\<rparr>] else [])
      @ errorOf ''quantity'' (order_parsePositiveDecimal D quantity)
      @ (if orderType = ''limit'' then
           (if trimmedPrice = [] then [\<lparr>fe_Field = ''price'', fe_Message = ''price is required for limit orders''\<rparr>]
            else errorOf ''price'' (parsePositivePrice D trimmedPrice)) else [])
      @ (if orderType = ''market'' \<and> trimmedPrice \<noteq> [] then errorOf ''price'' (parsePositivePrice D trimmedPrice) else []))"

section \<open>What a valid request is\<close>

text \<open>The specification: a symbol of two parts of capitals and digits, known words, and positive numbers.\<close>

definition positiveText :: "'d::linordered_idom decimal_ops \<Rightarrow> string \<Rightarrow> bool" where
  "positiveText D raw \<longleftrightarrow> TrimSpace raw \<noteq> [] \<and> (\<exists>v. NewFromString D (TrimSpace raw) = Some v \<and> 0 < v)"

definition validRequest :: "'d::linordered_idom decimal_ops \<Rightarrow> string \<Rightarrow> string \<Rightarrow> string \<Rightarrow> string \<Rightarrow> string \<Rightarrow> string \<Rightarrow> bool" where
  "validRequest D symbol side orderType timeInForce quantity price \<longleftrightarrow>
     (\<exists>base quote. NormalizeSymbol symbol = base @ ''-'' @ quote \<and> base \<noteq> [] \<and> quote \<noteq> [] \<and> (\<forall>c \<in> set base \<union> set quote. isSymbolChar c))
     \<and> ToLower (TrimSpace side) \<in> {''buy'', ''sell''} \<and> ToLower (TrimSpace orderType) \<in> {''limit'', ''market''}
     \<and> ToUpper (TrimSpace timeInForce) \<in> {[], ''GTC'', ''IOC'', ''FOK''} \<and> positiveText D quantity
     \<and> (if ToLower (TrimSpace orderType) = ''limit'' then positiveText D price else TrimSpace price = [] \<or> positiveText D price)"

lemma takeWhile_snoc: "(\<And>x. x \<in> set xs \<Longrightarrow> P x) \<Longrightarrow> \<not> P c \<Longrightarrow> takeWhile P (xs @ c # ys) = xs \<and> dropWhile P (xs @ c # ys) = c # ys"
  by (induction xs) auto

lemma symbolPattern_iff:
  "symbolPattern s \<longleftrightarrow> (\<exists>base quote. s = base @ ''-'' @ quote \<and> base \<noteq> [] \<and> quote \<noteq> [] \<and> (\<forall>c \<in> set base \<union> set quote. isSymbolChar c))"
  (is "_ = ?spec")
proof
  assume "symbolPattern s"
  then obtain quote where quote: "dropWhile isSymbolChar s = CHR ''-'' # quote" "quote \<noteq> []" "list_all isSymbolChar quote" "takeWhile isSymbolChar s \<noteq> []"
    by (auto simp: symbolPattern_def split: list.splits)
  have "s = takeWhile isSymbolChar s @ ''-'' @ quote" using takeWhile_dropWhile_id [of isSymbolChar s] quote(1) by simp
  moreover have "\<forall>c \<in> set (takeWhile isSymbolChar s) \<union> set quote. isSymbolChar c" using quote(3) by (auto simp: list_all_iff dest: set_takeWhileD)
  ultimately show ?spec using quote by blast
next
  assume ?spec
  then obtain base quote where s: "s = base @ CHR ''-'' # quote" "base \<noteq> []" "quote \<noteq> []" and chars: "\<forall>c \<in> set base \<union> set quote. isSymbolChar c" by auto
  have "takeWhile isSymbolChar s = base \<and> dropWhile isSymbolChar s = CHR ''-'' # quote"
    unfolding s(1) by (rule takeWhile_snoc) (use chars in \<open>auto simp: isSymbolChar_def\<close>)
  then show "symbolPattern s" using s chars by (simp add: symbolPattern_def list_all_iff)
qed

lemma errorOf_positive [simp]: "errorOf field (order_parsePositive D what raw) = [] \<longleftrightarrow> positiveText D raw"
  by (auto simp: errorOf_def order_parsePositive_def positiveText_def Let_def not_le split: option.splits)

lemma positiveText_TrimSpace [simp]: "positiveText D (TrimSpace raw) = positiveText D raw"
  by (simp add: positiveText_def)

lemma symbolPattern_not_Nil: "symbolPattern s \<Longrightarrow> s \<noteq> []"
  by (auto simp: symbolPattern_def)

lemma ValidateOrderRequest_Nil:
  "ValidateOrderRequest D symbol side orderType timeInForce quantity price = [] \<longleftrightarrow> validRequest D symbol side orderType timeInForce quantity price"
  unfolding ValidateOrderRequest_def validRequest_def Let_def symbolPattern_iff [symmetric] NormalizeSymbol_def order_parsePositiveDecimal_def parsePositivePrice_def
  using symbolPattern_not_Nil [of "ToUpper (TrimSpace symbol)"]
  by (auto simp: positiveText_def [of D price])

text \<open>A valid symbol has a base and a quote asset.\<close>

lemma Split_no: "c \<notin> set s \<Longrightarrow> Split s c = [s]"
  by (induction s) auto

lemma Split_at: "c \<notin> set a \<Longrightarrow> c \<notin> set b \<Longrightarrow> Split (a @ c # b) c = [a, b]"
  by (induction a) (auto simp: Split_no)

lemma isSymbolChar_not_space: "isSymbolChar c \<Longrightarrow> \<not> isSpace c"
  by (auto simp: isSymbolChar_def isSpace_def)

lemma validSymbol_plain:
  assumes "s = base @ CHR ''-'' # quote" and "\<forall>c \<in> set base \<union> set quote. isSymbolChar c"
  shows "TrimSpace s = s"
proof (rule TrimSpace_no_blanks)
  have "\<not> isSpace CHR ''-''" by (simp add: isSpace_def)
  then show "\<not> isSpace c" if "c \<in> set s" for c using that assms isSymbolChar_not_space by auto
qed

lemma validRequest_splits:
  assumes "validRequest D symbol side orderType timeInForce quantity price"
  shows "\<exists>base quote. ingest_splitSymbol (NormalizeSymbol symbol) = Inr (base, quote) \<and> base \<noteq> [] \<and> quote \<noteq> []"
proof -
  obtain base quote where s: "NormalizeSymbol symbol = base @ CHR ''-'' # quote" "base \<noteq> []" "quote \<noteq> []" "\<forall>c \<in> set base \<union> set quote. isSymbolChar c"
    using assms by (auto simp: validRequest_def)
  have "\<not> isSymbolChar CHR ''-''" by (simp add: isSymbolChar_def)
  then have no: "CHR ''-'' \<notin> set base" "CHR ''-'' \<notin> set quote" using s(4) by blast+
  have "ToUpper (TrimSpace (NormalizeSymbol symbol)) = NormalizeSymbol symbol"
    using validSymbol_plain [OF s(1,4)] by (simp add: NormalizeSymbol_def)
  then show ?thesis using s no by (simp add: ingest_splitSymbol_def Split_at)
qed

section \<open>Properties\<close>

text \<open>
  C28: A request passes the validation exactly when it satisfies the specification: its symbol, trimmed and in capitals, is a base and a quote of
  capitals and digits with a dash between them; side, type and time in force are known words in any case; the quantity is a positive decimal, and so is the price, which only
  a market order may leave out.
\<close>

theorem ValidateOrderRequest_spec:
  "ValidateOrderRequest D symbol side orderType timeInForce quantity price = [] \<longleftrightarrow> validRequest D symbol side orderType timeInForce quantity price"
  by (rule ValidateOrderRequest_Nil)

end
