(* ===== verification/Order_Handlers.thy ===== *)
theory Order_Handlers
  imports Order_Validation Order_Submission
begin

text \<open>
  The HTTP handlers of the order ingest service, \<^verbatim>\<open>services/order-ingest/internal/handlers/orders.go\<close>. A request is what gin gives a handler: the values of
  the context, the bound JSON body, headers, parameters and the query. The handlers work on the interface \<open>OrderService\<close>; every one of them answers.
\<close>

section \<open>Requests and responses\<close>

record createOrderRequest =
  cq_ClientOrderID :: string
  cq_Symbol :: string
  cq_Side :: string
  cq_Type :: string
  cq_Price :: string
  cq_Quantity :: string
  cq_TimeInForce :: string

record createOrderResponse =
  cs_OrderID :: string
  cs_Status :: string
  cs_CreatedAt :: string

record orderItem =
  oi_OrderID :: string
  oi_ClientOrderID :: string
  oi_Symbol :: string
  oi_Side :: string
  oi_Type :: string
  oi_Price :: "string option"
  oi_Quantity :: string
  oi_Filled :: string
  oi_Status :: string
  oi_TimeInForce :: string
  oi_CreatedAt :: string
  oi_UpdatedAt :: string

record errorResponse =
  er_Code :: string
  er_Message :: string
  er_Reasons :: "string list"
  er_Fields :: "FieldError list"
  er_Details :: "(string \<times> string) list"

datatype http_body =
    ErrorBody errorResponse
  | CreatedBody createOrderResponse
  | OrdersBody "orderItem list" string
  | OrderBody orderItem
  | CancelledBody string string string

record http_response =
  hp_Status :: int
  hp_Body :: http_body

text \<open>
  \<open>hq_UserID\<close> and \<open>hq_RequestID\<close> are the string values of the context, \<open>None\<close> when there is none; \<open>hq_JSON\<close> is the body, \<open>None\<close> when it cannot be bound; \<open>hq_ID\<close> is the path parameter.
\<close>

record http_request =
  hq_UserID :: "string option"
  hq_RequestID :: "string option"
  hq_JSON :: "createOrderRequest option"
  hq_IdempotencyKey :: string
  hq_ClientIP :: string
  hq_UserAgent :: string
  hq_ID :: string
  hq_Query :: "string \<Rightarrow> string"

record ('d, 's) order_service =
  sv_SubmitOrder :: "'d SubmitOrderInput \<Rightarrow> ('s, 'd SubmitOrderResult) prog"
  sv_CancelOrder :: "CancelOrderInput \<Rightarrow> ('s, 'd StoredOrder) prog"
  sv_ListOrders :: "uuid \<Rightarrow> OrderFilter \<Rightarrow> ('s, 'd StoredOrder list \<times> string) prog"
  sv_GetOrder :: "uuid \<Rightarrow> uuid \<Rightarrow> ('s, 'd StoredOrder) prog"

section \<open>Helpers\<close>

definition writeError :: "int \<Rightarrow> string \<Rightarrow> string \<Rightarrow> string list \<Rightarrow> FieldError list \<Rightarrow> (string \<times> string) list \<Rightarrow> http_response" where
  "writeError status code message reasons fieldErrs details =
     \<lparr>hp_Status = status, hp_Body = ErrorBody \<lparr>er_Code = code, er_Message = message, er_Reasons = reasons, er_Fields = fieldErrs, er_Details = details\<rparr>\<rparr>"

abbreviation plainError :: "int \<Rightarrow> string \<Rightarrow> string \<Rightarrow> http_response" where
  "plainError status code message \<equiv> writeError status code message [] [] []"

definition hasReason :: "string list \<Rightarrow> string \<Rightarrow> bool" where
  "hasReason reasons reason = list_ex (\<lambda>r. r = reason) reasons"

definition requestIDFromContext :: "http_request \<Rightarrow> string" where
  "requestIDFromContext req = (case hq_RequestID req of Some s \<Rightarrow> s | None \<Rightarrow> [])"

definition userIDFromContext :: "('d, 'e) api_env_scheme \<Rightarrow> http_request \<Rightarrow> uuid option" where
  "userIDFromContext E req = (case hq_UserID req of None \<Rightarrow> None | Some userID \<Rightarrow> ae_parseUUID E userID)"

definition parseUUIDParam :: "('d, 'e) api_env_scheme \<Rightarrow> string \<Rightarrow> uuid option" where
  "parseUUIDParam E v = (let trimmed = TrimSpace v in if trimmed = [] then None else ae_parseUUID E trimmed)"

definition orderToItem :: "('d, 'e) sql_env_scheme \<Rightarrow> 'd StoredOrder \<Rightarrow> orderItem" where
  "orderToItem E order =
     \<lparr>oi_OrderID = se_uuidString E (so_ID order), oi_ClientOrderID = so_ClientOrderID order, oi_Symbol = so_Symbol order, oi_Side = so_Side order,
      oi_Type = so_Type order, oi_Price = map_option (DecString (se_dec E)) (so_Price order), oi_Quantity = DecString (se_dec E) (so_Quantity order),
      oi_Filled = DecString (se_dec E) (so_FilledQuantity order), oi_Status = so_Status order, oi_TimeInForce = so_TimeInForce order,
      oi_CreatedAt = FormatRFC3339 (so_CreatedAt order), oi_UpdatedAt = FormatRFC3339 (so_UpdatedAt order)\<rparr>"

text \<open>\<open>strconv.Atoi\<close>: an optional sign and decimal digits, within 64 bits.\<close>

definition Atoi :: "string \<Rightarrow> int option" where
  "Atoi s =
     (let (neg, digits) = (case s of [] \<Rightarrow> (False, []) | c # cs \<Rightarrow> if c = CHR ''-'' then (True, cs) else if c = CHR ''+'' then (False, cs) else (False, s)) in
      if digits = [] then None
      else case parse_digits 0 digits of
          None \<Rightarrow> None
        | Some n \<Rightarrow> (let i = (if neg then - int n else int n) in if - (2 ^ 63) \<le> i \<and> i < 2 ^ 63 then Some i else None))"

text \<open>The message of a status error.\<close>

definition status_Message :: "go_error \<Rightarrow> string" where
  "status_Message err = (case err of StatusErr c m \<Rightarrow> m | _ \<Rightarrow> [])"

section \<open>Handlers\<close>

definition submitError :: "go_error \<Rightarrow> http_response" where
  "submitError err =
     (if errors_Is err ErrAccountNotFound then plainError 403 ''FORBIDDEN'' ''account not found''
      else if status_FromError err \<in> {Some InvalidArgument, Some NotFound, Some FailedPrecondition} then plainError 400 ''INVALID_REQUEST'' (status_Message err)
      else plainError 500 ''INTERNAL_ERROR'' ''internal error'')"

definition submitResponse :: "('d, 'e) sql_env_scheme \<Rightarrow> 'd SubmitOrderResult \<Rightarrow> http_response" where
  "submitResponse E result =
     (if sr_Status result = ''rejected'' \<and> \<not> sr_Existing result then
        (let (code, message) =
           (if hasReason (sr_Reasons result) ''insufficient_balance'' then (''INSUFFICIENT_BALANCE'', ''insufficient balance'')
            else if hasReason (sr_Reasons result) ''market_inactive'' then (''SYMBOL_HALTED'', ''market halted'')
            else (''INVALID_REQUEST'', ''order rejected'')) in
         writeError 400 code message (sr_Reasons result) [] (sr_Details result))
      else \<lparr>hp_Status = 200, hp_Body = CreatedBody \<lparr>cs_OrderID = se_uuidString E (so_ID (sr_Order result)), cs_Status = sr_Status result,
              cs_CreatedAt = FormatRFC3339 (so_CreatedAt (sr_Order result))\<rparr>\<rparr>)"

definition orderInput :: "('d::linordered_idom, 'e) sql_env_scheme \<Rightarrow> http_request \<Rightarrow> createOrderRequest \<Rightarrow> uuid \<Rightarrow> 'd option \<Rightarrow> 'd SubmitOrderInput" where
  "orderInput E hreq req userID price =
     (let tif = ToUpper (TrimSpace (cq_TimeInForce req)); headerKey = TrimSpace (hq_IdempotencyKey hreq) in
      \<lparr>si_UserID = userID, si_ClientOrderID = (if headerKey \<noteq> [] then headerKey else TrimSpace (cq_ClientOrderID req)),
       si_Symbol = NormalizeSymbol (cq_Symbol req), si_Side = ToLower (TrimSpace (cq_Side req)), si_OrderType = ToLower (TrimSpace (cq_Type req)),
       si_TimeInForce = (if tif = [] then ''GTC'' else tif),
       si_Quantity = (case NewFromString (se_dec E) (TrimSpace (cq_Quantity req)) of Some qty \<Rightarrow> qty | None \<Rightarrow> 0), si_Price = price,
       si_IP = hq_ClientIP hreq, si_UserAgent = hq_UserAgent hreq, si_CorrelationID = requestIDFromContext hreq\<rparr>)"

definition Handler_CreateOrder ::
  "('d::linordered_idom, 'e) api_env_scheme \<Rightarrow> ('d, 's) order_service \<Rightarrow> http_request \<Rightarrow> ('s, http_response) prog" where
  "Handler_CreateOrder E S hreq =
     (case userIDFromContext E hreq of
        None \<Rightarrow> ret (plainError 401 ''UNAUTHORIZED'' ''missing user'')
      | Some userID \<Rightarrow>
          (case hq_JSON hreq of
             None \<Rightarrow> ret (plainError 400 ''INVALID_REQUEST'' ''invalid payload'')
           | Some req \<Rightarrow>
               (let errs = ValidateOrderRequest (se_dec E) (cq_Symbol req) (cq_Side req) (cq_Type req) (cq_TimeInForce req) (cq_Quantity req) (cq_Price req);
                    submit = (\<lambda>price. attempt (sv_SubmitOrder S (orderInput E hreq req userID price)) (\<lambda>err. ret (submitError err)) (\<lambda>result. ret (submitResponse E result))) in
                if errs \<noteq> [] then ret (writeError 400 ''INVALID_REQUEST'' ''invalid request'' [] errs [])
                else if TrimSpace (cq_Price req) \<noteq> [] then
                  (case NewFromString (se_dec E) (TrimSpace (cq_Price req)) of
                     None \<Rightarrow> ret (plainError 400 ''INVALID_REQUEST'' ''invalid price'')
                   | Some price \<Rightarrow> submit (Some price))
                else submit None)))"

definition queryTime :: "http_request \<Rightarrow> string \<Rightarrow> string + time option" where
  "queryTime hreq field =
     (let s = TrimSpace (hq_Query hreq field) in
      if s = [] then Inr None else case ParseRFC3339 s of None \<Rightarrow> Inl (''invalid '' @ field) | Some t \<Rightarrow> Inr (Some t))"

definition queryLimit :: "http_request \<Rightarrow> string + int" where
  "queryLimit hreq = (let s = TrimSpace (hq_Query hreq ''limit'') in if s = [] then Inr 0 else case Atoi s of None \<Rightarrow> Inl ''invalid limit'' | Some n \<Rightarrow> Inr n)"

definition orBadRequest :: "string + 'a \<Rightarrow> ('a \<Rightarrow> ('s, http_response) prog) \<Rightarrow> ('s, http_response) prog" where
  "orBadRequest x k = (case x of Inl m \<Rightarrow> ret (plainError 400 ''INVALID_REQUEST'' m) | Inr a \<Rightarrow> k a)"

definition Handler_ListOrders ::
  "('d, 'e) api_env_scheme \<Rightarrow> ('d, 's) order_service \<Rightarrow> http_request \<Rightarrow> ('s, http_response) prog" where
  "Handler_ListOrders E S hreq =
     (case userIDFromContext E hreq of
        None \<Rightarrow> ret (plainError 401 ''UNAUTHORIZED'' ''missing user'')
      | Some userID \<Rightarrow>
          orBadRequest (queryLimit hreq) (\<lambda>limit.
          orBadRequest (queryTime hreq ''from'') (\<lambda>from.
          orBadRequest (queryTime hreq ''to'') (\<lambda>to.
          attempt (sv_ListOrders S userID
              \<lparr>of_Symbol = NormalizeSymbol (hq_Query hreq ''symbol''), of_Status = ToLower (TrimSpace (hq_Query hreq ''status'')), of_From = from, of_To = to,
               of_Cursor = TrimSpace (hq_Query hreq ''cursor''), of_Limit = limit\<rparr>)
            (\<lambda>err. ret (if errors_Is err ErrAccountNotFound then plainError 403 ''FORBIDDEN'' ''account not found''
               else if errors_Is err ErrInvalidCursor then plainError 400 ''INVALID_REQUEST'' ''invalid cursor''
               else plainError 500 ''INTERNAL_ERROR'' ''internal error''))
            (\<lambda>(orders, nextCursor). ret \<lparr>hp_Status = 200, hp_Body = OrdersBody (map (orderToItem E) orders) nextCursor\<rparr>)))))"

definition Handler_GetOrder ::
  "('d, 'e) api_env_scheme \<Rightarrow> ('d, 's) order_service \<Rightarrow> http_request \<Rightarrow> ('s, http_response) prog" where
  "Handler_GetOrder E S hreq =
     (case userIDFromContext E hreq of
        None \<Rightarrow> ret (plainError 401 ''UNAUTHORIZED'' ''missing user'')
      | Some userID \<Rightarrow>
          (case parseUUIDParam E (hq_ID hreq) of
             None \<Rightarrow> ret (plainError 400 ''INVALID_REQUEST'' ''invalid order_id'')
           | Some orderID \<Rightarrow>
               attempt (sv_GetOrder S userID orderID)
                 (\<lambda>err. ret (if errors_Is err ErrAccountNotFound then plainError 403 ''FORBIDDEN'' ''account not found''
                    else if errors_Is err ErrOrderStoreNotFound then plainError 400 ''ORDER_NOT_FOUND'' ''order not found''
                    else plainError 500 ''INTERNAL_ERROR'' ''internal error''))
                 (\<lambda>order. ret \<lparr>hp_Status = 200, hp_Body = OrderBody (orderToItem E order)\<rparr>)))"

definition Handler_CancelOrder ::
  "('d, 'e) api_env_scheme \<Rightarrow> ('d, 's) order_service \<Rightarrow> http_request \<Rightarrow> ('s, http_response) prog" where
  "Handler_CancelOrder E S hreq =
     (case userIDFromContext E hreq of
        None \<Rightarrow> ret (plainError 401 ''UNAUTHORIZED'' ''missing user'')
      | Some userID \<Rightarrow>
          (case parseUUIDParam E (hq_ID hreq) of
             None \<Rightarrow> ret (plainError 400 ''INVALID_REQUEST'' ''invalid order_id'')
           | Some orderID \<Rightarrow>
               attempt (sv_CancelOrder S \<lparr>ci_UserID = userID, ci_OrderID = orderID, ci_IP = hq_ClientIP hreq, ci_UserAgent = hq_UserAgent hreq,
                   ci_CorrelationID = requestIDFromContext hreq\<rparr>)
                 (\<lambda>err. ret (if errors_Is err ErrAccountNotFound then plainError 403 ''FORBIDDEN'' ''account not found''
                    else if errors_Is err ErrOrderStoreNotFound then plainError 400 ''ORDER_NOT_FOUND'' ''order not found''
                    else if errors_Is err ErrInvalidStatus then plainError 400 ''INVALID_REQUEST'' ''order not cancellable''
                    else plainError 500 ''INTERNAL_ERROR'' ''internal error''))
                 (\<lambda>order. ret \<lparr>hp_Status = 200, hp_Body = CancelledBody (se_uuidString E (so_ID order)) (so_Status order) (FormatRFC3339 (so_UpdatedAt order))\<rparr>)))"

text \<open>The service of \<^verbatim>\<open>order_service.go\<close>.\<close>

definition orderService :: "('d::linordered_idom, 'l, 'p) ingest_env \<Rightarrow> ('d, ('d, 'l, 'p) ingest_state) order_service" where
  "orderService E = \<lparr>sv_SubmitOrder = SubmitOrder E, sv_CancelOrder = OrderService_CancelOrder E, sv_ListOrders = OrderService_ListOrders E, sv_GetOrder = OrderService_GetOrder E\<rparr>"

section \<open>What the answers mean\<close>

text \<open>
  What an answer to a new order tells the client. With status 200 the order is stored; a new one is pending and has funds held for it, a known one leaves everything as it was. Any other
  answer adds no order that could be matched.
\<close>

definition createdFor ::
  "(uuid \<Rightarrow> string) \<Rightarrow> 'd::linordered_idom order_db \<Rightarrow> (uuid \<Rightarrow> (uuid \<times> string \<times> 'd) option) \<Rightarrow> http_response \<Rightarrow> 'd order_db \<Rightarrow> (uuid \<Rightarrow> (uuid \<times> string \<times> 'd) option) \<Rightarrow> bool" where
  "createdFor text db H resp db' H' \<longleftrightarrow>
     (if hp_Status resp = 200
      then \<exists>order status created. hp_Body resp = CreatedBody \<lparr>cs_OrderID = text (so_ID order), cs_Status = status, cs_CreatedAt = created\<rparr>
        \<and> (storedBefore db order db' \<and> H' = H
           \<or> o_orders db' = o_orders db @ [order] \<and> so_Status order = OrderStatusPending \<and> status = statusAccepted
             \<and> (\<exists>asset amount. 0 < amount \<and> H' = H(so_ID order := Some (so_AccountID order, asset, amount))))
      else o_orders db' = o_orders db \<or> (\<exists>order. rejectedOrder db order db'))"

lemma orderInput_funds:
  assumes "validRequest (se_dec E) (cq_Symbol req) (cq_Side req) (cq_Type req) (cq_TimeInForce req) (cq_Quantity req) (cq_Price req)"
    and "fundsFor E' db (si_Side (orderInput E hreq req userID price)) ty (si_Symbol (orderInput E hreq req userID price)) q p funds"
  shows "funds \<noteq> None"
proof -
  obtain base quote where "ingest_splitSymbol (NormalizeSymbol (cq_Symbol req)) = Inr (base, quote)" using validRequest_splits [OF assms(1)] by blast
  moreover have "si_Side (orderInput E hreq req userID price) \<in> {''buy'', ''sell''}" "si_Symbol (orderInput E hreq req userID price) = NormalizeSymbol (cq_Symbol req)"
    using assms(1) by (simp_all add: validRequest_def orderInput_def Let_def)
  moreover have "ToLower (TrimSpace ''buy'') = ''buy''" "ToLower (TrimSpace ''sell'') = ''sell''" by code_simp+
  ultimately show ?thesis
    using assms(2) unfolding fundsFor_def by (auto split: if_splits)
qed

lemma createdFor_submitted:
  assumes "validRequest (se_dec E) (cq_Symbol req) (cq_Side req) (cq_Type req) (cq_TimeInForce req) (cq_Quantity req) (cq_Price req)"
    and "submitted risk E (orderInput E hreq req userID price) db H res db' H'"
  shows "createdFor (se_uuidString E) db H (submitResponse E res) db' H'"
proof (cases "\<not> sr_Existing res \<and> sr_Status res = statusAccepted")
  case True
  then obtain acct cid i ts funds where new: "sr_Order res = (newOrder E (orderInput E hreq req userID price) i cid acct)\<lparr>so_Status := OrderStatusPending, so_CreatedAt := ts, so_UpdatedAt := ts\<rparr>"
    and rows: "o_orders db' = o_orders db @ [sr_Order res]" and pos: "\<forall>a x. funds = Some (a, x) \<longrightarrow> 0 < x" and H: "H' = H(i := reservedFor acct funds)"
    and funds: "fundsFor E db (so_Side (sr_Order res)) (so_Type (sr_Order res)) (so_Symbol (sr_Order res)) (so_Quantity (sr_Order res)) (so_Price (sr_Order res)) funds"
    using assms(2) unfolding submitted_def newlyAccepted_def by auto
  have ids: "so_ID (sr_Order res) = i" "so_AccountID (sr_Order res) = acct" "so_Status (sr_Order res) = OrderStatusPending"
    "so_Side (sr_Order res) = si_Side (orderInput E hreq req userID price)" "so_Symbol (sr_Order res) = si_Symbol (orderInput E hreq req userID price)"
    unfolding new by (simp_all add: newOrder_def Let_def)
  obtain a x where ax: "funds = Some (a, x)" using orderInput_funds [OF assms(1) funds [unfolded ids(4,5)]] by auto
  then have "0 < x \<and> H' = H(so_ID (sr_Order res) := Some (so_AccountID (sr_Order res), ToUpper (TrimSpace a), x))"
    using pos H by (simp add: ids reservedFor_def)
  then have "\<exists>asset amount. 0 < amount \<and> H' = H(so_ID (sr_Order res) := Some (so_AccountID (sr_Order res), asset, amount))" by blast
  with True rows ids(3) show ?thesis
    unfolding createdFor_def submitResponse_def
    by (auto simp: statusAccepted_def intro!: exI [of _ "sr_Order res"])
next
  case False
  then show ?thesis
    using assms(2)
    by (cases "sr_Existing res")
       (auto simp: submitted_def createdFor_def submitResponse_def writeError_def statusRejected_def storedBefore_def rejectedOrder_def Let_def split: prod.split if_splits)
qed

lemma createdFor_error:
  assumes "hp_Status resp \<noteq> 200" and "o_orders db' = o_orders db"
  shows "createdFor text db H resp db' H'"
  using assms by (simp add: createdFor_def)

lemma error_status [simp]: "hp_Status (writeError status code message reasons fieldErrs details) = status"
  by (simp add: writeError_def)

lemma submitError_status: "hp_Status (submitError err) \<noteq> 200"
  by (simp add: submitError_def)

lemma wp_Handler_CreateOrder:
  assumes "\<And>input. wp (SubmitOrder E input) (\<lambda>res t. submitted risk E input (ss_db (is_store st)) H res (ss_db (is_store t)) (held (is_ledger t)))
      (\<lambda>e t. sameTables (ss_db (is_store st)) (ss_db (is_store t))) st"
  shows "wp (Handler_CreateOrder E (orderService E) hreq)
    (\<lambda>resp t. createdFor (se_uuidString E) (ss_db (is_store st)) H resp (ss_db (is_store t)) (held (is_ledger t))) (\<lambda>_ _. False) st"
proof -
  have submit: "wp (attempt (SubmitOrder E (orderInput E hreq req userID price)) (\<lambda>err. ret (submitError err)) (\<lambda>result. ret (submitResponse E result)))
      (\<lambda>resp t. createdFor (se_uuidString E) (ss_db (is_store st)) H resp (ss_db (is_store t)) (held (is_ledger t))) (\<lambda>_ _. False) st"
    if "validRequest (se_dec E) (cq_Symbol req) (cq_Side req) (cq_Type req) (cq_TimeInForce req) (cq_Quantity req) (cq_Price req)" for req userID price
    unfolding wp_attempt
    by (rule wp_conseq [OF assms]) (simp_all add: sameTables_def createdFor_submitted [OF that] createdFor_error submitError_status)
  show ?thesis
    unfolding Handler_CreateOrder_def Let_def ValidateOrderRequest_Nil
    by (intro wp_case_option wp_if wp_intro_structural(1)) (auto simp: orderService_def ValidateOrderRequest_Nil intro!: createdFor_error submit simp del: wp_attempt)
qed

section \<open>Properties\<close>

text \<open>
  C25: What the answer of \<^verbatim>\<open>POST /orders\<close> means, with the ledger service behind it and any failures. The handler always answers. When it answers 200, the order named in the
  answer is stored: either it was before and nothing has changed, or it is new and pending, and a positive amount is held for it and its account. Any other
  answer, a refused or failed request, leaves no order behind that could be matched.
\<close>

theorem CreateOrder_answer:
  fixes E :: "('d::linordered_idom, 'd store_state, 'p) ingest_env"
  assumes "ie_ledger E = Some (ledgerClient V L)" and "se_uuidString E = sv_uuidString V" and "se_dec E = sv_dec V" and "clientReady V L (is_ledger st)"
    and "printed_text (se_dec E)" and "ie_risk E = Some risk" and "\<And>n. se_uuid E n \<noteq> uuid_Nil \<and> heldFor (is_ledger st) (se_uuid E n) = None"
  shows "\<exists>resp t. Handler_CreateOrder E (orderService E) hreq st = (Inr resp, t)
    \<and> createdFor (se_uuidString E) (ss_db (is_store st)) (heldFor (is_ledger st)) resp (ss_db (is_store t)) (heldFor (is_ledger t))"
proof -
  have "wp (Handler_CreateOrder E (orderService E) hreq)
    (\<lambda>resp t. createdFor (se_uuidString E) (ss_db (is_store st)) (heldFor (is_ledger st)) resp (ss_db (is_store t)) (heldFor (is_ledger t))) (\<lambda>_ _. False) st"
    by (rule wp_Handler_CreateOrder, rule wp_conseq [OF ledger_funds.wp_SubmitOrder [of E V L st risk]]) (use assms in \<open>auto simp: talksTo_def\<close>)
  then show ?thesis unfolding wp_def by (auto split: prod.splits sum.splits)
qed

text \<open>The purchase of before as a request, and the same request with a price that is not positive.\<close>

definition sample_http :: "string \<Rightarrow> http_request" where
  "sample_http price = \<lparr>hq_UserID = Some ''20'', hq_RequestID = None,
     hq_JSON = Some \<lparr>cq_ClientOrderID = ''x'', cq_Symbol = '' btc-usd'', cq_Side = ''BUY'', cq_Type = ''Limit'', cq_Price = price, cq_Quantity = ''2'', cq_TimeInForce = []\<rparr>,
     hq_IdempotencyKey = [], hq_ClientIP = [], hq_UserAgent = [], hq_ID = [], hq_Query = (\<lambda>_. [])\<rparr>"

theorem CreateOrder_answer_witness:
  "(\<exists>resp t. Handler_CreateOrder (sample_ingest_env (\<lambda>_. Delivered)) (orderService (sample_ingest_env (\<lambda>_. Delivered))) (sample_http ''7'') sample_ingest = (Inr resp, t)
      \<and> createdFor sample_uuid_text (ss_db (is_store sample_ingest)) (heldFor (is_ledger sample_ingest)) resp (ss_db (is_store t)) (heldFor (is_ledger t)))
   \<and> fst (Handler_CreateOrder (sample_ingest_env (\<lambda>_. Delivered)) (orderService (sample_ingest_env (\<lambda>_. Delivered))) (sample_http ''7'') sample_ingest)
     = Inr \<lparr>hp_Status = 200, hp_Body = CreatedBody \<lparr>cs_OrderID = ''100'', cs_Status = ''accepted'', cs_CreatedAt = FormatRFC3339 1004\<rparr>\<rparr>
   \<and> map_sum id hp_Status (fst (Handler_CreateOrder (sample_ingest_env (\<lambda>_. Delivered)) (orderService (sample_ingest_env (\<lambda>_. Delivered))) (sample_http ''0'') sample_ingest)) = Inr 400"
proof (intro conjI)
  let ?E = "sample_ingest_env (\<lambda>_. Delivered)"
  have "heldFor sample_store 100 = None" by code_simp
  then have fresh: "se_uuid ?E n \<noteq> uuid_Nil \<and> heldFor (is_ledger sample_ingest) (se_uuid ?E n) = None" for n
    by (simp add: sample_ingest_facts uuid_Nil_def)
  have ready: "clientReady sample_service_env sample_store_env (is_ledger sample_ingest)" by (simp add: sample_ingest_facts)
  have printing: "se_uuidString ?E = sample_uuid_text" by (simp add: sample_ingest_env_def)
  from CreateOrder_answer [OF sample_ingest_facts(1-3) ready sample_ingest_facts(4,5) fresh, of "sample_http ''7''"]
  show "\<exists>resp t. Handler_CreateOrder ?E (orderService ?E) (sample_http ''7'') sample_ingest = (Inr resp, t)
      \<and> createdFor sample_uuid_text (ss_db (is_store sample_ingest)) (heldFor (is_ledger sample_ingest)) resp (ss_db (is_store t)) (heldFor (is_ledger t))"
    unfolding printing .
qed code_simp+

end
