(* ===== verification/Spec2Isabelle.thy ===== *)
theory Spec2Isabelle
  imports Order_Consumer Trade_Consumer Fee_Service Fill_Consumer Order_Handlers
begin

text \<open>
  Verification of the exchange backend \<^verbatim>\<open>goex\<close>. The program is a set of Go services over Kafka and PostgreSQL: an order comes in over HTTP, is checked by the risk service, funds are
  reserved in the ledger, the order is matched into trades, and the ledger settles the trades, with fees from the fee service. The development
  follows that path.

  \<^bold>\<open>Theories.\<close>
  \<^item> \<^verbatim>\<open>Go_Prelude\<close>: strings, errors (\<open>go_error\<close>), decimals, and lemmas on lists and association lists shared by the rest. A decimal is an
    element of an arbitrary linearly ordered integral domain; its text form and its division are parameters (\<open>decimal_ops\<close>).
  \<^item> \<^verbatim>\<open>Go_Heap\<close>: the algorithms of Go's \<open>container/heap\<close> over an interface of five operations, with the heap property as a locale.
  \<^item> \<^verbatim>\<open>Order_Book\<close> (\<^verbatim>\<open>matching/internal/engine/orderbook.go\<close>): price levels, the two price heaps with their stored positions, the order index;
    the invariant \<open>book_inv\<close>; the book as two priority queues of FIFO queues.
  \<^item> \<^verbatim>\<open>Matcher\<close> (\<^verbatim>\<open>matcher.go\<close>): \<open>MatchOrder\<close> with its loops over snapshots of levels and queues; refinement of a greedy walk in price-time order.
  \<^item> \<^verbatim>\<open>Kafka\<close> (\<^verbatim>\<open>libs/kafka\<close>): envelopes, dead letters, producers, retry tracker and the consumer loop; the locale \<open>publisher\<close>.
  \<^item> \<^verbatim>\<open>Engine\<close> (\<^verbatim>\<open>engine.go\<close>, \<^verbatim>\<open>snapshot.go\<close>, \<^verbatim>\<open>grpc_service.go\<close>): books per symbol, publication of trades, loading of snapshots; reachable states.
  \<^item> \<^verbatim>\<open>Order_Consumer\<close> (\<^verbatim>\<open>matching/internal/consumer\<close>): the deduper and the handlers of order events.
  \<^item> \<^verbatim>\<open>Ledger_Entries\<close> (\<^verbatim>\<open>ledger/internal/storage/postgres.go\<close>, the pure functions): the double entry of a trade, aggregation, application of an entry to a balance.
  \<^item> \<^verbatim>\<open>Ledger_DB\<close>: programs that read and write the store and can fail, their weakest preconditions \<open>wp\<close>, the tables with their constraints,
    transactions, and one definition per SQL statement of the store.
  \<^item> \<^verbatim>\<open>Ledger_Reservations\<close>, \<^verbatim>\<open>Ledger_Fees\<close>, \<^verbatim>\<open>Ledger_Settlement\<close>: the operations of the store, statement by statement.
  \<^item> \<^verbatim>\<open>Ledger_Invariants\<close>: the store as a state machine; consistency and conservation in every reachable state.
  \<^item> \<^verbatim>\<open>Ledger_Service\<close> (\<^verbatim>\<open>ledger_service.go\<close>): the gRPC calls over the interface \<open>ledger_store\<close>, which the store is shown to provide.
  \<^item> \<^verbatim>\<open>Trade_Consumer\<close> (\<^verbatim>\<open>ledger/internal/consumer/trade_consumer.go\<close>): the handler of executed trades, over the contracts of the store and of the publisher.
  \<^item> \<^verbatim>\<open>Go_Database\<close>, \<^verbatim>\<open>Go_Service\<close>, \<^verbatim>\<open>Go_Encoding\<close>: statements, transactions, clock and fresh UUIDs of a service over PostgreSQL, with rules for \<open>wp\<close>;
    remote calls that can be lost; base 64 and the text of page cursors.
  \<^item> \<^verbatim>\<open>Fee_Cache\<close>, \<^verbatim>\<open>Fee_Service\<close> (\<^verbatim>\<open>services/fee\<close>): the sorted tier cache with its binary search, the tables, and the gRPC calls.
  \<^item> \<^verbatim>\<open>Risk_Service\<close> (\<^verbatim>\<open>services/risk\<close>): the market cache, the circuit breaker and the pre-trade check.
  \<^item> \<^verbatim>\<open>Order_Store\<close> (\<^verbatim>\<open>order-ingest/internal/storage\<close>): the table of orders, the life cycle of an order, fills and pages of a listing.
  \<^item> \<^verbatim>\<open>Ledger_Client\<close>: the contract \<open>reservations\<close> of a ledger as its clients see it, interpreted on \<open>Ledger_Service\<close>.
  \<^item> \<^verbatim>\<open>Order_Ingest\<close>, \<^verbatim>\<open>Order_Submission\<close> (\<^verbatim>\<open>order_service.go\<close>): submission and cancellation; their outcomes over the contract of the ledger.
  \<^item> \<^verbatim>\<open>Fill_Consumer\<close> (\<^verbatim>\<open>order-ingest/internal/consumer\<close>): the handler that applies executed trades to the orders.
  \<^item> \<^verbatim>\<open>Order_Validation\<close>, \<^verbatim>\<open>Order_Handlers\<close> (\<^verbatim>\<open>validator.go\<close>, \<^verbatim>\<open>handlers/orders.go\<close>): validation of a request and the HTTP answers.
  \<^item> This theory: an accepted order from the request to the order book, and through the services that check it.

  \<^bold>\<open>State and effects.\<close> A Go struct is a record and a method a function on it. Errors are values: \<open>Inl\<close> an error, \<open>Inr\<close> a result, with
  every early return a branch. Map iteration is an association list in insertion order, or, where the order is visible in
  published messages, a parameter that permutes the keys. The store's programs pass a state with the tables, the rate cache and a counter of
  steps, which drives clock, fresh UUIDs and failures: any statement, begin or commit can fail. A failed statement
  aborts the transaction, as in PostgreSQL, and a transaction that does not commit leaves the tables as they were.
  Loops are structural recursion on the lists they run over, so every definition is total; the retry loop of the fee
  calculation runs over its three attempts; no fuel is used.

  \<^bold>\<open>Parameters and what is assumed of them.\<close> Decimal text (\<open>exact_text\<close>: a decimal read back from its text is the same; \<open>inj (DecString D)\<close>: different
  prices have different texts), UUID text (\<open>uuid_text\<close>: different UUIDs have different texts without a colon), JSON encoding, the clock,
  the fee service as the ledger calls it, the broker's answers and the hash of event IDs. \<open>plain_text\<close> and \<open>printed_text\<close> say that the text of a
  decimal is not empty, has no spaces around it and reads back; \<open>request_texts\<close> says the same of what a client sends to the ledger. Which remote calls are
  lost, before or after the other service has acted, is a parameter. That the two ends of a JSON event agree is stated field by field (\<open>acceptedEventOf\<close>). Each property with such a hypothesis has a witness
  with the integers as decimals and concrete functions for the rest.

  \<^bold>\<open>What is shown.\<close>
  Matching: trades follow price-time priority and conserve quantities; no order is overfilled, no account trades with itself; every operation
  keeps the book consistent; fill-or-kill is all or nothing; each trade has its own ID and is published once, in order, or
  a prefix of them is. Messages: the consumer loop marks exactly the messages handled or dead-lettered.
  Ledger: the entries of a settlement balance out in every asset; a settlement is applied at most once per trade in any sequence of calls
  with any failures; errors leave the tables untouched; balances never get negative and every asset's total is constant; reservations
  move exactly what they promise; fee calculation ends after at most three calls. Service and consumer: refused calls change nothing;
  an acknowledged trade is settled and exactly its entries are published.
  Fees and risk: the cache answers as the table would; an allowed order passes every check; an open breaker makes no calls to the ledger.
  Orders: fills are applied once and never beyond the quantity; an accepted order is allowed by the risk service and has exactly its funds held, any other
  answer holds nothing more than before; a cancelled order holds nothing; a request is accepted exactly when it is valid; an accepted order
  enters the order book with its terms unchanged.
  Some properties state a defect on a concrete run: an order matched twice after a failed publication, a message passed over after a transient failure, a
  reservation released twice, a reservation left behind by a lost answer, a release that is never repeated.

  \<^bold>\<open>Not modelled.\<close> Concurrency: mutexes, row locks and advisory locks only as statements that can fail, transactions one after the other; a commit that fails counts
  as rolled back. Contexts and timeouts, waiting between retries, metrics, logging and tracing. Rounding of \<open>decimal.Div\<close>, which
  is a parameter. Generated protocol code, start-up, configuration, seeding and the timers that refresh the caches are input and output; the environment of the
  order ingest service holds the slippage as its constructor has clamped it. The user and authentication services, the gateway's middleware and the API key and
  JWT libraries are not modelled: their decisions rest on cryptography and on libraries outside the repository. The identity of a caller is a field of the HTTP request.
\<close>

section \<open>From a request to the order book\<close>

text \<open>
  An accepted order leaves the order ingest service as a JSON event and enters the matching service; the names of the JSON fields agree.
\<close>

definition acceptedEventOf :: "AcceptedPayload \<Rightarrow> OrderAcceptedEvent" where
  "acceptedEventOf p =
     \<lparr>oa_Envelope = ap_Envelope p, oa_OrderID = ap_OrderID p, oa_ClientOrderID = ap_ClientOrderID p, oa_AccountID = ap_AccountID p, oa_Symbol = ap_Symbol p,
      oa_Side = ap_Side p, oa_Type = ap_Type p, oa_Price = ap_Price p, oa_Quantity = ap_Quantity p, oa_TimeInForce = ap_TimeInForce p,
      oa_Status = ap_Status p, oa_CreatedAt = ap_CreatedAt p\<rparr>"

text \<open>The order the matching engine should see.\<close>

definition matchingOrder :: "(uuid \<Rightarrow> string) \<Rightarrow> time \<Rightarrow> 'd::linordered_idom StoredOrder \<Rightarrow> 'd Order" where
  "matchingOrder text now order =
     \<lparr>ord_ID = text (so_ID order), ord_ClientOrderID = TrimSpace (so_ClientOrderID order), ord_AccountID = text (so_AccountID order), ord_Symbol = so_Symbol order,
      ord_Side = so_Side order, ord_Type = so_Type order, ord_Price = (case so_Price order of Some p \<Rightarrow> p | None \<Rightarrow> 0), ord_Quantity = so_Quantity order,
      ord_Filled = 0, ord_TimeInForce = so_TimeInForce order, ord_CreatedAt = truncSecond now\<rparr>"

text \<open>What the handler of \<^verbatim>\<open>POST /orders\<close> passes on, for a valid request.\<close>

definition wellFormed :: "'d::linordered_idom StoredOrder \<Rightarrow> bool" where
  "wellFormed order \<longleftrightarrow> TrimSpace (so_Symbol order) = so_Symbol order \<and> so_Symbol order \<noteq> [] \<and> so_Side order \<in> {''buy'', ''sell''} \<and> so_Type order \<in> {''limit'', ''market''}
     \<and> so_TimeInForce order \<in> {''GTC'', ''IOC'', ''FOK''} \<and> 0 < so_Quantity order \<and> (if so_Type order = ''limit'' then \<exists>p. so_Price order = Some p \<and> 0 < p else so_Price order = None)"

lemma words_trim:
  "TrimSpace ''buy'' = ''buy''" "TrimSpace ''sell'' = ''sell''" "TrimSpace ''limit'' = ''limit''" "TrimSpace ''market'' = ''market''"
  "TrimSpace ''GTC'' = ''GTC''" "TrimSpace ''IOC'' = ''IOC''" "TrimSpace ''FOK'' = ''FOK''"
  by code_simp+

lemma words_case:
  "ToLower ''buy'' = ''buy''" "ToLower ''sell'' = ''sell''" "ToLower ''limit'' = ''limit''" "ToLower ''market'' = ''market''"
  "ToUpper ''GTC'' = ''GTC''" "ToUpper ''IOC'' = ''IOC''" "ToUpper ''FOK'' = ''FOK''"
  by code_simp+

lemma wellFormed_newOrder:
  assumes "validRequest (se_dec E) (cq_Symbol req) (cq_Side req) (cq_Type req) (cq_TimeInForce req) (cq_Quantity req) (cq_Price req)"
    and "TrimSpace (cq_Price req) \<noteq> [] \<Longrightarrow> NewFromString (se_dec E) (TrimSpace (cq_Price req)) = price"
  shows "wellFormed (newOrder E (orderInput E hreq req userID price) i cid acct)"
proof -
  have symbol: "TrimSpace (NormalizeSymbol (cq_Symbol req)) = NormalizeSymbol (cq_Symbol req) \<and> NormalizeSymbol (cq_Symbol req) \<noteq> []"
    using assms(1) validSymbol_plain by (auto simp: validRequest_def)
  have type: "ToLower (TrimSpace (cq_Type req)) \<in> {''limit'', ''market''}" and tif: "ToUpper (TrimSpace (cq_TimeInForce req)) \<in> {[], ''GTC'', ''IOC'', ''FOK''}"
    and side: "ToLower (TrimSpace (cq_Side req)) \<in> {''buy'', ''sell''}" using assms(1) by (auto simp: validRequest_def)
  show ?thesis
    using assms symbol type tif side
    by (auto simp: wellFormed_def newOrder_def orderInput_def Let_def words_trim words_case validRequest_def positiveText_def)
qed

lemma wellFormed_validates:
  assumes "wellFormed order" and "text (so_ID order) \<noteq> []" and "TrimSpace (text (so_ID order)) = text (so_ID order)"
  shows "validateOrderFields (Some (matchingOrder text now order)) = None"
  using assms
  by (auto simp: wellFormed_def validateOrderFields_def matchingOrder_def normalizeSide_def normalizeType_def
      Let_def words_trim words_case)

lemma acceptedEvent_order:
  assumes "wellFormed order" and "plain_text D" and "printed_text D" and "D = se_dec E"
    and "\<And>u. se_uuidString E u \<noteq> [] \<and> TrimSpace (se_uuidString E u) = se_uuidString E u"
    and "NewEnvelopeWithID now eventID ''orders.accepted'' 1 corr = Inr env" and "\<not> IsZeroTime now"
    and "ev = acceptedEventOf (acceptedPayload E order env)"
  shows "OrderAcceptedEvent_Validate ev = None" "NewFromString D (TrimSpace (oa_Quantity ev)) = Some (so_Quantity order)"
    "(if TrimSpace (oa_Price ev) \<noteq> [] then NewFromString D (TrimSpace (oa_Price ev)) else Some 0) = Some (case so_Price order of Some p \<Rightarrow> p | None \<Rightarrow> 0)"
    "acceptedOrder now' ev (so_Quantity order) (case so_Price order of Some p \<Rightarrow> p | None \<Rightarrow> 0) = matchingOrder (se_uuidString E) now order"
    "env_EventID (oa_Envelope ev) = eventID" "TrimSpace (oa_OrderID ev) = se_uuidString E (so_ID order)" "env_CorrelationID (oa_Envelope ev) = corr"
proof -
  have env: "env = \<lparr>env_EventID = eventID, env_EventType = ''orders.accepted'', env_EventVersion = 1, env_Timestamp = now, env_CorrelationID = corr\<rparr>" "eventID \<noteq> []"
    using assms(6) by (auto simp: NewEnvelopeWithID_def split: if_splits)
  have D: "DecString D v \<noteq> []" "TrimSpace (DecString D v) = DecString D v" "NewFromString D (DecString D v) = Some v" for v
    using assms(2,3) by (simp_all add: printed_text_def)
  have words: "TrimSpace (so_Symbol order) = so_Symbol order" "so_Symbol order \<noteq> []" "TrimSpace (so_Side order) = so_Side order" "so_Side order \<noteq> []"
    "TrimSpace (so_Type order) = so_Type order" "so_Type order \<noteq> []" "TrimSpace (so_TimeInForce order) = so_TimeInForce order"
    using assms(1) by (auto simp: wellFormed_def words_trim)
  note ev = assms(8) [unfolded acceptedEventOf_def acceptedPayload_def env(1) assms(4) [symmetric]]
  show "OrderAcceptedEvent_Validate ev = None"
    using env(2) assms(5,7) words D by (simp add: ev OrderAcceptedEvent_Validate_def Envelope_Validate_def)
  show "NewFromString D (TrimSpace (oa_Quantity ev)) = Some (so_Quantity order)"
    "(if TrimSpace (oa_Price ev) \<noteq> [] then NewFromString D (TrimSpace (oa_Price ev)) else Some 0) = Some (case so_Price order of Some p \<Rightarrow> p | None \<Rightarrow> 0)"
    "acceptedOrder now' ev (so_Quantity order) (case so_Price order of Some p \<Rightarrow> p | None \<Rightarrow> 0) = matchingOrder (se_uuidString E) now order"
    "env_EventID (oa_Envelope ev) = eventID" "TrimSpace (oa_OrderID ev) = se_uuidString E (so_ID order)" "env_CorrelationID (oa_Envelope ev) = corr"
    using D words assms(5,7) by (simp_all add: ev optionalDecimal_def acceptedOrder_def matchingOrder_def split: option.split)
qed


text \<open>The purchase of two units at 7 from its request on: the engine of the samples matches it against nothing and keeps it.\<close>

definition sample_row_accepted :: "int StoredOrder" where
  "sample_row_accepted = (newOrder (sample_ingest_env (\<lambda>_. Delivered)) (orderInput (sample_ingest_env (\<lambda>_. Delivered)) (sample_http ''7'') (the (hq_JSON (sample_http ''7''))) 20 (Some 7)) 100 ''x'' 10)
     \<lparr>so_Status := OrderStatusPending, so_CreatedAt := 5, so_UpdatedAt := 5\<rparr>"

definition sample_envelope :: Envelope where
  "sample_envelope = \<lparr>env_EventID = ''e'', env_EventType = ''orders.accepted'', env_EventVersion = 1, env_Timestamp = 1, env_CorrelationID = []\<rparr>"

definition sample_matching :: "(int Engine \<times> producer_state, int) consumer_env" where
  "sample_matching = (sample_service sample_broker)\<lparr>co_decodeAccepted := (\<lambda>_. Inr (acceptedEventOf (acceptedPayload (sample_ingest_env (\<lambda>_. Delivered)) sample_row_accepted sample_envelope)))\<rparr>"


section \<open>Accepted orders have passed the risk service\<close>

text \<open>
  C24: With the risk service behind the order ingest service and the ledger service behind both, an accepted new order satisfies everything the pre-trade check demands, in the state of
  the risk service at the time of the check: an active account of a verified user, an active market, and a balance that covers the order. And the funds it needs
  are held for it in the ledger.
\<close>

theorem accepted_order_checked:
  fixes E :: "('d::linordered_idom, 'd store_state, 'p) ingest_env"
  assumes "ie_ledger E = Some (ledgerClient V L)" and "se_uuidString E = sv_uuidString V" and "se_dec E = sv_dec V" and "clientReady V L (is_ledger st)"
    and "printed_text (se_dec E)" and "\<And>n. se_uuid E n \<noteq> uuid_Nil \<and> heldFor (is_ledger st) (se_uuid E n) = None"
    and "ie_risk E = Some (\<lambda>n req. fst (PreTradeCheck R bps req (risk_state_at n)))"
    and "SubmitOrder E input st = (Inr res, t)" and "\<not> sr_Existing res" and "sr_Status res = statusAccepted"
  shows "(\<exists>n. mayTrade R bps (riskRequest E (sr_Order res)) (risk_state_at n))
    \<and> (\<exists>funds. fundsFor E (ss_db (is_store st)) (so_Side (sr_Order res)) (so_Type (sr_Order res)) (so_Symbol (sr_Order res)) (so_Quantity (sr_Order res)) (so_Price (sr_Order res)) funds
         \<and> heldFor (is_ledger t) (so_ID (sr_Order res)) = reservedFor (so_AccountID (sr_Order res)) funds)"
proof -
  have talks: "talksTo E (ledgerClient V L) (sv_uuidString V) (DecString (sv_dec V))" using assms(1-3) by (simp add: talksTo_def)
  have "submitted (\<lambda>n req. fst (PreTradeCheck R bps req (risk_state_at n))) E input (ss_db (is_store st)) (heldFor (is_ledger st)) res (ss_db (is_store t)) (heldFor (is_ledger t))"
    by (rule wp_Inr [OF ledger_funds.wp_SubmitOrder [OF talks assms(4,5,7,6)] assms(8)])
  then obtain acct cid i ts funds n resp where order: "sr_Order res = (newOrder E input i cid acct)\<lparr>so_Status := OrderStatusPending, so_CreatedAt := ts, so_UpdatedAt := ts\<rparr>"
    and risk: "fst (PreTradeCheck R bps (riskRequest E (sr_Order res)) (risk_state_at n)) = Inr resp" "pr_Allowed resp"
    and funds: "fundsFor E (ss_db (is_store st)) (so_Side (sr_Order res)) (so_Type (sr_Order res)) (so_Symbol (sr_Order res)) (so_Quantity (sr_Order res)) (so_Price (sr_Order res)) funds"
    and held: "heldFor (is_ledger t) = (heldFor (is_ledger st))(i := reservedFor acct funds)"
    using assms(9,10) unfolding submitted_def newlyAccepted_def by auto
  have "PreTradeCheck R bps (riskRequest E (sr_Order res)) (risk_state_at n) = (Inr resp, snd (PreTradeCheck R bps (riskRequest E (sr_Order res)) (risk_state_at n)))"
    using risk(1) by (metis prod.collapse)
  from wp_Inr [OF PreTradeCheck_post this] risk(2) have "mayTrade R bps (riskRequest E (sr_Order res)) (risk_state_at n)" by (simp add: checkPost_def)
  moreover have "so_ID (sr_Order res) = i" "so_AccountID (sr_Order res) = acct" unfolding order by (simp_all add: newOrder_def Let_def)
  ultimately show ?thesis using funds held by auto
qed

text \<open>The risk service of the samples allows a purchase of two units at 2.\<close>

definition sample_checked_env :: "(int, int store_state, (string \<times> string) list) ingest_env" where
  "sample_checked_env = (sample_ingest_env (\<lambda>_. Delivered))
     \<lparr>ie_risk := Some (\<lambda>n req. fst (PreTradeCheck (sample_risk_env sample_ledger_up) 0 req (NewRiskService sample_risk_db)))\<rparr>"

definition sample_cheap :: "int SubmitOrderInput" where
  "sample_cheap = (sample_buy ''y'')\<lparr>si_Price := Some 2\<rparr>"

theorem accepted_order_checked_witness:
  "(let r = SubmitOrder sample_checked_env sample_cheap sample_ingest; order = (case fst r of Inr res \<Rightarrow> sr_Order res) in
     (\<exists>n. mayTrade (sample_risk_env sample_ledger_up) 0 (riskRequest sample_checked_env order) (NewRiskService sample_risk_db))
     \<and> heldFor (is_ledger (snd r)) 100 = Some (10, ''USD'', 4))"
proof -
  let ?r = "SubmitOrder sample_checked_env sample_cheap sample_ingest"
  have run: "(map_sum id (\<lambda>res. (sr_Existing res, sr_Status res)) (fst ?r), heldFor (is_ledger (snd ?r)) 100) = (Inr (False, statusAccepted), Some (10, ''USD'', 4))" by code_simp
  then obtain res where res: "fst ?r = Inr res" "\<not> sr_Existing res" "sr_Status res = statusAccepted" by (cases "fst ?r") auto
  then have step: "?r = (Inr res, snd ?r)" by (metis prod.collapse)
  have E: "ie_ledger sample_checked_env = Some (ledgerClient sample_service_env sample_store_env)" "se_uuidString sample_checked_env = sv_uuidString sample_service_env"
    "se_dec sample_checked_env = sv_dec sample_service_env" "printed_text (se_dec sample_checked_env)"
    "ie_risk sample_checked_env = Some (\<lambda>n req. fst (PreTradeCheck (sample_risk_env sample_ledger_up) 0 req (NewRiskService sample_risk_db)))" "se_uuid sample_checked_env n = 100" for n
    by (simp_all add: sample_checked_env_def sample_ingest_facts [unfolded sample_service_env_def] sample_service_env_def)
  have ready: "clientReady sample_service_env sample_store_env (is_ledger sample_ingest)" by (simp add: sample_ingest_facts)
  have "heldFor sample_store 100 = None" by code_simp
  then have fresh: "se_uuid sample_checked_env n \<noteq> uuid_Nil \<and> heldFor (is_ledger sample_ingest) (se_uuid sample_checked_env n) = None" for n
    by (simp add: E sample_ingest_facts uuid_Nil_def)
  from accepted_order_checked [OF E(1-3) ready E(4) fresh E(5) step res(2,3)] run res(1) show ?thesis by (simp add: Let_def)
qed

end
